(* ===== verification/Prelude.thy ===== *)
theory Prelude
  imports
    Complex_Main
    "HOL-Library.Monad_Syntax"
    "HOL-Library.Signed_Division"
    "HOL-Library.Word"
begin

text \<open>
  Shared vocabulary of the development.

  \<^item> A Go panic is \<open>None\<close>: nothing in the repository recovers from one, so a panicking call has
    no further effect.  A call that returns is \<open>Some\<close>; the \<open>option\<close> monad of
    \<open>Monad_Syntax\<close> sequences calls that may panic.
  \<^item> Go's fixed-width integers are \<open>int\<close> values with the wrap-around written out at every
    operation that can leave the range: \<open>i64\<close> (\<open>int\<close>, \<open>int64\<close> and the types
    derived from it: \<open>ByteCount\<close>, \<open>PacketNumber\<close>, \<open>time.Duration\<close>), \<open>u64\<close>
    and \<open>u32\<close>.  The lemmas \<open>i64_word\<close> and \<open>u64_word\<close> tie them to the word
    library.
  \<^item> Integer division truncates towards zero (\<open>sdiv\<close>, \<open>smod\<close>) and panics on a zero
    divisor (\<open>go_div\<close>).
  \<^item> \<open>time.Time\<close> is the number of nanoseconds since the zero \<open>Time\<close>;
    \<open>Sub\<close> saturates at the bounds of \<open>Duration\<close> as the standard library does.
\<close>

named_theorems go_arith
  \<open>facts that remove a wrap-around whose operand is in range\<close>
named_theorems go_defs
  \<open>definitions of straight-line operations, unfolded together\<close>

type_synonym byteCount = int
type_synonym packetNumber = int
type_synonym duration = int
type_synonym time = int

abbreviation in_i64 :: "int \<Rightarrow> bool" where
  "in_i64 x \<equiv> - (2 ^ 63) \<le> x \<and> x < 2 ^ 63"

abbreviation in_u64 :: "int \<Rightarrow> bool" where
  "in_u64 x \<equiv> 0 \<le> x \<and> x < 2 ^ 64"

definition i64 :: "int \<Rightarrow> int" where
  "i64 x = (x + 2 ^ 63) mod 2 ^ 64 - 2 ^ 63"

definition u64 :: "int \<Rightarrow> int" where
  "u64 x = x mod 2 ^ 64"

definition u32 :: "int \<Rightarrow> int" where
  "u32 x = x mod 2 ^ 32"

definition go_div :: "int \<Rightarrow> int \<Rightarrow> int option" where
  "go_div a b = (if b = 0 then None else Some (i64 (a sdiv b)))"

definition go_divu :: "int \<Rightarrow> int \<Rightarrow> int option" where
  "go_divu a b = (if b = 0 then None else Some (a div b))"

definition time_zero :: time where
  "time_zero = 0"

definition time_IsZero :: "time \<Rightarrow> bool" where
  "time_IsZero t \<longleftrightarrow> t = time_zero"

definition time_Sub :: "time \<Rightarrow> time \<Rightarrow> duration" where
  "time_Sub t u = max (- (2 ^ 63)) (min (2 ^ 63 - 1) (t - u))"

definition time_Add :: "time \<Rightarrow> duration \<Rightarrow> time" where
  "time_Add t d = t + d"

definition time_Second :: duration where
  "time_Second = 1000000000"

definition time_Millisecond :: duration where
  "time_Millisecond = 1000000"

definition time_Microsecond :: duration where
  "time_Microsecond = 1000"

lemmas time_defs = time_zero_def time_IsZero_def time_Sub_def time_Add_def
  time_Second_def time_Millisecond_def time_Microsecond_def

lemma i64_id [simp, go_arith]: "in_i64 x \<Longrightarrow> i64 x = x"
  by (simp add: i64_def)

lemma i64_id_le: "0 \<le> x \<Longrightarrow> x \<le> y \<Longrightarrow> y < 2 ^ 63 \<Longrightarrow> i64 x = x"
  by (rule i64_id) simp

lemma i64_range: "in_i64 (i64 x)"
  using pos_mod_bound [of "2 ^ 64" "x + 2 ^ 63"] by (simp add: i64_def)

lemma i64_lower [simp]: "- 9223372036854775808 \<le> i64 x"
  and i64_upper [simp]: "i64 x < 9223372036854775808" "i64 x \<le> 9223372036854775807"
  using i64_range [of x] by simp_all

lemma i64_idem [simp]: "i64 (i64 x) = i64 x"
  using i64_range [of x] by (rule i64_id)

lemma u64_id [simp, go_arith]: "in_u64 x \<Longrightarrow> u64 x = x"
  by (simp add: u64_def)

lemma u64_nonneg [simp]: "0 \<le> u64 x"
  by (simp add: u64_def)

lemma u64_upper [simp]: "u64 x < 18446744073709551616" "u64 x \<le> 18446744073709551615"
  using pos_mod_bound [of "2 ^ 64" x] by (simp_all add: u64_def)

lemma u64_idem [simp]: "u64 (u64 x) = u64 x"
  by (simp add: u64_def)

lemma u64_add_u64_left [simp]: "u64 (u64 a + b) = u64 (a + b)"
  by (simp add: u64_def mod_simps)

lemma u64_word: "u64 x = uint (word_of_int x :: 64 word)"
  by (simp add: u64_def uint_word_of_int)

lemma i64_word: "i64 x = sint (word_of_int x :: 64 word)"
  by (simp add: i64_def sint_uint uint_word_of_int signed_take_bit_eq_take_bit_shift take_bit_eq_mod
      mod_simps)

lemma i64_add_i64_left [simp]: "i64 (i64 a + b) = i64 (a + b)"
  by (simp add: i64_def mod_simps algebra_simps)

lemma i64_add_i64_right [simp]: "i64 (a + i64 b) = i64 (a + b)"
  using i64_add_i64_left [of b a] by (simp add: add.commute)

lemma i64_diff_i64_left [simp]: "i64 (i64 a - b) = i64 (a - b)"
  using i64_add_i64_left [of a "- b"] by simp

lemma sdiv_pos_eq: "0 \<le> a \<Longrightarrow> 0 < b \<Longrightarrow> (a :: int) sdiv b = a div b"
  by (auto simp: signed_divide_int_def sgn_if)

lemma smod_pos_eq: "0 \<le> a \<Longrightarrow> 0 < b \<Longrightarrow> (a :: int) smod b = a mod b"
  by (cases "a = 0") (simp_all add: signed_modulo_int_def)

lemma go_div_pos: "0 < b \<Longrightarrow> 0 \<le> a \<Longrightarrow> in_i64 a \<Longrightarrow> go_div a b = Some (a div b)"
proof -
  assume b: "0 < b" and a: "0 \<le> a" "in_i64 a"
  have "a sdiv b = a div b" using a b by (simp add: sdiv_pos_eq)
  moreover have "a div b \<le> a" "0 \<le> a div b"
    using a b zdiv_mono2 [of a 1 b] by (simp_all add: pos_imp_zdiv_nonneg_iff)
  ultimately show ?thesis
    using a b by (simp add: go_div_def)
qed

lemma time_Sub_range: "in_i64 (time_Sub t u)"
  by (auto simp: time_Sub_def)

lemma time_Sub_pos [simp]: "0 < time_Sub t u \<longleftrightarrow> u < t"
  by (auto simp: time_Sub_def)

lemma time_Sub_le_0 [simp]: "time_Sub t u \<le> 0 \<longleftrightarrow> t \<le> u"
  by (auto simp: time_Sub_def)

lemma time_Sub_ge_0 [simp]: "0 \<le> time_Sub t u \<longleftrightarrow> u \<le> t"
  by (auto simp: time_Sub_def)

lemma time_Sub_id: "in_i64 (t - u) \<Longrightarrow> time_Sub t u = t - u"
  by (auto simp: time_Sub_def)

lemma bind_eq_SomeE:
  assumes "Option.bind m f = Some y"
  obtains x where "m = Some x" "f x = Some y"
  using assms by (cases m) auto

lemma if_bind_Some [simp]:
  "Option.bind (if b then Some x else Some y) f = f (if b then x else y)"
  by simp

end
