(* ===== verification/Deque.thy ===== *)
theory Deque
  imports Prelude
begin

text \<open>
  The interface between a double-ended buffer and the code that uses it: the operations a client
  calls, and what each does to the list of elements the buffer stands for.  A panic is \<open>None\<close>, so
  \<open>push_ok\<close> and \<open>pop_ok\<close> also say that the call returns.  \<open>iter_opt\<close> is the counted loop
  \<open>for i := 0; i < n; i++\<close> over a body that may panic.
\<close>

primrec iter_opt :: "nat \<Rightarrow> ('s \<Rightarrow> 's option) \<Rightarrow> 's \<Rightarrow> 's option" where
  "iter_opt 0 f s = Some s"
| "iter_opt (Suc n) f s = Option.bind (f s) (iter_opt n f)"

text \<open>
  Sequences of calls, executed on a buffer and on a list; the output is the popped elements, and a
  pop of an empty buffer panics.
\<close>

datatype 'a deque_op = Push 'a | Pop | Clear

fun deque_exec ::
    "('a \<Rightarrow> 'q \<Rightarrow> 'q option) \<Rightarrow> ('q \<Rightarrow> ('a \<times> 'q) option) \<Rightarrow> ('q \<Rightarrow> 'q) \<Rightarrow> 'a deque_op list \<Rightarrow> 'q \<Rightarrow>
     ('a list \<times> 'q) option" where
  "deque_exec push pop clear [] q = Some ([], q)"
| "deque_exec push pop clear (Push x # ops) q = Option.bind (push x q) (deque_exec push pop clear ops)"
| "deque_exec push pop clear (Pop # ops) q = do {
     (x, q) \<leftarrow> pop q;
     (out, q) \<leftarrow> deque_exec push pop clear ops q;
     Some (x # out, q)
   }"
| "deque_exec push pop clear (Clear # ops) q = deque_exec push pop clear ops (clear q)"

definition list_exec :: "'a deque_op list \<Rightarrow> 'a list \<Rightarrow> ('a list \<times> 'a list) option" where
  "list_exec = deque_exec (\<lambda>x xs. Some (xs @ [x]))
     (\<lambda>xs. case xs of [] \<Rightarrow> None | x # xs \<Rightarrow> Some (x, xs)) (\<lambda>_. [])"

locale deque =
  fixes invar :: "'q \<Rightarrow> bool"
    and elems :: "'q \<Rightarrow> 'a list"
    and push :: "'a \<Rightarrow> 'q \<Rightarrow> 'q option"
    and pop :: "'q \<Rightarrow> ('a \<times> 'q) option"
    and front :: "'q \<Rightarrow> 'a option"
    and len :: "'q \<Rightarrow> int"
    and is_empty :: "'q \<Rightarrow> bool"
    and clear :: "'q \<Rightarrow> 'q"
  assumes push_ok: "invar q \<Longrightarrow> \<exists>q'. push x q = Some q' \<and> invar q' \<and> elems q' = elems q @ [x]"
    and pop_ok: "invar q \<Longrightarrow> elems q = x # xs \<Longrightarrow>
      \<exists>q'. pop q = Some (x, q') \<and> invar q' \<and> elems q' = xs"
    and pop_empty: "invar q \<Longrightarrow> elems q = [] \<Longrightarrow> pop q = None"
    and front_ok: "invar q \<Longrightarrow> elems q = x # xs \<Longrightarrow> front q = Some x"
    and len_ok: "invar q \<Longrightarrow> len q = int (length (elems q))"
    and is_empty_ok: "invar q \<Longrightarrow> is_empty q \<longleftrightarrow> elems q = []"
    and clear_ok: "invar q \<Longrightarrow> invar (clear q) \<and> elems (clear q) = []"
begin

text \<open>Pushing the same element \<open>n\<close> times, as the gap-filling loop of a client does.\<close>

lemma push_times:
  "invar q \<Longrightarrow> \<exists>q'. iter_opt n (push x) q = Some q' \<and> invar q' \<and> elems q' = elems q @ replicate n x"
proof (induction n arbitrary: q)
  case (Suc n)
  obtain q1 where q1: "push x q = Some q1" "invar q1" "elems q1 = elems q @ [x]"
    using push_ok [OF Suc.prems] by blast
  with Suc.IH [OF q1(2)] show ?case
    by (auto simp: replicate_app_Cons_same)
qed simp

text \<open>Popping \<open>n\<close> elements, at most as many as there are.\<close>

lemma pop_times:
  "invar q \<Longrightarrow> n \<le> length (elems q) \<Longrightarrow>
   \<exists>q'. iter_opt n (\<lambda>q. map_option snd (pop q)) q = Some q' \<and> invar q' \<and> elems q' = drop n (elems q)"
proof (induction n arbitrary: q)
  case (Suc n)
  then obtain x xs where xs: "elems q = x # xs" by (cases "elems q") auto
  then obtain q1 where q1: "pop q = Some (x, q1)" "invar q1" "elems q1 = xs"
    using pop_ok [OF Suc.prems(1)] by blast
  with Suc xs show ?case by auto
qed simp

text \<open>Every sequence of calls behaves as on the list of elements, panics included.\<close>

lemma exec_simulates:
  assumes "invar q"
  shows "rel_option (\<lambda>(out, q') (out', xs'). out = out' \<and> invar q' \<and> elems q' = xs')
    (deque_exec push pop clear ops q) (list_exec ops (elems q))"
  using assms
proof (induction ops arbitrary: q)
  case Nil
  then show ?case by (simp add: list_exec_def)
next
  case (Cons op ops)
  show ?case
  proof (cases op)
    case (Push x)
    then obtain q1 where "push x q = Some q1" "invar q1" "elems q1 = elems q @ [x]"
      using push_ok [OF Cons.prems] by blast
    with Push Cons.IH [of q1] show ?thesis by (simp add: list_exec_def)
  next
    case Pop
    show ?thesis
    proof (cases "elems q")
      case Nil
      with Pop pop_empty [OF Cons.prems] show ?thesis by (simp add: list_exec_def)
    next
      case (Cons x xs)
      then obtain q1 where q1: "pop q = Some (x, q1)" "invar q1" "elems q1 = xs"
        using pop_ok [OF Cons.prems] by blast
      from Cons.IH [OF q1(2)] q1(3) have
        "rel_option (\<lambda>(out, q') (out', xs'). out = out' \<and> invar q' \<and> elems q' = xs')
          (deque_exec push pop clear ops q1) (list_exec ops xs)" by simp
      with Pop Cons q1 show ?thesis
        by (auto simp: list_exec_def elim!: option.rel_cases)
    qed
  next
    case Clear
    with clear_ok [OF Cons.prems] Cons.IH [of "clear q"] show ?thesis by (simp add: list_exec_def)
  qed
qed

text \<open>First in, first out: what is pushed on an empty buffer is popped in the same order.\<close>

lemma push_pop_fifo:
  assumes "invar q" "elems q = []"
  obtains q1 q2 q3 where "push x q = Some q1" "push y q1 = Some q2"
    "pop q2 = Some (x, q3)" "elems q3 = [y]" "invar q3"
proof -
  obtain q1 where q1: "push x q = Some q1" "invar q1" "elems q1 = [x]"
    using push_ok [OF assms(1)] assms(2) by auto
  obtain q2 where q2: "push y q1 = Some q2" "invar q2" "elems q2 = [x, y]"
    using push_ok [OF q1(2)] q1(3) by auto
  obtain q3 where "pop q2 = Some (x, q3)" "invar q3" "elems q3 = [y]"
    using pop_ok [OF q2(2,3)] by blast
  with q1 q2 that show ?thesis by blast
qed

end

end
