(* ===== verification/RingBuffer.thy ===== *)
theory RingBuffer
  imports Deque
begin

text \<open>
  The ring buffer of \<open>src/internal/congestion/bbr/ringbuffer.go\<close>: a slice used circularly between
  \<open>headPos\<close> and \<open>tailPos\<close>, doubled when full.  \<open>z\<close> is the zero value of the element type
  (\<open>*new(T)\<close>).  \<open>Offset\<close>, \<open>Front\<close> and \<open>Back\<close> return a pointer into the slice, which is
  the index of the slot here; \<open>rb_load\<close> and \<open>rb_store\<close> read and write through it.
  \<open>rb_list\<close> is the list the buffer stands for; the interpretation \<open>ring_deque\<close> shows
  that the buffer implements the deque interface, and the lemmas on \<open>rb_Offset\<close> give the
  indexed reads and writes.
\<close>

record 'a RingBuffer =
  ring :: "'a list"
  headPos :: nat
  tailPos :: nat
  full :: bool

definition rb_zero :: "'a RingBuffer" where
  "rb_zero = \<lparr>ring = [], headPos = 0, tailPos = 0, full = False\<rparr>"

definition rb_Init :: "'a \<Rightarrow> nat \<Rightarrow> 'a RingBuffer \<Rightarrow> 'a RingBuffer" where
  "rb_Init z sz r = r\<lparr>ring := replicate sz z\<rparr>"

definition rb_Len :: "'a RingBuffer \<Rightarrow> int" where
  "rb_Len r =
     (if full r then int (length (ring r))
      else if headPos r \<le> tailPos r then int (tailPos r) - int (headPos r)
      else int (tailPos r) - int (headPos r) + int (length (ring r)))"

definition rb_Empty :: "'a RingBuffer \<Rightarrow> bool" where
  "rb_Empty r \<longleftrightarrow> \<not> full r \<and> headPos r = tailPos r"

text \<open>\<open>copy(dst, src)\<close> of the standard library: the new contents of \<open>dst\<close>.\<close>

definition go_copy :: "'a list \<Rightarrow> 'a list \<Rightarrow> 'a list" where
  "go_copy dst src = take (length dst) src @ drop (length src) dst"

definition rb_grow :: "'a \<Rightarrow> 'a RingBuffer \<Rightarrow> 'a RingBuffer option" where
  "rb_grow z r =
     (let oldRing = ring r;
          newSize = length oldRing * 2;
          newSize = (if newSize = 0 then 1 else newSize);
          ring1 = replicate newSize z
      in if headPos r \<le> length oldRing then
           let headLen = min newSize (length (drop (headPos r) oldRing));
               ring2 = go_copy ring1 (drop (headPos r) oldRing);
               ring3 = take headLen ring2 @ go_copy (drop headLen ring2) (take (headPos r) oldRing)
           in Some (r\<lparr>ring := ring3, headPos := 0, tailPos := length oldRing, full := False\<rparr>)
         else None)"

definition rb_PushBack :: "'a \<Rightarrow> 'a \<Rightarrow> 'a RingBuffer \<Rightarrow> 'a RingBuffer option" where
  "rb_PushBack z t r = do {
     r \<leftarrow> (if full r \<or> length (ring r) = 0 then rb_grow z r else Some r);
     if tailPos r < length (ring r) then
       let r = r\<lparr>ring := (ring r)[tailPos r := t]\<rparr>;
           r = r\<lparr>tailPos := tailPos r + 1\<rparr>;
           r = (if tailPos r = length (ring r) then r\<lparr>tailPos := 0\<rparr> else r);
           r = (if tailPos r = headPos r then r\<lparr>full := True\<rparr> else r)
       in Some r
     else None
   }"

definition rb_PopFront :: "'a \<Rightarrow> 'a RingBuffer \<Rightarrow> ('a \<times> 'a RingBuffer) option" where
  "rb_PopFront z r =
     (if rb_Empty r then None
      else let r = r\<lparr>full := False\<rparr> in
        if headPos r < length (ring r) then
          let t = ring r ! headPos r;
              r = r\<lparr>ring := (ring r)[headPos r := z]\<rparr>;
              r = r\<lparr>headPos := headPos r + 1\<rparr>;
              r = (if headPos r = length (ring r) then r\<lparr>headPos := 0\<rparr> else r)
          in Some (t, r)
        else None)"

definition rb_Offset :: "int \<Rightarrow> 'a RingBuffer \<Rightarrow> nat option" where
  "rb_Offset index r =
     (if rb_Empty r \<or> rb_Len r \<le> index then None
      else if length (ring r) = 0 then None
      else let offset = (int (headPos r) + index) smod int (length (ring r)) in
        if 0 \<le> offset then Some (nat offset) else None)"

definition rb_Front :: "'a RingBuffer \<Rightarrow> nat option" where
  "rb_Front r =
     (if rb_Empty r then None
      else if headPos r < length (ring r) then Some (headPos r) else None)"

definition rb_Back :: "'a RingBuffer \<Rightarrow> nat option" where
  "rb_Back r = (if rb_Empty r then None else rb_Offset (rb_Len r - 1) r)"

definition rb_Clear :: "'a \<Rightarrow> 'a RingBuffer \<Rightarrow> 'a RingBuffer" where
  "rb_Clear z r = r\<lparr>ring := map (\<lambda>_. z) (ring r), headPos := 0, tailPos := 0, full := False\<rparr>"

definition rb_load :: "nat \<Rightarrow> 'a RingBuffer \<Rightarrow> 'a" where
  "rb_load p r = ring r ! p"

definition rb_store :: "nat \<Rightarrow> 'a \<Rightarrow> 'a RingBuffer \<Rightarrow> 'a RingBuffer" where
  "rb_store p v r = r\<lparr>ring := (ring r)[p := v]\<rparr>"

subsection \<open>Abstraction and invariant\<close>

definition rb_inv :: "'a RingBuffer \<Rightarrow> bool" where
  "rb_inv r \<longleftrightarrow>
     (if ring r = [] then headPos r = 0 \<and> tailPos r = 0 \<and> \<not> full r
      else headPos r < length (ring r) \<and> tailPos r < length (ring r) \<and>
           (full r \<longrightarrow> headPos r = tailPos r))"

definition rb_list :: "'a RingBuffer \<Rightarrow> 'a list" where
  "rb_list r = map (\<lambda>i. ring r ! ((headPos r + i) mod length (ring r))) [0..<nat (rb_Len r)]"

lemmas rb_defs = rb_inv_def rb_list_def rb_Len_def rb_Empty_def

lemma length_rb_list [simp]: "length (rb_list r) = nat (rb_Len r)"
  by (simp add: rb_list_def)

lemma rb_Len_nonneg: "rb_inv r \<Longrightarrow> 0 \<le> rb_Len r"
  by (auto simp: rb_inv_def rb_Len_def split: if_splits)

lemma rb_Len_list: "rb_inv r \<Longrightarrow> rb_Len r = int (length (rb_list r))"
  by (simp add: rb_Len_nonneg)

lemma rb_Len_le: "rb_inv r \<Longrightarrow> rb_Len r \<le> int (length (ring r))"
  by (auto simp: rb_inv_def rb_Len_def split: if_splits)

lemma rb_Empty_list: "rb_inv r \<Longrightarrow> rb_Empty r \<longleftrightarrow> rb_list r = []"
  by (auto simp: rb_defs split: if_splits)

lemma rb_list_nth:
  "i < length (rb_list r) \<Longrightarrow> rb_list r ! i = ring r ! ((headPos r + i) mod length (ring r))"
  by (simp add: rb_list_def)

lemma mod_less_double: "(a :: nat) < 2 * n \<Longrightarrow> a mod n = (if a < n then a else a - n)"
  by (simp add: mod_if)

lemma rb_zero_inv [simp]: "rb_inv rb_zero" "rb_list rb_zero = []"
  by (simp_all add: rb_zero_def rb_defs)

lemma rb_Init_inv [simp]: "rb_inv (rb_Init z n rb_zero)" "rb_list (rb_Init z n rb_zero) = []"
  by (simp_all add: rb_zero_def rb_Init_def rb_defs)

lemma rb_Clear_inv [simp]: "rb_inv (rb_Clear z r)" "rb_list (rb_Clear z r) = []"
  by (simp_all add: rb_Clear_def rb_defs)

subsection \<open>Operations on the abstract list\<close>

lemma go_copy_twice:
  "length xs + length ys \<le> m \<Longrightarrow>
   take (min m (length xs)) (go_copy (replicate m z) xs) @
     go_copy (drop (min m (length xs)) (go_copy (replicate m z) xs)) ys =
   xs @ ys @ replicate (m - length xs - length ys) z"
  by (simp add: go_copy_def min_def)

lemma rb_grow_ok:
  assumes "rb_inv r" "full r \<or> ring r = []"
  obtains r' where "rb_grow z r = Some r'" "rb_inv r'" "rb_list r' = rb_list r"
    "\<not> full r'" "ring r' \<noteq> []"
proof -
  let ?n = "length (ring r)" and ?h = "headPos r"
  let ?m = "if ?n * 2 = 0 then 1 else ?n * 2"
  define r' where "r' = r\<lparr>ring := drop ?h (ring r) @ take ?h (ring r) @ replicate (?m - ?n) z,
    headPos := 0, tailPos := ?n, full := False\<rparr>"
  have h: "?h \<le> ?n" using assms by (auto simp: rb_inv_def split: if_splits)
  have g: "rb_grow z r = Some r'"
  proof (cases "ring r = []")
    case True
    with h show ?thesis by (simp add: rb_grow_def r'_def Let_def go_copy_def)
  next
    case False
    with h go_copy_twice [of "drop ?h (ring r)" "take ?h (ring r)" "?n * 2" z] show ?thesis
      by (simp add: rb_grow_def r'_def Let_def)
  qed
  have "rb_list r' = rb_list r"
  proof (rule nth_equalityI)
    show len: "length (rb_list r') = length (rb_list r)"
      using assms by (auto simp: r'_def rb_Len_def rb_inv_def)
    fix i assume "i < length (rb_list r')"
    then have i: "i < ?n" by (simp add: r'_def rb_Len_def)
    then have "(?h + i) mod ?n = (if ?h + i < ?n then ?h + i else ?h + i - ?n)"
      using h by (intro mod_less_double) simp
    moreover have "i mod (?n - ?h + ?h + (?m - ?n)) = i" using i h by (cases "ring r = []") simp_all
    ultimately show "rb_list r' ! i = rb_list r ! i"
      using i h len \<open>i < length (rb_list r')\<close>
      by (auto simp: rb_list_nth nth_append add.commute) (auto simp: r'_def nth_append add.commute)
  qed
  moreover have "rb_inv r'" using assms by (auto simp: r'_def rb_inv_def)
  moreover have "\<not> full r'" "ring r' \<noteq> []" by (auto simp: r'_def)
  ultimately show ?thesis using that g by blast
qed

lemma rb_push_room:
  assumes "rb_inv r" "\<not> full r" "ring r \<noteq> []"
  obtains r' where "rb_PushBack z t r = Some r'" "rb_inv r'" "rb_list r' = rb_list r @ [t]"
proof -
  let ?n = "length (ring r)" and ?h = "headPos r" and ?t = "tailPos r"
  define t' where "t' = (if ?t + 1 = ?n then 0 else ?t + 1)"
  define r' where "r' = r\<lparr>ring := (ring r)[?t := t], tailPos := t', full := (t' = ?h)\<rparr>"
  have b: "?h < ?n" "?t < ?n" "0 < ?n" using assms by (auto simp: rb_inv_def)
  have p: "rb_PushBack z t r = Some r'"
    using assms b by (auto simp: rb_PushBack_def r'_def t'_def Let_def)
  have len: "rb_Len r' = rb_Len r + 1"
    using b assms(2) by (auto simp: rb_Len_def r'_def t'_def)
  have L0: "0 \<le> rb_Len r" by (rule rb_Len_nonneg [OF assms(1)])
  have tail: "?t = (?h + nat (rb_Len r)) mod ?n"
    using b assms(2) by (auto simp: rb_Len_def mod_less_double nat_diff_distrib)
  have "rb_list r' = rb_list r @ [t]"
  proof (rule nth_equalityI)
    show "length (rb_list r') = length (rb_list r @ [t])" using len L0 by simp
    fix i assume "i < length (rb_list r')"
    then have i: "i \<le> nat (rb_Len r)" using len L0 by simp
    have lt: "nat (rb_Len r) < ?n" using b assms(2) by (auto simp: rb_Len_def)
    have inj: "(?h + i) mod ?n \<noteq> ?t" if "i < nat (rb_Len r)"
      using that b lt assms(2) by (auto simp: mod_less_double rb_Len_def split: if_splits)
    show "rb_list r' ! i = (rb_list r @ [t]) ! i"
    proof (cases "i < nat (rb_Len r)")
      case True
      with inj b \<open>i < length (rb_list r')\<close> show ?thesis
        by (simp add: rb_list_nth nth_append) (simp add: r'_def)
    next
      case False
      with i have "i = nat (rb_Len r)" by simp
      with b tail \<open>i < length (rb_list r')\<close> show ?thesis
        by (simp add: rb_list_nth nth_append) (simp add: r'_def b flip: tail)
    qed
  qed
  moreover have "rb_inv r'" using b assms by (auto simp: rb_inv_def r'_def t'_def)
  ultimately show ?thesis using that p by blast
qed

lemma rb_PushBack_ok:
  assumes "rb_inv r"
  shows "\<exists>r'. rb_PushBack z t r = Some r' \<and> rb_inv r' \<and> rb_list r' = rb_list r @ [t]"
proof (cases "full r \<or> ring r = []")
  case True
  obtain r1 where r1: "rb_grow z r = Some r1" "rb_inv r1" "rb_list r1 = rb_list r"
    "\<not> full r1" "ring r1 \<noteq> []"
    using rb_grow_ok [OF assms True] .
  then have "rb_PushBack z t r = rb_PushBack z t r1"
    using True by (simp add: rb_PushBack_def)
  with rb_push_room [OF r1(2,4,5)] r1(3) show ?thesis by metis
next
  case False
  with rb_push_room [OF assms] show ?thesis by metis
qed

lemma rb_PopFront_ok:
  assumes "rb_inv r" "rb_list r = x # xs"
  shows "\<exists>r'. rb_PopFront z r = Some (x, r') \<and> rb_inv r' \<and> rb_list r' = xs"
proof -
  let ?n = "length (ring r)" and ?h = "headPos r" and ?t = "tailPos r"
  define h' where "h' = (if ?h + 1 = ?n then 0 else ?h + 1)"
  define r' where "r' = r\<lparr>ring := (ring r)[?h := z], headPos := h', full := False\<rparr>"
  have ne: "\<not> rb_Empty r" using assms by (simp add: rb_Empty_list)
  then have b: "?h < ?n" "?t < ?n" "full r \<longrightarrow> ?h = ?t"
    using assms(1) by (auto simp: rb_inv_def rb_Empty_def split: if_splits)
  have L: "rb_Len r = 1 + int (length xs)" using rb_Len_list [OF assms(1)] assms(2) by simp
  have "x = rb_list r ! 0" using assms(2) by simp
  also have "\<dots> = ring r ! ?h" using L b by (subst rb_list_nth) auto
  finally have p: "rb_PopFront z r = Some (x, r')"
    using ne b by (auto simp: rb_PopFront_def r'_def h'_def Let_def)
  have len: "rb_Len r' = int (length xs)"
    using b ne L by (auto simp: rb_Len_def r'_def h'_def rb_Empty_def split: if_splits)
  have "rb_list r' = xs"
  proof (rule nth_equalityI)
    show "length (rb_list r') = length xs" using len by simp
    fix i assume "i < length (rb_list r')"
    then have i: "i < length xs" using len by simp
    then have si: "Suc i < ?n" using L rb_Len_le [OF assms(1)] by simp
    have "xs ! i = rb_list r ! Suc i" using assms(2) by simp
    also have "\<dots> = ring r ! ((?h + Suc i) mod ?n)" using i L by (subst rb_list_nth) auto
    also have "(?h + Suc i) mod ?n = (h' + i) mod ?n"
    proof (cases "?h + 1 = ?n")
      case True
      then have "?h + Suc i = i + ?n" by simp
      moreover have "h' = 0" using True by (simp add: h'_def)
      ultimately show ?thesis by (simp only: mod_add_self2 add_0)
    qed (simp add: h'_def)
    also have "(h' + i) mod ?n \<noteq> ?h"
      using b si by (auto simp: h'_def mod_less_double split: if_splits)
    then have "ring r ! ((h' + i) mod ?n) = ring r' ! ((h' + i) mod ?n)"
      by (simp add: r'_def)
    finally show "rb_list r' ! i = xs ! i"
      using \<open>i < length (rb_list r')\<close> by (simp add: rb_list_nth) (simp add: r'_def)
  qed
  moreover have "rb_inv r'" using b by (auto simp: rb_inv_def r'_def h'_def)
  ultimately show ?thesis using p by blast
qed

lemma rb_Len_store [simp]: "rb_Len (rb_store p v r) = rb_Len r"
  by (simp add: rb_store_def rb_Len_def)

lemma rb_Offset_ok:
  assumes "rb_inv r" "i < length (rb_list r)"
  obtains p where "rb_Offset (int i) r = Some p" "p < length (ring r)"
    "rb_load p r = rb_list r ! i" "\<And>v. rb_list (rb_store p v r) = (rb_list r)[i := v]"
    "\<And>v. rb_inv (rb_store p v r)"
proof -
  let ?n = "length (ring r)" and ?h = "headPos r"
  have ne: "\<not> rb_Empty r"
    using assms by (auto simp: rb_Empty_list simp del: length_rb_list)
  have n: "0 < ?n" and h: "?h < ?n"
    using ne assms(1) by (auto simp: rb_inv_def rb_Empty_def split: if_splits)
  have L: "int i < rb_Len r" "nat (rb_Len r) \<le> ?n"
    using assms rb_Len_le [OF assms(1)] by simp_all
  define p where "p = (?h + i) mod ?n"
  have off: "rb_Offset (int i) r = Some p"
    using ne L n by (simp add: rb_Offset_def p_def smod_int_alt_def sgn_if Let_def
        flip: of_nat_add of_nat_mod)
  have "rb_list (rb_store p v r) = (rb_list r)[i := v]" for v
  proof (rule nth_equalityI)
    show "length (rb_list (rb_store p v r)) = length ((rb_list r)[i := v])"
      by simp
    fix j assume "j < length (rb_list (rb_store p v r))"
    then have j: "j < length (rb_list r)" by simp
    then have jn: "j < ?n" "i < ?n" using L by auto
    have "(?h + j) mod ?n = p \<longleftrightarrow> j = i"
      using h jn by (auto simp: p_def mod_less_double split: if_splits)
    with j n assms(2) \<open>j < length (rb_list (rb_store p v r))\<close>
    show "rb_list (rb_store p v r) ! j = (rb_list r)[i := v] ! j"
      by (simp add: rb_list_nth nth_list_update) (auto simp: rb_store_def p_def)
  qed
  moreover have "rb_inv (rb_store p v r)" for v
    using assms(1) by (auto simp: rb_inv_def rb_store_def split: if_splits)
  moreover have "p < ?n" "rb_load p r = rb_list r ! i"
    using n assms(2) by (simp_all add: p_def rb_load_def rb_list_nth)
  ultimately show ?thesis using that off by blast
qed

lemma rb_Front_ok:
  assumes "rb_inv r" "rb_list r = x # xs"
  shows "map_option (\<lambda>p. rb_load p r) (rb_Front r) = Some x"
proof -
  have ne: "\<not> rb_Empty r" using assms by (simp add: rb_Empty_list)
  then have h: "headPos r < length (ring r)"
    using assms(1) by (auto simp: rb_inv_def rb_Empty_def split: if_splits)
  have "x = rb_list r ! 0" using assms(2) by simp
  also have "\<dots> = ring r ! headPos r" using assms(2) h by (subst rb_list_nth) auto
  finally show ?thesis using ne h by (simp add: rb_Front_def rb_load_def)
qed

lemma rb_Back_ok:
  assumes "rb_inv r" "rb_list r \<noteq> []"
  shows "map_option (\<lambda>p. rb_load p r) (rb_Back r) = Some (last (rb_list r))"
proof -
  have "length (rb_list r) - 1 < length (rb_list r)"
    using assms(2) by (simp del: length_rb_list)
  from rb_Offset_ok [OF assms(1) this] obtain p
    where "rb_Offset (int (length (rb_list r) - 1)) r = Some p"
      "rb_load p r = rb_list r ! (length (rb_list r) - 1)" by blast
  moreover have "rb_Len r - 1 = int (length (rb_list r) - 1)"
    using rb_Len_list [OF assms(1)] assms(2) by (cases "rb_list r") auto
  ultimately show ?thesis
    using assms by (simp add: rb_Back_def rb_Empty_list last_conv_nth del: length_rb_list)
qed

lemma rb_PopFront_empty: "rb_inv r \<Longrightarrow> rb_list r = [] \<Longrightarrow> rb_PopFront z r = None"
  by (simp add: rb_PopFront_def rb_Empty_list)

interpretation ring_deque: deque rb_inv rb_list "rb_PushBack z" "rb_PopFront z"
  "\<lambda>r. map_option (\<lambda>p. rb_load p r) (rb_Front r)" rb_Len rb_Empty "rb_Clear z" for z
  by unfold_locales (rule rb_PushBack_ok rb_PopFront_ok rb_PopFront_empty rb_Front_ok rb_Len_list
      rb_Empty_list conjI rb_Clear_inv | assumption)+

declare length_rb_list [simp del]

subsection \<open>Properties\<close>

text \<open>
  C12: every sequence of \<open>PushBack\<close>, \<open>PopFront\<close> and \<open>Clear\<close> calls on a buffer initialised with any
  size behaves as on a list: the same elements are popped, a call panics exactly when the list would
  be popped empty, and afterwards \<open>Len\<close> and \<open>Empty\<close> describe the list.
\<close>

theorem rb_refines_list:
  "rel_option (\<lambda>(out, r) (out', xs). out = out' \<and> rb_list r = xs \<and> rb_Len r = int (length xs) \<and>
       rb_Empty r = (xs = []))
     (deque_exec (rb_PushBack z) (rb_PopFront z) (rb_Clear z) ops (rb_Init z n rb_zero))
     (list_exec ops [])"
proof -
  have "rel_option (\<lambda>(out, r) (out', xs). out = out' \<and> rb_inv r \<and> rb_list r = xs)
     (deque_exec (rb_PushBack z) (rb_PopFront z) (rb_Clear z) ops (rb_Init z n rb_zero))
     (list_exec ops (rb_list (rb_Init z n rb_zero)))"
    by (rule ring_deque.exec_simulates) simp
  then show ?thesis
    by (simp, elim option.rel_mono_strong) (auto simp: rb_Len_list rb_Empty_list)
qed

text \<open>
  \<open>Offset\<close> is indexing: for an index that is not negative it returns a pointer to the element
  with that index of the list, and panics past the end; a write through the pointer updates that
  element of the list and no other.
\<close>

lemma rb_Offset_indexes:
  assumes "rb_inv r"
  shows "case rb_Offset (int i) r of
      None \<Rightarrow> length (rb_list r) \<le> i
    | Some p \<Rightarrow> i < length (rb_list r) \<and> rb_load p r = rb_list r ! i \<and>
        rb_list (rb_store p v r) = (rb_list r)[i := v] \<and> rb_inv (rb_store p v r)"
proof (cases "i < length (rb_list r)")
  case True
  from rb_Offset_ok [OF assms this] obtain p where "rb_Offset (int i) r = Some p"
    "rb_load p r = rb_list r ! i" "rb_list (rb_store p v r) = (rb_list r)[i := v]" "rb_inv (rb_store p v r)" by blast
  with True show ?thesis by simp
next
  case False
  then have "rb_Offset (int i) r = None" using rb_Len_list [OF assms] by (simp add: rb_Offset_def)
  with False show ?thesis by simp
qed

end
