(* ===== verification/PacketNumberIndexedQueue.thy ===== *)
theory PacketNumberIndexedQueue
  imports RingBuffer
begin

text \<open>
  The packet-number indexed queue of
  \<open>src/internal/congestion/bbr/packet_number_indexed_queue.go\<close>: a ring buffer of slots, each
  present or not, that starts at \<open>firstPacket\<close>.  \<open>pnq_map\<close> is the finite map it stands for.
  The locale \<open>packet_map\<close> is what a client relies on; \<open>pnq_packet_map\<close> shows that the queue
  provides it.  \<open>clearup\<close> and the loop of \<open>RemoveUpTo\<close> are \<open>partial_function\<close>s: \<open>None\<close> is
  a panic or a loop that does not stop, and the lemmas show that neither happens.
\<close>

record 'a entryWrapper =
  present :: bool
  entry :: 'a

record 'a pnq =
  entries :: "'a entryWrapper RingBuffer"
  numberOfPresentEntries :: int
  firstPacket :: packetNumber

definition invalidPacketNumber :: packetNumber where
  "invalidPacketNumber = - 1"

definition ew_zero :: "'a \<Rightarrow> 'a entryWrapper" where
  "ew_zero z = \<lparr>present = False, entry = z\<rparr>"

definition newPacketNumberIndexedQueue :: "'a \<Rightarrow> nat \<Rightarrow> 'a pnq" where
  "newPacketNumberIndexedQueue z sz =
     \<lparr>entries = rb_Init (ew_zero z) sz rb_zero, numberOfPresentEntries = 0,
      firstPacket = invalidPacketNumber\<rparr>"

definition pnq_IsEmpty :: "'a pnq \<Rightarrow> bool" where
  "pnq_IsEmpty q \<longleftrightarrow> numberOfPresentEntries q = 0"

definition pnq_NumberOfPresentEntries :: "'a pnq \<Rightarrow> int" where
  "pnq_NumberOfPresentEntries q = numberOfPresentEntries q"

definition pnq_EntrySlotsUsed :: "'a pnq \<Rightarrow> int" where
  "pnq_EntrySlotsUsed q = rb_Len (entries q)"

definition pnq_FirstPacket :: "'a pnq \<Rightarrow> packetNumber" where
  "pnq_FirstPacket q = firstPacket q"

definition pnq_LastPacket :: "'a pnq \<Rightarrow> packetNumber" where
  "pnq_LastPacket q =
     (if pnq_IsEmpty q then invalidPacketNumber
      else i64 (firstPacket q + (rb_Len (entries q) - 1)))"

partial_function (option) pnq_clearup_loop :: "'a \<Rightarrow> 'a pnq \<Rightarrow> 'a pnq option" where
  "pnq_clearup_loop z q =
     (if rb_Empty (entries q) then Some q
      else do {
        p \<leftarrow> rb_Front (entries q);
        if present (rb_load p (entries q)) then Some q
        else do {
          es \<leftarrow> map_option snd (rb_PopFront (ew_zero z) (entries q));
          pnq_clearup_loop z (q\<lparr>entries := es, firstPacket := i64 (firstPacket q + 1)\<rparr>)
        }
      })"

definition pnq_clearup :: "'a \<Rightarrow> 'a pnq \<Rightarrow> 'a pnq option" where
  "pnq_clearup z q = do {
     q \<leftarrow> pnq_clearup_loop z q;
     Some (if rb_Empty (entries q) then q\<lparr>firstPacket := invalidPacketNumber\<rparr> else q)
   }"

definition pnq_getEntryWraper :: "packetNumber \<Rightarrow> 'a pnq \<Rightarrow> nat option option" where
  "pnq_getEntryWraper packetNumber q =
     (if packetNumber = invalidPacketNumber \<or> pnq_IsEmpty q \<or> packetNumber < firstPacket q
      then Some None
      else let offset = i64 (packetNumber - firstPacket q) in
        if rb_Len (entries q) \<le> offset then Some None
        else do {
          ew \<leftarrow> rb_Offset offset (entries q);
          Some (if present (rb_load ew (entries q)) then Some ew else None)
        })"

definition pnq_Emplace :: "'a \<Rightarrow> packetNumber \<Rightarrow> 'a option \<Rightarrow> 'a pnq \<Rightarrow> (bool \<times> 'a pnq) option" where
  "pnq_Emplace z packetNumber e q =
     (case e of
        None \<Rightarrow> Some (False, q)
      | Some e \<Rightarrow>
          if packetNumber = invalidPacketNumber then Some (False, q)
          else if pnq_IsEmpty q then do {
            es \<leftarrow> rb_PushBack (ew_zero z) \<lparr>present = True, entry = e\<rparr> (entries q);
            Some (True, q\<lparr>entries := es, numberOfPresentEntries := 1, firstPacket := packetNumber\<rparr>)
          }
          else if packetNumber \<le> pnq_LastPacket q then Some (False, q)
          else
            let offset = i64 (packetNumber - pnq_FirstPacket q);
                gap = i64 (offset - rb_Len (entries q))
            in do {
              es \<leftarrow> iter_opt (nat gap) (rb_PushBack (ew_zero z) (ew_zero z)) (entries q);
              es \<leftarrow> rb_PushBack (ew_zero z) \<lparr>present = True, entry = e\<rparr> es;
              Some (True, q\<lparr>entries := es,
                numberOfPresentEntries := i64 (numberOfPresentEntries q + 1)\<rparr>)
            })"

definition pnq_GetEntry :: "packetNumber \<Rightarrow> 'a pnq \<Rightarrow> 'a option option" where
  "pnq_GetEntry packetNumber q = do {
     ew \<leftarrow> pnq_getEntryWraper packetNumber q;
     Some (map_option (\<lambda>p. entry (rb_load p (entries q))) ew)
   }"

text \<open>The callback of \<open>Remove\<close> acts on a state \<open>s\<close> outside the queue; \<open>None\<close> is the nil callback.\<close>

definition pnq_Remove ::
    "'a \<Rightarrow> packetNumber \<Rightarrow> ('a \<Rightarrow> 's \<Rightarrow> 's) option \<Rightarrow> 'a pnq \<Rightarrow> 's \<Rightarrow> (bool \<times> 'a pnq \<times> 's) option" where
  "pnq_Remove z packetNumber f q s = do {
     ew \<leftarrow> pnq_getEntryWraper packetNumber q;
     case ew of
       None \<Rightarrow> Some (False, q, s)
     | Some p \<Rightarrow>
         let w = rb_load p (entries q);
             s = (case f of None \<Rightarrow> s | Some f \<Rightarrow> f (entry w) s);
             q = q\<lparr>entries := rb_store p (w\<lparr>present := False\<rparr>) (entries q),
                   numberOfPresentEntries := i64 (numberOfPresentEntries q - 1)\<rparr>
         in if packetNumber = pnq_FirstPacket q
            then do { q \<leftarrow> pnq_clearup z q; Some (True, q, s) }
            else Some (True, q, s)
   }"

partial_function (option) pnq_RemoveUpTo_loop ::
    "'a \<Rightarrow> packetNumber \<Rightarrow> 'a pnq \<Rightarrow> 'a pnq option" where
  "pnq_RemoveUpTo_loop z packetNumber q =
     (if rb_Empty (entries q) \<or> firstPacket q = invalidPacketNumber \<or> packetNumber \<le> firstPacket q
      then Some q
      else do {
        p \<leftarrow> rb_Front (entries q);
        let n = (if present (rb_load p (entries q)) then i64 (numberOfPresentEntries q - 1)
                 else numberOfPresentEntries q)
        in do {
          es \<leftarrow> map_option snd (rb_PopFront (ew_zero z) (entries q));
          pnq_RemoveUpTo_loop z packetNumber
            (q\<lparr>entries := es, numberOfPresentEntries := n, firstPacket := i64 (firstPacket q + 1)\<rparr>)
        }
      })"

definition pnq_RemoveUpTo :: "'a \<Rightarrow> packetNumber \<Rightarrow> 'a pnq \<Rightarrow> 'a pnq option" where
  "pnq_RemoveUpTo z packetNumber q = do {
     q \<leftarrow> pnq_RemoveUpTo_loop z packetNumber q;
     pnq_clearup z q
   }"

subsection \<open>The map a run of slots stands for\<close>

primrec slot_map :: "'a entryWrapper list \<Rightarrow> packetNumber \<Rightarrow> packetNumber \<Rightarrow> 'a option" where
  "slot_map [] f n = None"
| "slot_map (x # xs) f n =
     (if n = f then (if present x then Some (entry x) else None) else slot_map xs (f + 1) n)"

lemma slot_map_below: "n < f \<Longrightarrow> slot_map xs f n = None"
  by (induction xs arbitrary: f) auto

lemma slot_map_above: "f + int (length xs) \<le> n \<Longrightarrow> slot_map xs f n = None"
  by (induction xs arbitrary: f) auto

lemma slot_map_nth:
  "i < length xs \<Longrightarrow>
   slot_map xs f (f + int i) = (if present (xs ! i) then Some (entry (xs ! i)) else None)"
proof (induction xs arbitrary: f i)
  case (Cons x xs)
  show ?case
  proof (cases i)
    case (Suc j)
    with Cons.IH [of j "f + 1"] Cons.prems show ?thesis by (simp add: algebra_simps)
  qed simp
qed simp

lemma slot_map_append:
  "slot_map (xs @ ys) f n =
     (if n < f + int (length xs) then slot_map xs f n else slot_map ys (f + int (length xs)) n)"
proof (induction xs arbitrary: f)
  case Nil
  then show ?case by (simp add: slot_map_below)
next
  case (Cons x xs)
  then show ?case by (auto simp: algebra_simps)
qed

lemma slot_map_update:
  "i < length xs \<Longrightarrow>
   slot_map (xs[i := v]) f = (slot_map xs f)(f + int i := if present v then Some (entry v) else None)"
proof (induction xs arbitrary: f i)
  case (Cons x xs)
  show ?case
  proof (cases i)
    case 0
    then show ?thesis by (auto simp: fun_eq_iff)
  next
    case (Suc j)
    with Cons.prems have "slot_map (xs[j := v]) (f + 1) =
        (slot_map xs (f + 1))(f + 1 + int j := if present v then Some (entry v) else None)"
      by (intro Cons.IH) simp
    with Suc show ?thesis by (auto simp: fun_eq_iff)
  qed
qed simp

lemma slot_map_absent: "\<forall>x\<in>set xs. \<not> present x \<Longrightarrow> slot_map xs f n = None"
  by (induction xs arbitrary: f) auto

lemma slot_map_dropWhile:
  "slot_map (dropWhile (\<lambda>w. \<not> present w) xs)
     (f + int (length (takeWhile (\<lambda>w. \<not> present w) xs))) = slot_map xs f"
proof (induction xs arbitrary: f)
  case (Cons x xs)
  from Cons.IH [of "f + 1"] show ?case
    by (auto simp: fun_eq_iff slot_map_below algebra_simps)
qed simp

lemma slot_map_drop:
  "k \<le> length xs \<Longrightarrow>
   slot_map (drop k xs) (f + int k) n = (if n < f + int k then None else slot_map xs f n)"
  using slot_map_append [of "take k xs" "drop k xs" f n]
  by (auto simp: slot_map_below min_absorb2)

subsection \<open>Invariant and abstraction\<close>

abbreviation slots :: "'a pnq \<Rightarrow> 'a entryWrapper list" where
  "slots q \<equiv> rb_list (entries q)"

definition pnq_map :: "'a pnq \<Rightarrow> packetNumber \<Rightarrow> 'a option" where
  "pnq_map q = slot_map (slots q) (firstPacket q)"

text \<open>Packet numbers of QUIC are below \<open>2 ^ 62\<close>.\<close>

definition valid_pn :: "packetNumber \<Rightarrow> bool" where
  "valid_pn n \<longleftrightarrow> 0 \<le> n \<and> n < 2 ^ 62"

definition pnq_pos :: "'a pnq \<Rightarrow> bool" where
  "pnq_pos q \<longleftrightarrow> slots q \<noteq> [] \<longrightarrow> 0 \<le> firstPacket q \<and> firstPacket q + int (length (slots q)) \<le> 2 ^ 62"

definition pnq_inv :: "'a pnq \<Rightarrow> bool" where
  "pnq_inv q \<longleftrightarrow>
     rb_inv (entries q) \<and> pnq_pos q \<and>
     numberOfPresentEntries q = int (length (filter present (slots q))) \<and>
     (case slots q of [] \<Rightarrow> firstPacket q = invalidPacketNumber | x # _ \<Rightarrow> present x)"

lemmas pnq_defs = pnq_inv_def pnq_pos_def pnq_IsEmpty_def pnq_LastPacket_def invalidPacketNumber_def

lemma pnq_inv_IsEmpty: "pnq_inv q \<Longrightarrow> pnq_IsEmpty q \<longleftrightarrow> slots q = []"
  by (auto simp: pnq_inv_def pnq_IsEmpty_def split: list.splits)

lemma pnq_inv_Last:
  "pnq_inv q \<Longrightarrow> pnq_LastPacket q =
     (if slots q = [] then - 1 else firstPacket q + int (length (slots q)) - 1)"
  using rb_Len_list [of "entries q"]
  by (auto simp: pnq_inv_IsEmpty pnq_LastPacket_def invalidPacketNumber_def pnq_inv_def pnq_pos_def)

lemma newPacketNumberIndexedQueue_inv [simp]:
  "pnq_inv (newPacketNumberIndexedQueue z n)" "pnq_map (newPacketNumberIndexedQueue z n) k = None"
  by (simp_all add: newPacketNumberIndexedQueue_def pnq_defs pnq_map_def)

lemma pnq_map_Some_range:
  assumes "pnq_inv q" "pnq_map q n = Some v"
  shows "firstPacket q \<le> n" "n \<le> pnq_LastPacket q" "0 \<le> n"
proof -
  have "slots q \<noteq> []" using assms(2) by (auto simp: pnq_map_def)
  moreover have "firstPacket q \<le> n" "n < firstPacket q + int (length (slots q))"
    using assms(2) slot_map_below [of n "firstPacket q" "slots q"]
      slot_map_above [of "firstPacket q" "slots q" n]
    by (fastforce simp: pnq_map_def not_less)+
  ultimately show "firstPacket q \<le> n" "n \<le> pnq_LastPacket q" "0 \<le> n"
    using assms(1) pnq_inv_Last [OF assms(1)] by (auto simp: pnq_inv_def pnq_pos_def)
qed

subsection \<open>Reading an entry\<close>

lemma pnq_getEntryWraper_None:
  assumes "pnq_inv q" "in_i64 n" "pnq_map q n = None"
  shows "pnq_getEntryWraper n q = Some None"
proof (cases "slots q = [] \<or> n < firstPacket q \<or> firstPacket q + int (length (slots q)) \<le> n")
  case True
  then show ?thesis
    using assms rb_Len_list [of "entries q"]
    by (auto simp: pnq_getEntryWraper_def pnq_inv_IsEmpty Let_def pnq_inv_def pnq_pos_def)
next
  case False
  define i where "i = nat (n - firstPacket q)"
  with False have n: "n = firstPacket q + int i" and i: "i < length (slots q)" by auto
  have inv: "rb_inv (entries q)" using assms(1) by (simp add: pnq_inv_def)
  from rb_Offset_ok [OF inv i] obtain p where p: "rb_Offset (int i) (entries q) = Some p"
    "rb_load p (entries q) = slots q ! i" by blast
  have "\<not> present (slots q ! i)"
    using assms(3) slot_map_nth [OF i, of "firstPacket q"] by (auto simp: pnq_map_def n split: if_splits)
  with p i False assms(1,2) rb_Len_list [OF inv] show ?thesis
    by (auto simp: pnq_getEntryWraper_def pnq_inv_IsEmpty Let_def n pnq_inv_def pnq_pos_def)
qed

lemma pnq_getEntryWraper_Some:
  assumes "pnq_inv q" "pnq_map q n = Some v"
  obtains p i where "pnq_getEntryWraper n q = Some (Some p)" "rb_Offset (int i) (entries q) = Some p"
    "rb_load p (entries q) = slots q ! i" "n = firstPacket q + int i" "i < length (slots q)"
    "present (slots q ! i)" "entry (slots q ! i) = v"
proof -
  have ne: "slots q \<noteq> []" using assms(2) by (auto simp: pnq_map_def)
  define i where "i = nat (n - firstPacket q)"
  with pnq_map_Some_range [OF assms] pnq_inv_Last [OF assms(1)] ne
  have n: "n = firstPacket q + int i" and i: "i < length (slots q)" and "0 \<le> n" by auto
  have inv: "rb_inv (entries q)" using assms(1) by (simp add: pnq_inv_def)
  from rb_Offset_ok [OF inv i] obtain p where p: "rb_Offset (int i) (entries q) = Some p"
    "rb_load p (entries q) = slots q ! i" by blast
  have pr: "present (slots q ! i)" "entry (slots q ! i) = v"
    using assms(2) slot_map_nth [OF i, of "firstPacket q"] by (auto simp: pnq_map_def n split: if_splits)
  moreover have "pnq_getEntryWraper n q = Some (Some p)"
    using p i pr ne \<open>0 \<le> n\<close> assms(1) rb_Len_list [OF inv]
    by (auto simp: pnq_getEntryWraper_def pnq_inv_IsEmpty Let_def n pnq_inv_def pnq_pos_def
        invalidPacketNumber_def)
  ultimately show ?thesis using that p n i by blast
qed

lemma pnq_GetEntry_ok:
  assumes "pnq_inv q" "in_i64 n"
  shows "pnq_GetEntry n q = Some (pnq_map q n)"
proof (cases "pnq_map q n")
  case None
  with assms show ?thesis by (simp add: pnq_GetEntry_def pnq_getEntryWraper_None)
next
  case (Some v)
  with assms(1) show ?thesis
    by (auto simp: pnq_GetEntry_def elim!: pnq_getEntryWraper_Some)
qed

subsection \<open>The loops\<close>

lemma pnq_clearup_loop_ok:
  assumes "rb_inv (entries q)" "pnq_pos q"
  shows "\<exists>q'. pnq_clearup_loop z q = Some q' \<and> rb_inv (entries q') \<and>
    slots q' = dropWhile (\<lambda>w. \<not> present w) (slots q) \<and>
    firstPacket q' = firstPacket q + int (length (takeWhile (\<lambda>w. \<not> present w) (slots q))) \<and>
    numberOfPresentEntries q' = numberOfPresentEntries q"
  using assms
proof (induction "slots q" arbitrary: q)
  case Nil
  then show ?case by (simp add: pnq_clearup_loop.simps [of z q] rb_Empty_list)
next
  case (Cons x xs)
  have ne: "\<not> rb_Empty (entries q)" using Cons by (simp add: rb_Empty_list flip: Cons.hyps(2))
  obtain p where p: "rb_Front (entries q) = Some p" "rb_load p (entries q) = x"
    using rb_Front_ok [OF Cons.prems(1) Cons.hyps(2) [symmetric]] by auto
  obtain es where es: "rb_PopFront (ew_zero z) (entries q) = Some (x, es)" "rb_inv es"
    "rb_list es = xs"
    using rb_PopFront_ok [OF Cons.prems(1) Cons.hyps(2) [symmetric]] by blast
  show ?case
  proof (cases "present x")
    case True
    with ne p Cons.prems Cons.hyps(2) [symmetric] show ?thesis
      by (simp add: pnq_clearup_loop.simps [of z q])
  next
    case False
    let ?q = "q\<lparr>entries := es, firstPacket := i64 (firstPacket q + 1)\<rparr>"
    have f: "firstPacket ?q = firstPacket q + 1" "pnq_pos ?q"
      using Cons.prems(2) Cons.hyps(2) [symmetric] es by (auto simp: pnq_pos_def)
    have "xs = slots ?q" "rb_inv (entries ?q)" using es by simp_all
    from Cons.hyps(1) [OF this f(2)] ne p es False f(1) Cons.hyps(2) [symmetric] show ?thesis
      by (auto simp: pnq_clearup_loop.simps [of z q])
  qed
qed

lemma pnq_clearup_ok:
  assumes "rb_inv (entries q)" "pnq_pos q"
    "numberOfPresentEntries q = int (length (filter present (slots q)))"
  shows "\<exists>q'. pnq_clearup z q = Some q' \<and> pnq_inv q' \<and> pnq_map q' = pnq_map q"
proof -
  let ?P = "\<lambda>w. \<not> present w"
  obtain q1 where q1: "pnq_clearup_loop z q = Some q1" "rb_inv (entries q1)"
    "slots q1 = dropWhile ?P (slots q)"
    "firstPacket q1 = firstPacket q + int (length (takeWhile ?P (slots q)))"
    "numberOfPresentEntries q1 = numberOfPresentEntries q"
    using pnq_clearup_loop_ok [OF assms(1,2), of z] by blast
  have len: "length (takeWhile ?P (slots q)) + length (dropWhile ?P (slots q)) = length (slots q)"
    by (metis length_append takeWhile_dropWhile_id)
  have flt: "filter present (dropWhile ?P (slots q)) = filter present (slots q)"
    by (induction "slots q" rule: list.induct) (metis (no_types, lifting) append_Nil filter_append
        filter_False set_takeWhileD takeWhile_dropWhile_id)+
  define q' where "q' = (if rb_Empty (entries q1) then q1\<lparr>firstPacket := invalidPacketNumber\<rparr> else q1)"
  have "pnq_clearup z q = Some q'" using q1(1) by (simp add: pnq_clearup_def q'_def)
  moreover have "pnq_inv q'"
  proof (cases "dropWhile ?P (slots q)")
    case Nil
    with q1 assms(3) flt show ?thesis by (simp add: q'_def rb_Empty_list pnq_inv_def pnq_pos_def)
  next
    case (Cons x xs)
    then have "present x" by (metis dropWhile_eq_Cons_conv)
    with Cons q1 assms(2,3) flt len show ?thesis
      by (auto simp: q'_def rb_Empty_list pnq_inv_def pnq_pos_def)
  qed
  moreover have "pnq_map q' = pnq_map q"
  proof (cases "rb_Empty (entries q1)")
    case True
    then have "\<forall>w\<in>set (slots q). \<not> present w" using q1(2,3) by (simp add: rb_Empty_list)
    moreover have "slots q1 = []" using True q1(2) by (simp add: rb_Empty_list)
    ultimately show ?thesis
      using True by (simp add: pnq_map_def q'_def slot_map_absent fun_eq_iff)
  next
    case False
    then show ?thesis
      using q1 slot_map_dropWhile [of "slots q" "firstPacket q"] by (simp add: pnq_map_def q'_def)
  qed
  ultimately show ?thesis by blast
qed

lemma pnq_RemoveUpTo_loop_ok:
  assumes "rb_inv (entries q)" "pnq_pos q"
    "numberOfPresentEntries q = int (length (filter present (slots q)))"
  shows "\<exists>q' k. pnq_RemoveUpTo_loop z n q = Some q' \<and> rb_inv (entries q') \<and> pnq_pos q' \<and>
    k \<le> length (slots q) \<and> slots q' = drop k (slots q) \<and> firstPacket q' = firstPacket q + int k \<and>
    (slots q' \<noteq> [] \<longrightarrow> n \<le> firstPacket q') \<and> (k \<noteq> 0 \<longrightarrow> firstPacket q + int k \<le> n) \<and>
    numberOfPresentEntries q' = int (length (filter present (slots q')))"
  using assms
proof (induction "slots q" arbitrary: q)
  case Nil
  then show ?case by (intro exI [of _ q] exI [of _ 0])
      (simp add: pnq_RemoveUpTo_loop.simps [of z n q] rb_Empty_list)
next
  case (Cons x xs)
  note sl = Cons.hyps(2) [symmetric]
  have ne: "\<not> rb_Empty (entries q)" using Cons.prems(1) by (simp add: rb_Empty_list sl)
  have f0: "firstPacket q \<noteq> invalidPacketNumber"
    using Cons.prems(2) by (simp add: pnq_pos_def sl invalidPacketNumber_def)
  obtain p where p: "rb_Front (entries q) = Some p" "rb_load p (entries q) = x"
    using rb_Front_ok [OF Cons.prems(1) sl] by auto
  obtain es where es: "rb_PopFront (ew_zero z) (entries q) = Some (x, es)" "rb_inv es"
    "rb_list es = xs"
    using rb_PopFront_ok [OF Cons.prems(1) sl] by blast
  show ?case
  proof (cases "n \<le> firstPacket q")
    case True
    with Cons.prems show ?thesis by (intro exI [of _ q] exI [of _ 0])
        (simp add: pnq_RemoveUpTo_loop.simps [of z n q])
  next
    case False
    let ?m = "if present x then i64 (numberOfPresentEntries q - 1) else numberOfPresentEntries q"
    let ?q = "q\<lparr>entries := es, numberOfPresentEntries := ?m,
      firstPacket := i64 (firstPacket q + 1)\<rparr>"
    have f: "firstPacket ?q = firstPacket q + 1" "pnq_pos ?q"
      using Cons.prems(2) sl es by (auto simp: pnq_pos_def)
    have "int (length (filter present xs)) \<le> int (length xs)" "int (length xs) < 2 ^ 63"
      using Cons.prems(2) sl by (auto simp: pnq_pos_def)
    then have "i64 (int (length (filter present xs))) = int (length (filter present xs))"
      by (intro i64_id_le [of _ "int (length xs)"]) simp_all
    then have m: "numberOfPresentEntries ?q = int (length (filter present (slots ?q)))"
      using Cons.prems(3) sl es by auto
    have sq: "slots ?q = xs" and iq: "rb_inv (entries ?q)"
      using es sl by simp_all
    from Cons.hyps(1) [OF sq [symmetric] iq f(2) m, unfolded f(1) sq] obtain q' k where
      q': "pnq_RemoveUpTo_loop z n ?q = Some q'" "rb_inv (entries q')" "pnq_pos q'"
        "k \<le> length xs" "slots q' = drop k xs" "firstPacket q' = firstPacket q + 1 + int k"
        "slots q' \<noteq> [] \<longrightarrow> n \<le> firstPacket q'" "k \<noteq> 0 \<longrightarrow> firstPacket q + 1 + int k \<le> n"
        "numberOfPresentEntries q' = int (length (filter present (slots q')))"
      by blast
    have step: "pnq_RemoveUpTo_loop z n q = Some q'"
      using ne f0 False p es q'(1) by (simp add: pnq_RemoveUpTo_loop.simps [of z n q])
    show ?thesis
      by (intro exI [of _ q'] exI [of _ "Suc k"]) (use step q' False sl in auto)
  qed
qed

lemma pnq_RemoveUpTo_ok:
  assumes "pnq_inv q"
  shows "\<exists>q'. pnq_RemoveUpTo z n q = Some q' \<and> pnq_inv q' \<and>
    pnq_map q' = (\<lambda>k. if k < n then None else pnq_map q k)"
proof -
  have pre: "rb_inv (entries q)" "pnq_pos q"
    "numberOfPresentEntries q = int (length (filter present (slots q)))"
    using assms by (simp_all add: pnq_inv_def)
  obtain q1 k where q1: "pnq_RemoveUpTo_loop z n q = Some q1" "rb_inv (entries q1)" "pnq_pos q1"
    "k \<le> length (slots q)" "slots q1 = drop k (slots q)" "firstPacket q1 = firstPacket q + int k"
    "slots q1 \<noteq> [] \<longrightarrow> n \<le> firstPacket q1" "k \<noteq> 0 \<longrightarrow> firstPacket q + int k \<le> n"
    "numberOfPresentEntries q1 = int (length (filter present (slots q1)))"
    using pnq_RemoveUpTo_loop_ok [OF pre, of z n] by blast
  obtain q' where q': "pnq_clearup z q1 = Some q'" "pnq_inv q'" "pnq_map q' = pnq_map q1"
    using pnq_clearup_ok [OF q1(2,3,9), of z] by blast
  have "pnq_map q1 m = (if m < n then None else pnq_map q m)" for m
  proof (cases "slots q1 = []")
    case True
    then have "k = length (slots q)" using q1(4,5) by simp
    with True q1(8) show ?thesis
      by (auto simp: pnq_map_def slot_map_above)
  next
    case False
    with q1(4-8) slot_map_drop [OF q1(4), of "firstPacket q" m] show ?thesis
      by (auto simp: pnq_map_def slot_map_below)
  qed
  with q1(1) q' show ?thesis by (auto simp: pnq_RemoveUpTo_def fun_eq_iff)
qed

text \<open>Removal does not move the end of the queue forward.\<close>

definition pnq_end :: "'a pnq \<Rightarrow> packetNumber" where
  "pnq_end q = firstPacket q + int (length (slots q))"

lemma pnq_clearup_end:
  assumes "rb_inv (entries q)" "pnq_pos q" "pnq_clearup z q = Some q'" "slots q' \<noteq> []"
  shows "pnq_end q' = pnq_end q \<and> slots q \<noteq> []"
proof -
  let ?P = "\<lambda>w. \<not> present w"
  obtain q1 where q1: "pnq_clearup_loop z q = Some q1" "rb_inv (entries q1)"
    "slots q1 = dropWhile ?P (slots q)"
    "firstPacket q1 = firstPacket q + int (length (takeWhile ?P (slots q)))"
    using pnq_clearup_loop_ok [OF assms(1,2), of z] by blast
  have len: "length (takeWhile ?P (slots q)) + length (dropWhile ?P (slots q)) = length (slots q)"
    by (metis length_append takeWhile_dropWhile_id)
  have "q' = q1" using assms(3,4) q1(1,2) by (auto simp: pnq_clearup_def rb_Empty_list split: if_splits)
  with q1 len assms(4) show ?thesis by (auto simp: pnq_end_def)
qed

lemma pnq_RemoveUpTo_last:
  assumes "pnq_inv q" "pnq_RemoveUpTo z n q = Some q'"
  shows "pnq_LastPacket q' \<le> pnq_LastPacket q" "slots q' \<noteq> [] \<longrightarrow> pnq_LastPacket q' = pnq_LastPacket q"
proof -
  have pre: "rb_inv (entries q)" "pnq_pos q"
    "numberOfPresentEntries q = int (length (filter present (slots q)))"
    using assms(1) by (simp_all add: pnq_inv_def)
  obtain q1 k where q1: "pnq_RemoveUpTo_loop z n q = Some q1" "rb_inv (entries q1)" "pnq_pos q1"
    "k \<le> length (slots q)" "slots q1 = drop k (slots q)" "firstPacket q1 = firstPacket q + int k"
    using pnq_RemoveUpTo_loop_ok [OF pre, of z n] by blast
  have c: "pnq_clearup z q1 = Some q'" using assms(2) q1(1) by (simp add: pnq_RemoveUpTo_def)
  have inv': "pnq_inv q'" using pnq_RemoveUpTo_ok [OF assms(1), of z n] assms(2) by auto
  have e1: "pnq_end q1 = pnq_end q" using q1(4-6) by (simp add: pnq_end_def)
  have "pnq_LastPacket q' \<le> pnq_LastPacket q \<and> (slots q' \<noteq> [] \<longrightarrow> pnq_LastPacket q' = pnq_LastPacket q)"
  proof (cases "slots q' = []")
    case True
    then show ?thesis
      using pnq_inv_Last [OF inv'] pnq_inv_Last [OF assms(1)] pre(2)
      by (cases "slots q") (auto simp: pnq_pos_def)
  next
    case False
    from pnq_clearup_end [OF q1(2,3) c False] have "pnq_end q' = pnq_end q1" "slots q1 \<noteq> []" by simp_all
    then show ?thesis
      using False e1 q1(5) pnq_inv_Last [OF inv'] pnq_inv_Last [OF assms(1)] by (auto simp: pnq_end_def)
  qed
  then show "pnq_LastPacket q' \<le> pnq_LastPacket q" "slots q' \<noteq> [] \<longrightarrow> pnq_LastPacket q' = pnq_LastPacket q"
    by simp_all
qed

subsection \<open>Insertion and removal\<close>

lemma pnq_Emplace_stale:
  assumes "pnq_inv q" "0 \<le> n" "n \<le> pnq_LastPacket q"
  shows "pnq_Emplace z n (Some e) q = Some (False, q)"
  using assms pnq_inv_Last [OF assms(1)]
  by (auto simp: pnq_Emplace_def invalidPacketNumber_def pnq_inv_IsEmpty split: if_splits)

lemma pnq_Emplace_first:
  assumes "pnq_inv q" "valid_pn n" "slots q = []"
  shows "\<exists>q'. pnq_Emplace z n (Some e) q = Some (True, q') \<and> pnq_inv q' \<and>
    pnq_map q' = (pnq_map q)(n \<mapsto> e) \<and> pnq_LastPacket q' = n"
proof -
  have inv: "rb_inv (entries q)" using assms(1) by (simp add: pnq_inv_def)
  obtain es where es: "rb_PushBack (ew_zero z) \<lparr>present = True, entry = e\<rparr> (entries q) = Some es"
    "rb_inv es" "rb_list es = [\<lparr>present = True, entry = e\<rparr>]"
    using rb_PushBack_ok [OF inv] assms(3) by (metis append_Nil)
  define q' where "q' = q\<lparr>entries := es, numberOfPresentEntries := 1, firstPacket := n\<rparr>"
  have "pnq_Emplace z n (Some e) q = Some (True, q')"
    using assms(2,3) es pnq_inv_IsEmpty [OF assms(1)]
    by (simp add: pnq_Emplace_def q'_def invalidPacketNumber_def valid_pn_def)
  moreover have I: "pnq_inv q'"
    using es assms(2) by (simp add: q'_def pnq_inv_def pnq_pos_def valid_pn_def)
  moreover have "pnq_map q' = (pnq_map q)(n \<mapsto> e)"
    using assms(3) es by (auto simp: pnq_map_def q'_def fun_eq_iff)
  moreover have "pnq_LastPacket q' = n" using pnq_inv_Last [OF I] es by (simp add: q'_def)
  ultimately show ?thesis by blast
qed

lemma pnq_Emplace_later:
  assumes "pnq_inv q" "valid_pn n" "pnq_LastPacket q < n" "slots q \<noteq> []"
  shows "\<exists>q'. pnq_Emplace z n (Some e) q = Some (True, q') \<and> pnq_inv q' \<and>
    pnq_map q' = (pnq_map q)(n \<mapsto> e) \<and> pnq_LastPacket q' = n"
proof -
  let ?f = "firstPacket q" and ?e = "\<lparr>present = True, entry = e\<rparr>"
  define gap where "gap = nat (n - ?f - int (length (slots q)))"
  have inv: "rb_inv (entries q)" and L: "pnq_LastPacket q = ?f + int (length (slots q)) - 1"
    using assms(1) pnq_inv_Last [OF assms(1)] assms(4) by (simp_all add: pnq_inv_def)
  have b: "0 \<le> ?f" "?f + int (length (slots q)) \<le> n" "n < 2 ^ 62"
    using assms L by (auto simp: pnq_inv_def pnq_pos_def valid_pn_def)
  obtain es1 where es1: "iter_opt gap (rb_PushBack (ew_zero z) (ew_zero z)) (entries q) = Some es1"
    "rb_inv es1" "rb_list es1 = slots q @ replicate gap (ew_zero z)"
    using ring_deque.push_times [OF inv] by blast
  obtain es where es: "rb_PushBack (ew_zero z) ?e es1 = Some es" "rb_inv es"
    "rb_list es = slots q @ replicate gap (ew_zero z) @ [?e]"
    using rb_PushBack_ok [OF es1(2)] es1(3) by (metis append.assoc)
  define q' where "q' = q\<lparr>entries := es,
    numberOfPresentEntries := i64 (numberOfPresentEntries q + 1)\<rparr>"
  have "i64 (i64 (n - ?f) - rb_Len (entries q)) = n - ?f - int (length (slots q))"
    using b rb_Len_list [OF inv] by (simp add: algebra_simps)
  then have "pnq_Emplace z n (Some e) q = Some (True, q')"
    using assms b L es1 es pnq_inv_IsEmpty [OF assms(1)]
    by (simp add: pnq_Emplace_def q'_def pnq_FirstPacket_def invalidPacketNumber_def Let_def
        flip: gap_def)
  moreover have I: "pnq_inv q'"
  proof -
    have "int (length (filter present (slots q))) \<le> int (length (slots q))" by simp
    with b have "i64 (int (length (filter present (slots q))) + 1) =
        int (length (filter present (slots q))) + 1"
      by (intro i64_id_le [of _ "int (length (slots q)) + 1"]) simp_all
    then have num: "numberOfPresentEntries q' = int (length (filter present (slots q')))"
      using es assms(1) by (simp add: q'_def pnq_inv_def ew_zero_def)
    have "slots q' \<noteq> []" "hd (slots q') = hd (slots q)" using es assms(4) by (simp_all add: q'_def)
    then have "case slots q' of [] \<Rightarrow> firstPacket q' = invalidPacketNumber | x # _ \<Rightarrow> present x"
      using assms(1,4) by (auto simp: pnq_inv_def split: list.splits)
    moreover have "pnq_pos q'" "rb_inv (entries q')"
      using es b by (auto simp: q'_def pnq_pos_def gap_def)
    ultimately show ?thesis using num by (simp add: pnq_inv_def)
  qed
  moreover have "pnq_map q' = (pnq_map q)(n \<mapsto> e)"
    using es(3) b by (auto simp: pnq_map_def q'_def fun_eq_iff slot_map_append slot_map_absent
        ew_zero_def gap_def slot_map_above)
  moreover have "pnq_LastPacket q' = n"
    using pnq_inv_Last [OF I] es(3) b by (simp add: q'_def gap_def)
  ultimately show ?thesis by blast
qed

lemma pnq_Emplace_fresh:
  assumes "pnq_inv q" "valid_pn n" "pnq_LastPacket q < n"
  shows "\<exists>q'. pnq_Emplace z n (Some e) q = Some (True, q') \<and> pnq_inv q' \<and>
    pnq_map q' = (pnq_map q)(n \<mapsto> e) \<and> pnq_LastPacket q' = n"
  using pnq_Emplace_first [OF assms(1,2)] pnq_Emplace_later [OF assms] by (cases "slots q = []")

lemma length_filter_update_absent:
  "i < length xs \<Longrightarrow> P (xs ! i) \<Longrightarrow> \<not> P v \<Longrightarrow>
   Suc (length (filter P (xs[i := v]))) = length (filter P xs)"
  by (induction xs arbitrary: i) (auto simp: nth_Cons' split: nat.splits)

lemma pnq_Remove_absent:
  assumes "pnq_inv q" "in_i64 n" "pnq_map q n = None"
  shows "pnq_Remove z n f q s = Some (False, q, s)"
  using assms by (simp add: pnq_Remove_def pnq_getEntryWraper_None)

lemma pnq_unmark_counts:
  assumes "pnq_inv q" "i < length (slots q)" "present (slots q ! i)"
    and "slots q' = (slots q)[i := (slots q ! i)\<lparr>present := False\<rparr>]" "firstPacket q' = firstPacket q"
    and "numberOfPresentEntries q' = i64 (numberOfPresentEntries q - 1)"
  shows "pnq_pos q'" "numberOfPresentEntries q' = int (length (filter present (slots q')))"
proof -
  show "pnq_pos q'" using assms(1,4,5) by (auto simp: pnq_inv_def pnq_pos_def)
  have c: "Suc (length (filter present (slots q'))) = length (filter present (slots q))"
    using assms(2-4) by (simp add: length_filter_update_absent)
  have c2: "int (length (filter present (slots q))) \<le> int (length (slots q))"
    "int (length (slots q)) \<le> 2 ^ 62"
    using assms(1,2) by (auto simp: pnq_inv_def pnq_pos_def)
  have "numberOfPresentEntries q = int (length (filter present (slots q'))) + 1"
    using assms(1) c by (simp add: pnq_inv_def)
  moreover have "i64 (int (length (filter present (slots q')))) = int (length (filter present (slots q')))"
    using c c2 by (intro i64_id_le [of _ "int (length (slots q))"]) (simp, linarith, simp)
  ultimately show "numberOfPresentEntries q' = int (length (filter present (slots q')))"
    using assms(6) by simp
qed

lemma pnq_Remove_present:
  assumes "pnq_inv q" "pnq_map q n = Some v"
  shows "\<exists>q'. pnq_Remove z n f q s = Some (True, q', case f of None \<Rightarrow> s | Some f \<Rightarrow> f v s) \<and>
    pnq_inv q' \<and> pnq_map q' = (pnq_map q)(n := None) \<and>
    (slots q' \<noteq> [] \<longrightarrow> pnq_LastPacket q' = pnq_LastPacket q)"
proof -
  from pnq_getEntryWraper_Some [OF assms] obtain p i where
    p: "pnq_getEntryWraper n q = Some (Some p)" "rb_Offset (int i) (entries q) = Some p"
       "rb_load p (entries q) = slots q ! i"
    and i: "n = firstPacket q + int i" "i < length (slots q)" "present (slots q ! i)"
       "entry (slots q ! i) = v" .
  let ?w = "(slots q ! i)\<lparr>present := False\<rparr>"
  define q1 where "q1 = q\<lparr>entries := rb_store p ?w (entries q),
    numberOfPresentEntries := i64 (numberOfPresentEntries q - 1)\<rparr>"
  have inv: "rb_inv (entries q)" using assms(1) by (simp add: pnq_inv_def)
  have st: "slots q1 = (slots q)[i := ?w]" "rb_inv (entries q1)"
    using rb_Offset_ok [OF inv i(2)] p(2) by (auto simp: q1_def)
  have m: "pnq_map q1 = (pnq_map q)(n := None)"
    using slot_map_update [OF i(2), of ?w "firstPacket q"] st(1) i(1)
    by (simp add: pnq_map_def q1_def)
  have pos: "pnq_pos q1" and num: "numberOfPresentEntries q1 = int (length (filter present (slots q1)))"
    using pnq_unmark_counts [OF assms(1) i(2,3), of q1] st(1) by (simp_all add: q1_def)
  have e1: "pnq_end q1 = pnq_end q" using st(1) by (simp add: pnq_end_def q1_def)
  have lst: "slots q' \<noteq> [] \<longrightarrow> pnq_LastPacket q' = pnq_LastPacket q" if "pnq_inv q'" "slots q' \<noteq> [] \<longrightarrow> pnq_end q' = pnq_end q1" for q'
    using that e1 pnq_inv_Last [OF that(1)] pnq_inv_Last [OF assms(1)] i(2) by (auto simp: pnq_end_def)
  have "\<exists>q'. pnq_Remove z n f q s = Some (True, q', case f of None \<Rightarrow> s | Some f \<Rightarrow> f v s) \<and>
    pnq_inv q' \<and> pnq_map q' = pnq_map q1 \<and> (slots q' \<noteq> [] \<longrightarrow> pnq_LastPacket q' = pnq_LastPacket q)"
  proof (cases "n = firstPacket q")
    case True
    obtain q' where q': "pnq_clearup z q1 = Some q'" "pnq_inv q'" "pnq_map q' = pnq_map q1"
      using pnq_clearup_ok [OF st(2) pos num, of z] by blast
    have "pnq_Remove z n f q s = Some (True, q', case f of None \<Rightarrow> s | Some f \<Rightarrow> f v s)"
      using True p i(4) q'(1) by (auto simp: pnq_Remove_def pnq_FirstPacket_def Let_def q1_def)
    with q' lst [OF q'(2)] pnq_clearup_end [OF st(2) pos q'(1)] show ?thesis by blast
  next
    case False
    then obtain j where j: "i = Suc j" using i(1) by (cases i) auto
    have I: "pnq_inv q1"
      using assms(1) st pos num j i(2) by (auto simp: pnq_inv_def split: list.splits)
    have "pnq_Remove z n f q s = Some (True, q1, case f of None \<Rightarrow> s | Some f \<Rightarrow> f v s)"
      using False p i(4) by (auto simp: pnq_Remove_def pnq_FirstPacket_def Let_def q1_def)
    with I lst [OF I] show ?thesis by blast
  qed
  with m show ?thesis by simp
qed

subsection \<open>The interface a client relies on\<close>

locale packet_map =
  fixes invar :: "'q \<Rightarrow> bool"
    and contents :: "'q \<Rightarrow> packetNumber \<Rightarrow> 'a option"
    and last_pn :: "'q \<Rightarrow> packetNumber"
    and emplace :: "packetNumber \<Rightarrow> 'a \<Rightarrow> 'q \<Rightarrow> (bool \<times> 'q) option"
    and get :: "packetNumber \<Rightarrow> 'q \<Rightarrow> 'a option option"
    and remove_upto :: "packetNumber \<Rightarrow> 'q \<Rightarrow> 'q option"
  assumes get_ok: "invar q \<Longrightarrow> in_i64 n \<Longrightarrow> get n q = Some (contents q n)"
    and contents_le_last: "invar q \<Longrightarrow> contents q n = Some v \<Longrightarrow> n \<le> last_pn q"
    and emplace_stale: "invar q \<Longrightarrow> 0 \<le> n \<Longrightarrow> n \<le> last_pn q \<Longrightarrow> emplace n e q = Some (False, q)"
    and emplace_fresh: "invar q \<Longrightarrow> valid_pn n \<Longrightarrow> last_pn q < n \<Longrightarrow>
      \<exists>q'. emplace n e q = Some (True, q') \<and> invar q' \<and> contents q' = (contents q)(n \<mapsto> e) \<and>
        last_pn q' = n"
    and remove_upto_ok: "invar q \<Longrightarrow> \<exists>q'. remove_upto n q = Some q' \<and> invar q' \<and>
      contents q' = (\<lambda>k. if k < n then None else contents q k)"
begin

lemma emplace_total:
  assumes "invar q" "valid_pn n"
  obtains b q' where "emplace n e q = Some (b, q')" "invar q'" "b \<longleftrightarrow> last_pn q < n"
    "contents q' = (if last_pn q < n then (contents q)(n \<mapsto> e) else contents q)"
  using assms emplace_stale [of q n e] emplace_fresh [of q n e]
  by (cases "last_pn q < n") (auto simp: valid_pn_def not_less)

text \<open>Packets sent with increasing numbers can all be looked up afterwards.\<close>

lemma emplace_increasing:
  assumes "invar q" "sorted_wrt (<) (map fst ps)" "\<forall>p\<in>set ps. valid_pn (fst p) \<and> last_pn q < fst p"
  shows "\<exists>q'. foldr (\<lambda>(n, e) k q. Option.bind (emplace n e q) (\<lambda>(b, q). k q)) ps Some q = Some q' \<and>
    invar q' \<and> contents q' = contents q ++ map_of ps"
  using assms
proof (induction ps arbitrary: q)
  case (Cons p ps)
  obtain n e where p: "p = (n, e)" by (cases p)
  obtain q1 where q1: "emplace n e q = Some (True, q1)" "invar q1"
    "contents q1 = (contents q)(n \<mapsto> e)" "last_pn q1 = n"
    using emplace_fresh [of q n e] Cons.prems p by auto
  have "\<forall>p\<in>set ps. valid_pn (fst p) \<and> last_pn q1 < fst p"
    using Cons.prems p q1(4) by auto
  with Cons.IH [OF q1(2)] Cons.prems(2) obtain q' where
    q': "foldr (\<lambda>(n, e) k q. Option.bind (emplace n e q) (\<lambda>(b, q). k q)) ps Some q1 = Some q'"
      "invar q'" "contents q' = contents q1 ++ map_of ps" by auto
  have "n \<notin> dom (map_of ps)"
    using Cons.prems(2) p by (auto simp: dom_map_of_conv_image_fst)
  then have "contents q' = contents q ++ map_of (p # ps)"
    using q'(3) q1(3) p by (auto simp: map_add_def fun_eq_iff split: option.splits)
  moreover have "foldr (\<lambda>(n, e) k q. Option.bind (emplace n e q) (\<lambda>(b, q). k q)) (p # ps) Some q = Some q'"
    using q'(1) q1(1) p by simp
  ultimately show ?case using q'(2) by blast
qed simp

end

interpretation pnq_packet_map: packet_map pnq_inv pnq_map pnq_LastPacket
  "\<lambda>n e. pnq_Emplace z n (Some e)" pnq_GetEntry "pnq_RemoveUpTo z" for z
  by unfold_locales (simp_all add: pnq_GetEntry_ok pnq_map_Some_range(2) pnq_Emplace_stale
      pnq_Emplace_fresh pnq_RemoveUpTo_ok)

subsection \<open>Sequences of calls\<close>

text \<open>
  A reference queue: the entries in the order of their packet numbers, and the number emplaced last.
  \<open>Emplace\<close> is refused unless the queue is empty or the number is past the last one.  Every call
  reports whether it succeeded and the entry it delivers (to the caller or to the callback).
\<close>

datatype 'a pnq_op = OpEmplace packetNumber 'a | OpGet packetNumber | OpRemove packetNumber | OpRemoveUpTo packetNumber

type_synonym 'a pnq_ref = "(packetNumber \<times> 'a) list \<times> packetNumber"

fun ref_step :: "'a pnq_op \<Rightarrow> 'a pnq_ref \<Rightarrow> (bool \<times> 'a option) \<times> 'a pnq_ref" where
  "ref_step (OpEmplace n e) (xs, hi) =
     (if xs \<noteq> [] \<and> n \<le> hi then ((False, None), (xs, hi)) else ((True, None), (xs @ [(n, e)], n)))"
| "ref_step (OpGet n) (xs, hi) = ((map_of xs n \<noteq> None, map_of xs n), (xs, hi))"
| "ref_step (OpRemove n) (xs, hi) = ((map_of xs n \<noteq> None, map_of xs n), (filter (\<lambda>p. fst p \<noteq> n) xs, hi))"
| "ref_step (OpRemoveUpTo n) (xs, hi) = ((True, None), (filter (\<lambda>p. n \<le> fst p) xs, hi))"

fun pnq_step :: "'a \<Rightarrow> 'a pnq_op \<Rightarrow> 'a pnq \<Rightarrow> ((bool \<times> 'a option) \<times> 'a pnq) option" where
  "pnq_step z (OpEmplace n e) q = do { (ok, q) \<leftarrow> pnq_Emplace z n (Some e) q; Some ((ok, None), q) }"
| "pnq_step z (OpGet n) q = do { e \<leftarrow> pnq_GetEntry n q; Some ((e \<noteq> None, e), q) }"
| "pnq_step z (OpRemove n) q = do {
     (ok, q, e) \<leftarrow> pnq_Remove z n (Some (\<lambda>e _. Some e)) q None; Some ((ok, e), q) }"
| "pnq_step z (OpRemoveUpTo n) q = do { q \<leftarrow> pnq_RemoveUpTo z n q; Some ((True, None), q) }"

fun ref_exec :: "'a pnq_op list \<Rightarrow> 'a pnq_ref \<Rightarrow> (bool \<times> 'a option) list \<times> 'a pnq_ref" where
  "ref_exec [] r = ([], r)"
| "ref_exec (op # ops) r = (let (out, r) = ref_step op r; (outs, r) = ref_exec ops r in (out # outs, r))"

fun pnq_exec :: "'a \<Rightarrow> 'a pnq_op list \<Rightarrow> 'a pnq \<Rightarrow> ((bool \<times> 'a option) list \<times> 'a pnq) option" where
  "pnq_exec z [] q = Some ([], q)"
| "pnq_exec z (op # ops) q = do {
     (out, q) \<leftarrow> pnq_step z op q; (outs, q) \<leftarrow> pnq_exec z ops q; Some (out # outs, q) }"

fun op_ok :: "'a pnq_op \<Rightarrow> bool" where
  "op_ok (OpEmplace n e) \<longleftrightarrow> valid_pn n"
| "op_ok (OpGet n) \<longleftrightarrow> in_i64 n"
| "op_ok (OpRemove n) \<longleftrightarrow> in_i64 n"
| "op_ok (OpRemoveUpTo n) \<longleftrightarrow> in_i64 n"

definition pnq_rel :: "'a pnq \<Rightarrow> 'a pnq_ref \<Rightarrow> bool" where
  "pnq_rel q r \<longleftrightarrow>
     pnq_inv q \<and> pnq_map q = map_of (fst r) \<and> (fst r \<noteq> [] \<longrightarrow> pnq_LastPacket q = snd r)"

lemma pnq_map_empty_iff:
  assumes "pnq_inv q"
  shows "pnq_map q = Map.empty \<longleftrightarrow> slots q = []"
proof
  assume "pnq_map q = Map.empty"
  then have "pnq_map q (firstPacket q) = None" by simp
  with assms show "slots q = []" by (cases "slots q") (auto simp: pnq_map_def pnq_inv_def)
qed (simp add: pnq_map_def fun_eq_iff)

lemma map_of_filter_key: "map_of (filter (\<lambda>p. P (fst p)) xs) = (\<lambda>k. if P k then map_of xs k else None)"
  by (induction xs) (auto simp: fun_eq_iff)

lemma pnq_rel_filter:
  assumes "pnq_rel q (xs, hi)" "pnq_inv q'" "pnq_map q' = (\<lambda>k. if P k then pnq_map q k else None)"
    "slots q' \<noteq> [] \<longrightarrow> pnq_LastPacket q' = pnq_LastPacket q"
  shows "pnq_rel q' (filter (\<lambda>p. P (fst p)) xs, hi)"
proof -
  have m: "pnq_map q' = map_of (filter (\<lambda>p. P (fst p)) xs)"
    using assms(1,3) by (auto simp: pnq_rel_def map_of_filter_key)
  moreover have "pnq_LastPacket q' = hi" if "filter (\<lambda>p. P (fst p)) xs \<noteq> []"
  proof -
    have "map_of (filter (\<lambda>p. P (fst p)) xs) \<noteq> Map.empty" using that by simp
    with m pnq_map_empty_iff [OF assms(2)] have "slots q' \<noteq> []" by metis
    moreover have "xs \<noteq> []" using that by auto
    ultimately show ?thesis using assms(1,4) by (simp add: pnq_rel_def)
  qed
  ultimately show ?thesis using assms(2) by (simp add: pnq_rel_def)
qed

lemma pnq_Emplace_rel:
  assumes "pnq_rel q (xs, hi)" "valid_pn n"
  shows "\<exists>q'. pnq_step z (OpEmplace n e) q = Some (fst (ref_step (OpEmplace n e) (xs, hi)), q') \<and>
    pnq_rel q' (snd (ref_step (OpEmplace n e) (xs, hi)))"
proof -
  have I: "pnq_inv q" and m: "pnq_map q = map_of xs" using assms(1) by (simp_all add: pnq_rel_def)
  have emp: "xs = [] \<longleftrightarrow> slots q = []" using pnq_map_empty_iff [OF I] m by simp
  have L: "pnq_LastPacket q = (if xs = [] then - 1 else hi)"
    using assms(1) emp pnq_inv_Last [OF I] by (simp add: pnq_rel_def)
  show ?thesis
  proof (cases "xs \<noteq> [] \<and> n \<le> hi")
    case True
    then have "pnq_Emplace z n (Some e) q = Some (False, q)"
      using assms(2) L by (intro pnq_Emplace_stale [OF I]) (simp_all add: valid_pn_def)
    with True assms(1) show ?thesis by simp
  next
    case False
    then have "pnq_LastPacket q < n" using assms(2) L by (auto simp: valid_pn_def)
    from pnq_Emplace_fresh [OF I assms(2) this] obtain q' where
      q': "pnq_Emplace z n (Some e) q = Some (True, q')" "pnq_inv q'" "pnq_map q' = (pnq_map q)(n \<mapsto> e)"
        "pnq_LastPacket q' = n" by blast
    have "map_of xs n = None"
      using pnq_map_Some_range(2) [OF I, of n] m \<open>pnq_LastPacket q < n\<close> by fastforce
    then have "(map_of xs)(n \<mapsto> e) = map_of (xs @ [(n, e)])"
      by (auto simp: fun_eq_iff map_add_def split: option.splits)
    with q' m False show ?thesis by (auto simp: pnq_rel_def)
  qed
qed

lemma pnq_step_rel:
  assumes "pnq_rel q (xs, hi)" "op_ok op"
  shows "\<exists>q'. pnq_step z op q = Some (fst (ref_step op (xs, hi)), q') \<and> pnq_rel q' (snd (ref_step op (xs, hi)))"
proof -
  have I: "pnq_inv q" and m: "pnq_map q = map_of xs" using assms(1) by (simp_all add: pnq_rel_def)
  show ?thesis
  proof (cases op)
    case (OpEmplace n e)
    with assms show ?thesis using pnq_Emplace_rel [of q xs hi n z e] by simp
  next
    case (OpGet n)
    with assms pnq_GetEntry_ok [OF I] m show ?thesis by simp
  next
    case (OpRemove n)
    show ?thesis
    proof (cases "pnq_map q n")
      case None
      have "filter (\<lambda>p. fst p \<noteq> n) xs = xs"
        using None m by (auto simp: map_of_eq_None_iff intro!: filter_True)
      with None OpRemove assms m pnq_Remove_absent [OF I _ None, of z "Some (\<lambda>e _. Some e)" None] show ?thesis
        by (simp add: pnq_rel_def)
    next
      case (Some v)
      from pnq_Remove_present [OF I this, of z "Some (\<lambda>e _. Some e)" None] obtain q' where
        q': "pnq_Remove z n (Some (\<lambda>e _. Some e)) q None = Some (True, q', Some v)" "pnq_inv q'"
          "pnq_map q' = (pnq_map q)(n := None)" "slots q' \<noteq> [] \<longrightarrow> pnq_LastPacket q' = pnq_LastPacket q" by auto
      have "pnq_map q' = (\<lambda>k. if k \<noteq> n then pnq_map q k else None)" using q'(3) by auto
      from pnq_rel_filter [OF assms(1) q'(2) this q'(4)] q'(1) Some m OpRemove show ?thesis by simp
    qed
  next
    case (OpRemoveUpTo n)
    obtain q' where q': "pnq_RemoveUpTo z n q = Some q'" "pnq_inv q'"
      "pnq_map q' = (\<lambda>k. if k < n then None else pnq_map q k)"
      using pnq_RemoveUpTo_ok [OF I] by blast
    have "pnq_map q' = (\<lambda>k. if n \<le> k then pnq_map q k else None)" using q'(3) by auto
    from pnq_rel_filter [OF assms(1) q'(2) this pnq_RemoveUpTo_last(2) [OF I q'(1)]] q'(1) OpRemoveUpTo
    show ?thesis by simp
  qed
qed

lemma pnq_exec_rel:
  assumes "pnq_rel q r" "\<forall>op\<in>set ops. op_ok op"
  shows "\<exists>q'. pnq_exec z ops q = Some (fst (ref_exec ops r), q') \<and> pnq_rel q' (snd (ref_exec ops r))"
  using assms
proof (induction ops arbitrary: q r)
  case (Cons op ops)
  obtain xs hi where r: "r = (xs, hi)" by (cases r)
  obtain out r1 where s: "ref_step op (xs, hi) = (out, r1)" by (cases "ref_step op (xs, hi)")
  obtain q1 where "pnq_step z op q = Some (out, q1)" "pnq_rel q1 r1"
    using pnq_step_rel [of q xs hi op z] Cons.prems r s by auto
  with Cons.IH [of q1 r1] Cons.prems(2) r s show ?case by (auto simp: split_beta)
qed simp

subsection \<open>Properties\<close>

text \<open>
  C5: a queue that starts empty, with any initial capacity, behaves under every sequence of
  \<open>Emplace\<close>, \<open>GetEntry\<close>, \<open>Remove\<close> and \<open>RemoveUpTo\<close> calls as the reference queue: no call panics, every loop ends,
  every call reports the same result and delivers the same entry, and the map of present entries is
  the one of the reference.
\<close>

theorem pnq_refines_reference:
  assumes "\<forall>op\<in>set ops. op_ok op"
  shows "\<exists>q. pnq_exec z ops (newPacketNumberIndexedQueue z n) = Some (fst (ref_exec ops ([], - 1)), q) \<and>
    pnq_map q = map_of (fst (snd (ref_exec ops ([], - 1))))"
proof -
  have "pnq_map (newPacketNumberIndexedQueue z n) = Map.empty" by (rule ext) simp
  then have "pnq_rel (newPacketNumberIndexedQueue z n) ([], - 1)" by (simp add: pnq_rel_def)
  from pnq_exec_rel [OF this assms, of z] show ?thesis by (auto simp: pnq_rel_def)
qed

lemma pnq_refines_reference_witness:
  "\<exists>q. pnq_exec 0 [OpEmplace 3 30, OpEmplace 7 70, OpEmplace 5 50, OpGet 7, OpRemove 3, OpRemoveUpTo 9, OpEmplace 1 10]
       (newPacketNumberIndexedQueue (0 :: int) 2) =
     Some (fst (ref_exec [OpEmplace 3 30, OpEmplace 7 70, OpEmplace 5 50, OpGet 7, OpRemove 3, OpRemoveUpTo 9,
       OpEmplace 1 10] ([], - 1)), q) \<and>
    pnq_map q = map_of (fst (snd (ref_exec [OpEmplace 3 30, OpEmplace 7 70, OpEmplace 5 50, OpGet 7, OpRemove 3,
      OpRemoveUpTo 9, OpEmplace 1 10] ([], - 1))))"
  by (rule pnq_refines_reference) (simp add: valid_pn_def)

text \<open>
  Round trip: packets emplaced with increasing numbers past the last one are all found
  afterwards with their entries, and the older entries are still there.
\<close>

lemma pnq_emplace_lookup:
  assumes "pnq_inv q" "sorted_wrt (<) (map fst ps)" "\<forall>p\<in>set ps. valid_pn (fst p) \<and> pnq_LastPacket q < fst p"
    "in_i64 k"
  shows "\<exists>q'. foldr (\<lambda>(n, e) c q. Option.bind (pnq_Emplace z n (Some e) q) (\<lambda>(b, q). c q)) ps Some q = Some q' \<and>
    pnq_GetEntry k q' = Some (case map_of ps k of Some e \<Rightarrow> Some e | None \<Rightarrow> pnq_map q k)"
proof -
  obtain q' where "foldr (\<lambda>(n, e) c q. Option.bind (pnq_Emplace z n (Some e) q) (\<lambda>(b, q). c q)) ps Some q = Some q'"
    "pnq_inv q'" "pnq_map q' = pnq_map q ++ map_of ps"
    using pnq_packet_map.emplace_increasing [OF assms(1-3)] by blast
  with pnq_GetEntry_ok [of q' k] assms(4) show ?thesis by (auto simp: map_add_def split: option.splits)
qed

end
