(* ===== verification/WindowedFilter.thy ===== *)
theory WindowedFilter
  imports Prelude
begin

text \<open>
  Kathleen Nichols' windowed filter of \<open>src/internal/congestion/bbr/windowed_filter.go\<close>.  The
  three-element slice \<open>estimates\<close> is the fields \<open>est0\<close>, \<open>est1\<close>, \<open>est2\<close>; the time type
  is \<open>roundTripCount\<close> (\<open>uint64\<close>), the only one the program instantiates, so subtraction of times
  wraps.  \<open>z\<close> is the zero value of the sample type (\<open>*new(V)\<close>).  The locale \<open>comparator\<close>
  states what the filter needs of its comparison function; the filter's invariants are proved
  inside it and interpreted for \<open>MaxFilter\<close>, \<open>MinFilter\<close> and (in \<open>BandwidthSampler\<close>) the
  comparison of ack aggregation events.
\<close>

record 'v wf_entry =
  sample :: 'v
  etime :: int

record 'v WindowedFilter =
  windowLength :: int
  est0 :: "'v wf_entry"
  est1 :: "'v wf_entry"
  est2 :: "'v wf_entry"
  comparator_fn :: "'v \<Rightarrow> 'v \<Rightarrow> int"

definition MaxFilter :: "'o::linorder \<Rightarrow> 'o \<Rightarrow> int" where
  "MaxFilter a b = (if b < a then 1 else if a < b then - 1 else 0)"

definition MinFilter :: "'o::linorder \<Rightarrow> 'o \<Rightarrow> int" where
  "MinFilter a b = (if a < b then 1 else if b < a then - 1 else 0)"

definition wf_entry_zero :: "'v \<Rightarrow> 'v wf_entry" where
  "wf_entry_zero z = \<lparr>sample = z, etime = 0\<rparr>"

definition NewWindowedFilter :: "'v \<Rightarrow> int \<Rightarrow> ('v \<Rightarrow> 'v \<Rightarrow> int) \<Rightarrow> 'v WindowedFilter" where
  "NewWindowedFilter z wl cmp =
     \<lparr>windowLength = wl, est0 = wf_entry_zero z, est1 = wf_entry_zero z, est2 = wf_entry_zero z,
      comparator_fn = cmp\<rparr>"

definition wf_SetWindowLength :: "int \<Rightarrow> 'v WindowedFilter \<Rightarrow> 'v WindowedFilter" where
  "wf_SetWindowLength wl f = f\<lparr>windowLength := wl\<rparr>"

definition wf_GetBest :: "'v WindowedFilter \<Rightarrow> 'v" where
  "wf_GetBest f = sample (est0 f)"

definition wf_GetSecondBest :: "'v WindowedFilter \<Rightarrow> 'v" where
  "wf_GetSecondBest f = sample (est1 f)"

definition wf_GetThirdBest :: "'v WindowedFilter \<Rightarrow> 'v" where
  "wf_GetThirdBest f = sample (est2 f)"

definition wf_Reset :: "'v \<Rightarrow> int \<Rightarrow> 'v WindowedFilter \<Rightarrow> 'v WindowedFilter" where
  "wf_Reset newSample newTime f =
     (let f = f\<lparr>est2 := \<lparr>sample = newSample, etime = newTime\<rparr>\<rparr>;
          f = f\<lparr>est1 := est2 f\<rparr>
      in f\<lparr>est0 := est1 f\<rparr>)"

definition wf_Clear :: "'v \<Rightarrow> 'v WindowedFilter \<Rightarrow> 'v WindowedFilter" where
  "wf_Clear z f = f\<lparr>est0 := wf_entry_zero z, est1 := wf_entry_zero z, est2 := wf_entry_zero z\<rparr>"

definition wf_Update :: "'v \<Rightarrow> 'v \<Rightarrow> int \<Rightarrow> 'v WindowedFilter \<Rightarrow> 'v WindowedFilter" where
  "wf_Update z newSample newTime f =
     (let cmp = comparator_fn f; e = \<lparr>sample = newSample, etime = newTime\<rparr> in
      if cmp (sample (est0 f)) z = 0 \<or> 0 \<le> cmp newSample (sample (est0 f)) \<or>
         windowLength f < u64 (newTime - etime (est2 f))
      then wf_Reset newSample newTime f
      else
        let f = (if 0 \<le> cmp newSample (sample (est1 f)) then f\<lparr>est1 := e, est2 := e\<rparr>
                 else if 0 \<le> cmp newSample (sample (est2 f)) then f\<lparr>est2 := e\<rparr>
                 else f)
        in
        if windowLength f < u64 (newTime - etime (est0 f)) then
          let f = f\<lparr>est0 := est1 f\<rparr>;
              f = f\<lparr>est1 := est2 f\<rparr>;
              f = f\<lparr>est2 := e\<rparr>
          in if windowLength f < u64 (newTime - etime (est0 f))
             then (let f = f\<lparr>est0 := est1 f\<rparr> in f\<lparr>est1 := est2 f\<rparr>)
             else f
        else if cmp (sample (est1 f)) (sample (est0 f)) = 0 \<and>
                windowLength f div 4 < u64 (newTime - etime (est1 f))
        then (let f = f\<lparr>est1 := e\<rparr> in f\<lparr>est2 := est1 f\<rparr>)
        else if cmp (sample (est2 f)) (sample (est1 f)) = 0 \<and>
                windowLength f div 2 < u64 (newTime - etime (est2 f))
        then f\<lparr>est2 := e\<rparr>
        else f)"

text \<open>A stream of samples, oldest first.\<close>

primrec wf_run :: "'v \<Rightarrow> 'v WindowedFilter \<Rightarrow> ('v \<times> int) list \<Rightarrow> 'v WindowedFilter" where
  "wf_run z f [] = f"
| "wf_run z f (x # xs) = wf_run z (wf_Update z (fst x) (snd x) f) xs"

lemma wf_run_append [simp]: "wf_run z f (xs @ ys) = wf_run z (wf_run z f xs) ys"
  by (induction xs arbitrary: f) simp_all

lemma wf_comparator_fn [simp]:
  "comparator_fn (wf_Update z x t f) = comparator_fn f"
  "comparator_fn (wf_Reset x t f) = comparator_fn f"
  "comparator_fn (wf_Clear z f) = comparator_fn f"
  by (simp_all add: wf_Update_def wf_Reset_def wf_Clear_def Let_def)

lemma wf_windowLength [simp]:
  "windowLength (wf_Update z x t f) = windowLength f"
  "windowLength (wf_Reset x t f) = windowLength f"
  "windowLength (wf_Clear z f) = windowLength f"
  by (simp_all add: wf_Update_def wf_Reset_def wf_Clear_def Let_def)

lemma wf_run_fields [simp]:
  "comparator_fn (wf_run z f xs) = comparator_fn f" "windowLength (wf_run z f xs) = windowLength f"
  by (induction xs arbitrary: f) simp_all

subsection \<open>Invariants\<close>

text \<open>
  The three estimates are ordered, best first, and the newer ones are the worse ones; no estimate
  is newer than the clock \<open>now\<close>.
\<close>

definition wf_ordered :: "int \<Rightarrow> 'v WindowedFilter \<Rightarrow> bool" where
  "wf_ordered now f \<longleftrightarrow>
     0 \<le> comparator_fn f (sample (est0 f)) (sample (est1 f)) \<and>
     0 \<le> comparator_fn f (sample (est1 f)) (sample (est2 f)) \<and>
     0 \<le> etime (est0 f) \<and> etime (est0 f) \<le> etime (est1 f) \<and> etime (est1 f) \<le> etime (est2 f) \<and>
     etime (est2 f) \<le> now"

text \<open>
  An estimate is sound for a history of samples: it is one of them, and no later sample beats it.
\<close>

definition wf_dominates :: "('v \<Rightarrow> 'v \<Rightarrow> int) \<Rightarrow> ('v \<times> int) list \<Rightarrow> 'v wf_entry \<Rightarrow> bool" where
  "wf_dominates cmp hist e \<longleftrightarrow>
     (\<exists>pre post. hist = pre @ (sample e, etime e) # post \<and> (\<forall>y\<in>set post. 0 \<le> cmp (sample e) (fst y)))"

definition wf_sound :: "('v \<times> int) list \<Rightarrow> 'v WindowedFilter \<Rightarrow> bool" where
  "wf_sound hist f \<longleftrightarrow>
     wf_dominates (comparator_fn f) hist (est0 f) \<and> wf_dominates (comparator_fn f) hist (est1 f) \<and>
     wf_dominates (comparator_fn f) hist (est2 f)"

lemma wf_dominates_new: "wf_dominates cmp (hist @ [(x, t)]) \<lparr>sample = x, etime = t\<rparr>"
  unfolding wf_dominates_def by (intro exI [of _ hist] exI [of _ "[]"]) simp

lemma wf_dominates_keep:
  assumes "wf_dominates cmp hist e" "0 \<le> cmp (sample e) x"
  shows "wf_dominates cmp (hist @ [(x, t)]) e"
proof -
  obtain pre post where "hist = pre @ (sample e, etime e) # post"
    "\<forall>y\<in>set post. 0 \<le> cmp (sample e) (fst y)"
    using assms(1) by (auto simp: wf_dominates_def)
  with assms(2) show ?thesis
    unfolding wf_dominates_def by (intro exI [of _ pre] exI [of _ "post @ [(x, t)]"]) auto
qed

lemma wf_dominates_pair: "wf_dominates cmp hist e \<Longrightarrow> (sample e, etime e) \<in> set hist"
  unfolding wf_dominates_def by auto

lemma wf_dominates_in: "wf_dominates cmp hist e \<Longrightarrow> sample e \<in> fst ` set hist"
  unfolding wf_dominates_def by (elim exE conjE) (metis fst_conv in_set_conv_decomp imageI)

lemma wf_sound_Reset: "wf_sound (hist @ [(x, t)]) (wf_Reset x t f)"
  by (simp add: wf_sound_def wf_Reset_def Let_def wf_dominates_new)

text \<open>
  Peaks of a stream: a sample that is strictly below the estimate before it.  With three peaks \<open>p0\<close>, \<open>p1\<close>, \<open>p2\<close>, each
  below the one before it and the last two recorded after a quarter and a further half of the window, the filter goes through three
  stages: \<open>wf_stage1\<close> before the second peak, \<open>wf_stage2\<close> before the third, and \<open>wf_stage3\<close> when all three have arrived,
  where the best one in the window is the answer.
\<close>

definition wf_below :: "('v \<Rightarrow> 'v \<Rightarrow> int) \<Rightarrow> 'v wf_entry \<Rightarrow> 'v \<Rightarrow> bool" where
  "wf_below cmp e x \<longleftrightarrow> \<not> 0 \<le> cmp x (sample e)"

definition wf_stage1 :: "'v wf_entry \<Rightarrow> 'v \<Rightarrow> int \<Rightarrow> 'v WindowedFilter \<Rightarrow> bool" where
  "wf_stage1 p0 v1 now f \<longleftrightarrow>
     est0 f = p0 \<and>
     (if now \<le> etime p0 + windowLength f div 4 then est1 f = p0 \<and> est2 f = p0
      else wf_below (comparator_fn f) p0 (sample (est1 f)) \<and> 0 \<le> comparator_fn f v1 (sample (est1 f)) \<and>
           etime p0 \<le> etime (est2 f) \<and> etime (est2 f) \<le> now)"

definition wf_stage2 :: "'v wf_entry \<Rightarrow> 'v wf_entry \<Rightarrow> 'v \<Rightarrow> int \<Rightarrow> 'v WindowedFilter \<Rightarrow> bool" where
  "wf_stage2 p0 p1 v2 now f \<longleftrightarrow>
     est0 f = p0 \<and> est1 f = p1 \<and>
     (if now \<le> etime p1 + windowLength f div 2 then est2 f = p1
      else wf_below (comparator_fn f) p1 (sample (est2 f)) \<and> 0 \<le> comparator_fn f v2 (sample (est2 f)) \<and>
           etime p1 \<le> etime (est2 f) \<and> etime (est2 f) \<le> now)"

definition wf_stage3 :: "'v wf_entry \<Rightarrow> 'v wf_entry \<Rightarrow> 'v wf_entry \<Rightarrow> int \<Rightarrow> 'v WindowedFilter \<Rightarrow> bool" where
  "wf_stage3 p0 p1 p2 now f \<longleftrightarrow>
     (if now - etime p0 \<le> windowLength f then est0 f = p0 \<and> est1 f = p1 \<and> est2 f = p2
      else if now - etime p1 \<le> windowLength f
      then est0 f = p1 \<and> est1 f = p2 \<and> etime p2 \<le> etime (est2 f) \<and> etime (est2 f) \<le> now
      else est0 f = p2 \<and> etime p2 \<le> etime (est2 f) \<and> etime (est2 f) \<le> now)"

text \<open>What the code expects of a comparison function: a total preorder as a three-way comparison.\<close>

locale comparator =
  fixes cmp :: "'v \<Rightarrow> 'v \<Rightarrow> int"
  assumes cmp_refl: "cmp a a = 0"
    and cmp_anti: "0 \<le> cmp a b \<longleftrightarrow> cmp b a \<le> 0"
    and cmp_trans: "0 \<le> cmp a b \<Longrightarrow> 0 \<le> cmp b c \<Longrightarrow> 0 \<le> cmp a c"
begin

lemma cmp_total: "\<not> 0 \<le> cmp x y \<Longrightarrow> 0 \<le> cmp y x"
  using cmp_anti [of x y] by linarith

lemma ordered_new: "wf_ordered 0 (NewWindowedFilter z wl cmp)"
  by (simp add: wf_ordered_def NewWindowedFilter_def wf_entry_zero_def cmp_refl)

lemma ordered_Reset: "comparator_fn f = cmp \<Longrightarrow> 0 \<le> t \<Longrightarrow> wf_ordered t (wf_Reset x t f)"
  by (simp add: wf_ordered_def wf_Reset_def Let_def cmp_refl)

lemma ordered_Clear: "comparator_fn f = cmp \<Longrightarrow> 0 \<le> t \<Longrightarrow> wf_ordered t (wf_Clear z f)"
  by (simp add: wf_ordered_def wf_Clear_def wf_entry_zero_def cmp_refl)

lemma ordered_Update:
  assumes "comparator_fn f = cmp" "wf_ordered now f" "now \<le> t"
  shows "wf_ordered t (wf_Update z x t f)"
  using assms cmp_refl cmp_total [of x "sample (est0 f)"] cmp_total [of x "sample (est1 f)"]
    cmp_total [of x "sample (est2 f)"] ordered_Reset [of f t x]
  by (auto simp: wf_Update_def Let_def wf_ordered_def)

text \<open>After an update the best estimate is at least the new sample and lies in the window.\<close>

lemma Update_best_ge:
  assumes "comparator_fn f = cmp" "wf_ordered now f"
  shows "0 \<le> cmp (wf_GetBest (wf_Update z x t f)) x"
  using assms cmp_refl cmp_total [of x "sample (est0 f)"] cmp_total [of x "sample (est1 f)"]
    cmp_total [of x "sample (est2 f)"]
  by (auto simp: wf_Update_def wf_Reset_def wf_GetBest_def Let_def wf_ordered_def)

lemma Update_in_window:
  assumes "comparator_fn f = cmp" "wf_ordered now f" "now \<le> t" "t < 2 ^ 64" "0 \<le> windowLength f"
  shows "t - etime (est0 (wf_Update z x t f)) \<le> windowLength f"
  using assms by (auto simp: wf_Update_def wf_Reset_def Let_def wf_ordered_def)

lemma sound_Update:
  assumes "comparator_fn f = cmp" "wf_sound hist f"
  shows "wf_sound (hist @ [(x, t)]) (wf_Update z x t f)"
proof -
  note keep = wf_dominates_keep [where cmp = cmp and hist = hist and x = x and t = t]
  have k: "\<not> 0 \<le> cmp x (sample e) \<Longrightarrow> wf_dominates cmp hist e \<Longrightarrow> wf_dominates cmp (hist @ [(x, t)]) e" for e
    by (rule keep) (simp_all add: cmp_total)
  show ?thesis
    using assms k [of "est0 f"] k [of "est1 f"] k [of "est2 f"] wf_sound_Reset [of hist x t f]
      wf_dominates_new [of cmp hist x t]
    by (auto simp: wf_Update_def wf_sound_def Let_def)
qed

lemma run_invariant:
  assumes "comparator_fn f = cmp" "wf_sound hist f" "wf_ordered now f" "sorted (now # map snd xs)"
    "\<forall>p\<in>set xs. snd p < 2 ^ 64" "0 \<le> windowLength f" "now - etime (est0 f) \<le> windowLength f"
  shows "wf_sound (hist @ xs) (wf_run z f xs) \<and> comparator_fn (wf_run z f xs) = cmp \<and>
    wf_ordered (last (now # map snd xs)) (wf_run z f xs) \<and> windowLength (wf_run z f xs) = windowLength f \<and>
    last (now # map snd xs) - etime (est0 (wf_run z f xs)) \<le> windowLength f"
  using assms
proof (induction xs arbitrary: f hist now)
  case (Cons p xs)
  let ?f = "wf_Update z (fst p) (snd p) f"
  have "wf_sound (hist @ [p]) ?f" using sound_Update [OF Cons.prems(1,2), of "fst p" "snd p" z] by simp
  moreover have "wf_ordered (snd p) ?f"
    using Cons.prems(4) by (intro ordered_Update [OF Cons.prems(1,3)]) simp
  moreover have "snd p - etime (est0 ?f) \<le> windowLength f"
    using Cons.prems by (intro Update_in_window [where now = now]) auto
  ultimately have "wf_sound ((hist @ [p]) @ xs) (wf_run z ?f xs) \<and> comparator_fn (wf_run z ?f xs) = cmp \<and>
    wf_ordered (last (snd p # map snd xs)) (wf_run z ?f xs) \<and>
    windowLength (wf_run z ?f xs) = windowLength ?f \<and>
    last (snd p # map snd xs) - etime (est0 (wf_run z ?f xs)) \<le> windowLength ?f"
    using Cons.prems by (intro Cons.IH) auto
  then show ?case by simp
qed simp

text \<open>The first sample of a fresh filter resets it, whatever the sample.\<close>

lemma Update_new: "wf_Update z x t (NewWindowedFilter z wl cmp) = wf_Reset x t (NewWindowedFilter z wl cmp)"
  by (simp add: wf_Update_def NewWindowedFilter_def wf_entry_zero_def cmp_refl)

lemma run_new:
  assumes "xs \<noteq> []" "sorted (map snd xs)" "\<forall>p\<in>set xs. 0 \<le> snd p \<and> snd p < 2 ^ 64" "0 \<le> wl"
  shows "wf_sound xs (wf_run z (NewWindowedFilter z wl cmp) xs) \<and>
    wf_ordered (last (map snd xs)) (wf_run z (NewWindowedFilter z wl cmp) xs) \<and>
    last (map snd xs) - etime (est0 (wf_run z (NewWindowedFilter z wl cmp) xs)) \<le> wl \<and>
    comparator_fn (wf_run z (NewWindowedFilter z wl cmp) xs) = cmp"
proof -
  obtain p ys where xs: "xs = p # ys" using assms(1) by (cases xs) auto
  let ?f = "wf_Reset (fst p) (snd p) (NewWindowedFilter z wl cmp)"
  have c: "comparator_fn ?f = cmp" "windowLength ?f = wl" by (simp_all add: NewWindowedFilter_def)
  have "wf_sound [p] ?f" using wf_sound_Reset [of "[]" "fst p" "snd p"] by simp
  moreover have "wf_ordered (snd p) ?f"
    using assms(3) xs by (intro ordered_Reset) (simp_all add: NewWindowedFilter_def)
  moreover have "snd p - etime (est0 ?f) \<le> wl" using assms(4) by (simp add: wf_Reset_def)
  ultimately have "wf_sound ([p] @ ys) (wf_run z ?f ys) \<and> comparator_fn (wf_run z ?f ys) = cmp \<and>
    wf_ordered (last (snd p # map snd ys)) (wf_run z ?f ys) \<and>
    windowLength (wf_run z ?f ys) = windowLength ?f \<and>
    last (snd p # map snd ys) - etime (est0 (wf_run z ?f ys)) \<le> windowLength ?f"
    using assms xs c by (intro run_invariant) auto
  with c xs show ?thesis by (simp add: Update_new)
qed

text \<open>Chains of peaks.\<close>

lemma below_trans: "wf_below cmp p x \<Longrightarrow> 0 \<le> cmp x y \<Longrightarrow> wf_below cmp p y"
  unfolding wf_below_def using cmp_trans by blast

lemma below_below: "wf_below cmp p (sample q) \<Longrightarrow> wf_below cmp q x \<Longrightarrow> wf_below cmp p x"
  using below_trans cmp_total unfolding wf_below_def by blast

lemma below_ne: "wf_below cmp p x \<Longrightarrow> cmp x (sample p) \<noteq> 0"
  unfolding wf_below_def by auto

lemma u64_age: "0 \<le> e \<Longrightarrow> e \<le> t \<Longrightarrow> t < 2 ^ 64 \<Longrightarrow> u64 (t - e) = t - e"
  by simp

text \<open>An update that neither resets the estimates nor promotes one.\<close>

lemma Update_fresh:
  assumes "comparator_fn f = cmp" "cmp (sample (est0 f)) z \<noteq> 0" "\<not> 0 \<le> cmp x (sample (est0 f))"
    and "t - etime (est0 f) \<le> windowLength f" "t - etime (est2 f) \<le> windowLength f"
    and "0 \<le> etime (est0 f)" "etime (est0 f) \<le> t" "0 \<le> etime (est2 f)" "etime (est2 f) \<le> t" "t < 2 ^ 64"
    and "cmp (sample (est1 f)) (sample (est0 f)) \<noteq> 0" "0 \<le> windowLength f"
  shows "wf_Update z x t f =
    (if 0 \<le> cmp x (sample (est1 f)) then f\<lparr>est1 := \<lparr>sample = x, etime = t\<rparr>, est2 := \<lparr>sample = x, etime = t\<rparr>\<rparr>
     else if 0 \<le> cmp x (sample (est2 f)) \<or>
       cmp (sample (est2 f)) (sample (est1 f)) = 0 \<and> windowLength f div 2 < t - etime (est2 f)
     then f\<lparr>est2 := \<lparr>sample = x, etime = t\<rparr>\<rparr> else f)"
proof -
  have "u64 (t - etime (est0 f)) = t - etime (est0 f)" "u64 (t - etime (est2 f)) = t - etime (est2 f)"
    using assms by (intro u64_age; simp)+
  moreover have "cmp x (sample (est0 f)) \<noteq> 0" using assms(3) by linarith
  moreover have "u64 (t - t) = 0" by simp
  moreover have "\<not> windowLength f div 2 < 0" using assms(12) by simp
  ultimately show ?thesis
    using assms(1-5,11) by (simp add: wf_Update_def Let_def)
qed
lemma stage1_Update:
  assumes f: "comparator_fn f = cmp" "0 \<le> windowLength f" and p0: "cmp (sample p0) z \<noteq> 0" "0 \<le> etime p0"
    and st: "wf_stage1 p0 v1 now f" and t: "etime p0 \<le> now" "now \<le> t" "t \<le> etime p0 + windowLength f" "t < 2 ^ 64"
    and x: "wf_below cmp p0 x" "t \<le> etime p0 + windowLength f div 4 \<or> 0 \<le> cmp v1 x"
  shows "wf_stage1 p0 v1 t (wf_Update z x t f)"
proof (cases "now \<le> etime p0 + windowLength f div 4")
  case True
  then have e: "est0 f = p0" "est1 f = p0" "est2 f = p0" using st by (simp_all add: wf_stage1_def)
  have "u64 (t - etime p0) = t - etime p0" using p0 t by (intro u64_age) auto
  then show ?thesis
    using f p0 t x below_ne [OF x(1)]
    by (auto simp: wf_Update_def e wf_stage1_def Let_def cmp_refl wf_below_def)
next
  case False
  then have e: "est0 f = p0" "wf_below cmp p0 (sample (est1 f))" "0 \<le> cmp v1 (sample (est1 f))"
      "etime p0 \<le> etime (est2 f)" "etime (est2 f) \<le> now" using st f(1) by (simp_all add: wf_stage1_def)
  have x': "0 \<le> cmp v1 x" "\<not> t \<le> etime p0 + windowLength f div 4" using False x(2) t(2) by auto
  have "\<not> 0 \<le> cmp x (sample p0)" using x(1) by (simp add: wf_below_def)
  then have "wf_Update z x t f =
    (if 0 \<le> cmp x (sample (est1 f)) then f\<lparr>est1 := \<lparr>sample = x, etime = t\<rparr>, est2 := \<lparr>sample = x, etime = t\<rparr>\<rparr>
     else if 0 \<le> cmp x (sample (est2 f)) \<or>
       cmp (sample (est2 f)) (sample (est1 f)) = 0 \<and> windowLength f div 2 < t - etime (est2 f)
     then f\<lparr>est2 := \<lparr>sample = x, etime = t\<rparr>\<rparr> else f)"
    using e f p0 t below_ne [OF e(2)] by (intro Update_fresh) simp_all
  moreover have "etime p0 \<le> t" "etime (est2 f) \<le> t" using t e(5) by simp_all
  ultimately show ?thesis
    using e x(1) x' f(1) by (simp add: wf_stage1_def)
qed

lemma stage2_Update:
  assumes f: "comparator_fn f = cmp" "0 \<le> windowLength f" and p0: "cmp (sample p0) z \<noteq> 0" "0 \<le> etime p0"
    and p1: "wf_below cmp p0 (sample p1)" "etime p0 \<le> etime p1"
    and st: "wf_stage2 p0 p1 v2 now f" and t: "etime p1 \<le> now" "now \<le> t" "t \<le> etime p0 + windowLength f" "t < 2 ^ 64"
    and x: "wf_below cmp p1 x" "t \<le> etime p1 + windowLength f div 2 \<or> 0 \<le> cmp v2 x"
  shows "wf_stage2 p0 p1 v2 t (wf_Update z x t f)"
proof -
  have e: "est0 f = p0" "est1 f = p1" using st by (simp_all add: wf_stage2_def)
  have x0: "\<not> 0 \<le> cmp x (sample p0)" and x1: "\<not> 0 \<le> cmp x (sample p1)"
    using below_below [OF p1(1) x(1)] x(1) by (simp_all add: wf_below_def)
  show ?thesis
  proof (cases "now \<le> etime p1 + windowLength f div 2")
    case True
    then have e2: "est2 f = p1" using st by (simp add: wf_stage2_def)
    have "u64 (t - etime p0) = t - etime p0" "u64 (t - etime p1) = t - etime p1"
      using p0 p1 t by (intro u64_age; simp)+
    then show ?thesis
      using f p0 p1 t x below_ne [OF p1(1)] x0 x1
      by (auto simp: wf_Update_def e e2 wf_stage2_def Let_def cmp_refl)
  next
    case False
    then have e2: "wf_below cmp p1 (sample (est2 f))" "0 \<le> cmp v2 (sample (est2 f))"
        "etime p1 \<le> etime (est2 f)" "etime (est2 f) \<le> now" using st f(1) by (simp_all add: wf_stage2_def)
    have x': "0 \<le> cmp v2 x" "\<not> t \<le> etime p1 + windowLength f div 2" using False x(2) t(2) by auto
    have "wf_Update z x t f =
      (if 0 \<le> cmp x (sample (est1 f)) then f\<lparr>est1 := \<lparr>sample = x, etime = t\<rparr>, est2 := \<lparr>sample = x, etime = t\<rparr>\<rparr>
       else if 0 \<le> cmp x (sample (est2 f)) \<or>
         cmp (sample (est2 f)) (sample (est1 f)) = 0 \<and> windowLength f div 2 < t - etime (est2 f)
       then f\<lparr>est2 := \<lparr>sample = x, etime = t\<rparr>\<rparr> else f)"
      using e e2 f p0 p1 t x0 below_ne [OF p1(1)] by (intro Update_fresh) simp_all
    moreover have "etime p1 \<le> t" "etime (est2 f) \<le> t" using t e2(4) by simp_all
    ultimately show ?thesis
      using e e2 x(1) x1 x' f(1) by (simp add: wf_stage2_def)
  qed
qed

lemma stage3_Update:
  assumes f: "comparator_fn f = cmp" "0 \<le> windowLength f"
    and z: "cmp (sample p0) z \<noteq> 0" "cmp (sample p1) z \<noteq> 0" "cmp (sample p2) z \<noteq> 0"
    and p: "wf_below cmp p0 (sample p1)" "wf_below cmp p1 (sample p2)"
      "0 \<le> etime p0" "etime p0 \<le> etime p1" "etime p1 \<le> etime p2"
    and st: "wf_stage3 p0 p1 p2 now f" and t: "etime p2 \<le> now" "now \<le> t" "t \<le> etime p2 + windowLength f" "t < 2 ^ 64"
    and x: "wf_below cmp p2 x"
  shows "wf_stage3 p0 p1 p2 t (wf_Update z x t f)"
proof -
  have x2: "\<not> 0 \<le> cmp x (sample p2)" and x1: "\<not> 0 \<le> cmp x (sample p1)" and x0: "\<not> 0 \<le> cmp x (sample p0)"
    using x below_below [OF p(2) x] below_below [OF p(1) below_below [OF p(2) x]] by (simp_all add: wf_below_def)
  have ages: "u64 (t - etime p0) = t - etime p0" "u64 (t - etime p1) = t - etime p1" "u64 (t - etime p2) = t - etime p2"
    using p t by (intro u64_age; simp)+
  note ne = below_ne [OF p(1)] below_ne [OF p(2)]
  consider (first) "now - etime p0 \<le> windowLength f"
    | (second) "\<not> now - etime p0 \<le> windowLength f" "now - etime p1 \<le> windowLength f"
    | (third) "\<not> now - etime p0 \<le> windowLength f" "\<not> now - etime p1 \<le> windowLength f" by blast
  then show ?thesis
  proof cases
    case first
    then have e: "est0 f = p0" "est1 f = p1" "est2 f = p2" using st by (simp_all add: wf_stage3_def)
    have in2: "t - etime p2 \<le> windowLength f" "\<not> windowLength f div 4 < 0" using t f(2) by simp_all
    show ?thesis
    proof (cases "t - etime p0 \<le> windowLength f")
      case True
      then have "wf_Update z x t f = f\<lparr>est2 := p2\<rparr>"
        using e f z(1) p(3-5) t x0 x1 x2 ages ne in2 by (subst Update_fresh) simp_all
      with True e show ?thesis by (simp add: wf_stage3_def)
    next
      case False
      then have "est0 (wf_Update z x t f) = (if t - etime p1 \<le> windowLength f then p1 else p2) \<and>
          est1 (wf_Update z x t f) = (if t - etime p1 \<le> windowLength f then p2 else \<lparr>sample = x, etime = t\<rparr>) \<and>
          etime (est2 (wf_Update z x t f)) = t"
        using f(1) z(1) x0 x1 x2 ages in2(1) e by (simp add: wf_Update_def Let_def)
      moreover have "etime p2 \<le> t" using t by simp
      ultimately show ?thesis using False by (simp add: wf_stage3_def)
    qed
  next
    case second
    then have e: "est0 f = p1" "est1 f = p2" "etime p2 \<le> etime (est2 f)" "etime (est2 f) \<le> now"
      using st by (simp_all add: wf_stage3_def)
    have age2: "u64 (t - etime (est2 f)) = t - etime (est2 f)" using e p t by (intro u64_age) auto
    show ?thesis
    proof (cases "t - etime p1 \<le> windowLength f")
      case True
      have "wf_Update z x t f =
        (if 0 \<le> cmp x (sample (est1 f)) then f\<lparr>est1 := \<lparr>sample = x, etime = t\<rparr>, est2 := \<lparr>sample = x, etime = t\<rparr>\<rparr>
         else if 0 \<le> cmp x (sample (est2 f)) \<or>
           cmp (sample (est2 f)) (sample (est1 f)) = 0 \<and> windowLength f div 2 < t - etime (est2 f)
         then f\<lparr>est2 := \<lparr>sample = x, etime = t\<rparr>\<rparr> else f)"
        using True e f z(2) p(3-5) t x1 ne(2) by (intro Update_fresh) simp_all
      moreover have "\<not> t - etime p0 \<le> windowLength f" "etime p2 \<le> t" "etime (est2 f) \<le> t"
        using second(1) t e(4) by simp_all
      ultimately show ?thesis using True e x2 by (simp add: wf_stage3_def)
    next
      case False
      have "\<not> t - etime p0 \<le> windowLength f" "t - etime (est2 f) \<le> windowLength f" "t - etime p2 \<le> windowLength f"
        "etime p2 \<le> t" using second(1) t e(3) by simp_all
      moreover have "est0 (wf_Update z x t f) = p2 \<and>
          (etime (est2 (wf_Update z x t f)) = t \<or> etime (est2 (wf_Update z x t f)) = etime (est2 f))"
        using calculation(2,3) False f(1) z(2) x1 x2 ages(2,3) age2 e(1,2)
        by (simp add: wf_Update_def Let_def)
      ultimately show ?thesis using False e(3,4) t(2) unfolding wf_stage3_def by auto
    qed
  next
    case third
    then have e: "est0 f = p2" "etime p2 \<le> etime (est2 f)" "etime (est2 f) \<le> now"
      using st by (simp_all add: wf_stage3_def)
    have age2: "u64 (t - etime (est2 f)) = t - etime (est2 f)" using e p t by (intro u64_age) auto
    have "t - etime (est2 f) \<le> windowLength f" "t - etime p2 \<le> windowLength f" using t e(2) by simp_all
    then have "est0 (wf_Update z x t f) = p2 \<and>
        (etime (est2 (wf_Update z x t f)) = t \<or> etime (est2 (wf_Update z x t f)) = etime (est2 f))"
      using f(1) z(3) x2 ages(3) age2 e(1) by (simp add: wf_Update_def Let_def)
    moreover have "\<not> t - etime p0 \<le> windowLength f" "\<not> t - etime p1 \<le> windowLength f" "etime p2 \<le> t"
      using third t by simp_all
    ultimately show ?thesis using e(2,3) t(2) unfolding wf_stage3_def by auto
  qed
qed

text \<open>The arrival of the peaks.\<close>

lemma peak0:
  assumes f: "comparator_fn f = cmp" "0 \<le> windowLength f" "wf_ordered now f" and t: "now \<le> t" "t < 2 ^ 64"
    and x: "\<And>e. e \<in> {est0 f, est1 f, est2 f} \<Longrightarrow> t - etime e \<le> windowLength f \<Longrightarrow> 0 \<le> cmp x (sample e)"
  shows "wf_stage1 \<lparr>sample = x, etime = t\<rparr> v1 t (wf_Update z x t f)"
proof -
  have ages: "u64 (t - etime (est0 f)) = t - etime (est0 f)" "u64 (t - etime (est1 f)) = t - etime (est1 f)"
      "u64 (t - etime (est2 f)) = t - etime (est2 f)"
    using f(3) t by (intro u64_age; simp add: wf_ordered_def)+
  consider (reset) "0 \<le> cmp x (sample (est0 f)) \<or> windowLength f < t - etime (est2 f) \<or> cmp (sample (est0 f)) z = 0"
    | (old) "\<not> 0 \<le> cmp x (sample (est0 f))" "\<not> windowLength f < t - etime (est2 f)" "cmp (sample (est0 f)) z \<noteq> 0"
    by blast
  then have "est0 (wf_Update z x t f) = \<lparr>sample = x, etime = t\<rparr> \<and> est1 (wf_Update z x t f) = \<lparr>sample = x, etime = t\<rparr> \<and>
      est2 (wf_Update z x t f) = \<lparr>sample = x, etime = t\<rparr>"
  proof cases
    case reset
    then have "wf_Update z x t f = wf_Reset x t f"
      unfolding wf_Update_def Let_def f(1) ages(3) by (intro if_P) blast
    then show ?thesis by (simp add: wf_Reset_def)
  next
    case old
    then have "windowLength f < t - etime (est0 f)" using x [of "est0 f"] by (auto simp flip: not_le)
    moreover have "0 \<le> cmp x (sample (est2 f))" using old x [of "est2 f"] by auto
    moreover have "0 \<le> cmp x (sample (est1 f)) \<or> windowLength f < t - etime (est1 f)"
      using x [of "est1 f"] by (auto simp flip: not_le)
    ultimately show ?thesis using old f(1,2) ages by (auto simp: wf_Update_def Let_def)
  qed
  moreover have "0 \<le> windowLength f div 4" using f(2) by simp
  ultimately show ?thesis by (simp add: wf_stage1_def)
qed

lemma peak1:
  assumes f: "comparator_fn f = cmp" "0 \<le> windowLength f" and p0: "cmp (sample p0) z \<noteq> 0" "0 \<le> etime p0"
    and st: "wf_stage1 p0 v1 now f" and x: "wf_below cmp p0 v1"
    and t: "etime p0 \<le> now" "now \<le> t" "t \<le> etime p0 + windowLength f" "t < 2 ^ 64" "etime p0 + windowLength f div 4 < t"
  shows "wf_stage2 p0 \<lparr>sample = v1, etime = t\<rparr> v2 t (wf_Update z v1 t f)"
proof (cases "now \<le> etime p0 + windowLength f div 4")
  case True
  then have e: "est0 f = p0" "est1 f = p0" "est2 f = p0" using st by (simp_all add: wf_stage1_def)
  have "u64 (t - etime p0) = t - etime p0" using p0 t by (intro u64_age) auto
  then show ?thesis
    using f p0 t below_ne [OF x] x
    by (auto simp: wf_Update_def e wf_stage2_def Let_def cmp_refl wf_below_def)
next
  case False
  then have e: "est0 f = p0" "wf_below cmp p0 (sample (est1 f))" "0 \<le> cmp v1 (sample (est1 f))"
      "etime p0 \<le> etime (est2 f)" "etime (est2 f) \<le> now" using st f(1) by (simp_all add: wf_stage1_def)
  have "\<not> 0 \<le> cmp v1 (sample p0)" using x by (simp add: wf_below_def)
  then have "wf_Update z v1 t f = f\<lparr>est1 := \<lparr>sample = v1, etime = t\<rparr>, est2 := \<lparr>sample = v1, etime = t\<rparr>\<rparr>"
    using e f p0 t below_ne [OF e(2)] by (subst Update_fresh) simp_all
  then show ?thesis using e f(2) by (simp add: wf_stage2_def)
qed

lemma peak2:
  assumes f: "comparator_fn f = cmp" "0 \<le> windowLength f" and p0: "cmp (sample p0) z \<noteq> 0" "0 \<le> etime p0"
    and p1: "wf_below cmp p0 (sample p1)" "etime p0 \<le> etime p1"
    and st: "wf_stage2 p0 p1 v2 now f" and x: "wf_below cmp p1 v2"
    and t: "etime p1 \<le> now" "now \<le> t" "t \<le> etime p0 + windowLength f" "t < 2 ^ 64" "etime p1 + windowLength f div 2 < t"
  shows "wf_stage3 p0 p1 \<lparr>sample = v2, etime = t\<rparr> t (wf_Update z v2 t f)"
proof -
  have e: "est0 f = p0" "est1 f = p1" using st by (simp_all add: wf_stage2_def)
  have x0: "\<not> 0 \<le> cmp v2 (sample p0)" and x1: "\<not> 0 \<le> cmp v2 (sample p1)"
    using below_below [OF p1(1) x] x by (simp_all add: wf_below_def)
  have "etime p1 \<le> etime (est2 f) \<and> etime (est2 f) \<le> now \<and>
      (est2 f = p1 \<or> 0 \<le> cmp v2 (sample (est2 f)))"
    using st t(1) f(1) by (auto simp: wf_stage2_def split: if_splits)
  moreover from this have "0 \<le> cmp v2 (sample (est2 f)) \<or>
      cmp (sample (est2 f)) (sample p1) = 0 \<and> windowLength f div 2 < t - etime (est2 f)"
    using t(5) by (auto simp: cmp_refl)
  ultimately have "wf_Update z v2 t f = f\<lparr>est2 := \<lparr>sample = v2, etime = t\<rparr>\<rparr>"
    using e f p0 p1 t x0 x1 below_ne [OF p1(1)] by (subst Update_fresh) simp_all
  then show ?thesis using e t(3) by (simp add: wf_stage3_def)
qed

text \<open>The samples between the peaks.\<close>

lemma stage1_run:
  assumes "comparator_fn f = cmp" "0 \<le> windowLength f" "cmp (sample p0) z \<noteq> 0" "0 \<le> etime p0" "wf_stage1 p0 v1 now f"
    and "etime p0 \<le> now" "sorted (now # map snd xs)"
    and "\<forall>p\<in>set xs. wf_below cmp p0 (fst p) \<and> snd p \<le> etime p0 + windowLength f \<and> snd p < 2 ^ 64 \<and>
      (snd p \<le> etime p0 + windowLength f div 4 \<or> 0 \<le> cmp v1 (fst p))"
  shows "wf_stage1 p0 v1 (last (now # map snd xs)) (wf_run z f xs)"
  using assms
proof (induction xs arbitrary: f now)
  case (Cons p xs)
  have "wf_stage1 p0 v1 (snd p) (wf_Update z (fst p) (snd p) f)"
    using Cons.prems by (intro stage1_Update [where now = now]) auto
  then have "wf_stage1 p0 v1 (last (snd p # map snd xs)) (wf_run z (wf_Update z (fst p) (snd p) f) xs)"
    using Cons.prems by (intro Cons.IH) auto
  then show ?case by simp
qed simp

lemma stage2_run:
  assumes "comparator_fn f = cmp" "0 \<le> windowLength f" "cmp (sample p0) z \<noteq> 0" "0 \<le> etime p0"
    and "wf_below cmp p0 (sample p1)" "etime p0 \<le> etime p1" "wf_stage2 p0 p1 v2 now f"
    and "etime p1 \<le> now" "sorted (now # map snd xs)"
    and "\<forall>p\<in>set xs. wf_below cmp p1 (fst p) \<and> snd p \<le> etime p0 + windowLength f \<and> snd p < 2 ^ 64 \<and>
      (snd p \<le> etime p1 + windowLength f div 2 \<or> 0 \<le> cmp v2 (fst p))"
  shows "wf_stage2 p0 p1 v2 (last (now # map snd xs)) (wf_run z f xs)"
  using assms
proof (induction xs arbitrary: f now)
  case (Cons p xs)
  have "wf_stage2 p0 p1 v2 (snd p) (wf_Update z (fst p) (snd p) f)"
    using Cons.prems by (intro stage2_Update [where now = now]) auto
  then have "wf_stage2 p0 p1 v2 (last (snd p # map snd xs)) (wf_run z (wf_Update z (fst p) (snd p) f) xs)"
    using Cons.prems by (intro Cons.IH) auto
  then show ?case by simp
qed simp

lemma stage3_run:
  assumes "comparator_fn f = cmp" "0 \<le> windowLength f"
    and "cmp (sample p0) z \<noteq> 0" "cmp (sample p1) z \<noteq> 0" "cmp (sample p2) z \<noteq> 0"
    and "wf_below cmp p0 (sample p1)" "wf_below cmp p1 (sample p2)"
    and "0 \<le> etime p0" "etime p0 \<le> etime p1" "etime p1 \<le> etime p2" "wf_stage3 p0 p1 p2 now f"
    and "etime p2 \<le> now" "sorted (now # map snd xs)"
    and "\<forall>p\<in>set xs. wf_below cmp p2 (fst p) \<and> snd p \<le> etime p2 + windowLength f \<and> snd p < 2 ^ 64"
  shows "wf_stage3 p0 p1 p2 (last (now # map snd xs)) (wf_run z f xs)"
  using assms
proof (induction xs arbitrary: f now)
  case (Cons p xs)
  have "wf_stage3 p0 p1 p2 (snd p) (wf_Update z (fst p) (snd p) f)"
    using Cons.prems by (intro stage3_Update [where now = now]) auto
  then have "wf_stage3 p0 p1 p2 (last (snd p # map snd xs)) (wf_run z (wf_Update z (fst p) (snd p) f) xs)"
    using Cons.prems by (intro Cons.IH) auto
  then show ?case by simp
qed simp

text \<open>A sample that is the best of its window starts the first stage.\<close>

lemma peak0_run:
  assumes "sorted (map snd pre @ [t])" "\<forall>p\<in>set pre. 0 \<le> snd p \<and> snd p < 2 ^ 64" "0 \<le> wl" "0 \<le> t" "t < 2 ^ 64"
    and "\<forall>p\<in>set pre. t - snd p \<le> wl \<longrightarrow> 0 \<le> cmp x (fst p)"
    and f: "f = wf_run z (NewWindowedFilter z wl cmp) (pre @ [(x, t)])"
  shows "wf_stage1 \<lparr>sample = x, etime = t\<rparr> v1 t f \<and> comparator_fn f = cmp \<and> windowLength f = wl"
proof (cases "pre = []")
  case True
  then have "f = wf_Reset x t (NewWindowedFilter z wl cmp)" by (simp add: f Update_new)
  moreover have "0 \<le> wl div 4" using assms(3) by simp
  ultimately show ?thesis by (simp add: wf_stage1_def wf_Reset_def NewWindowedFilter_def)
next
  case False
  let ?g = "wf_run z (NewWindowedFilter z wl cmp) pre"
  have g: "wf_sound pre ?g" "wf_ordered (last (map snd pre)) ?g" "comparator_fn ?g = cmp" "windowLength ?g = wl"
    using run_new [OF False, of wl z] assms(1-3) by (simp_all add: sorted_append NewWindowedFilter_def)
  have "(sample e, etime e) \<in> set pre" if "e \<in> {est0 ?g, est1 ?g, est2 ?g}" for e
    using g(1) that wf_dominates_pair unfolding wf_sound_def by blast
  then have best: "0 \<le> cmp x (sample e)"
    if "e \<in> {est0 ?g, est1 ?g, est2 ?g}" "t - etime e \<le> windowLength ?g" for e
    using assms(6) that g(4) by fastforce
  have "last (map snd pre) \<le> t" using assms(1) False by (simp add: sorted_append last_map)
  then have "wf_stage1 \<lparr>sample = x, etime = t\<rparr> v1 t (wf_Update z x t ?g)"
    using peak0 [OF g(3) _ g(2) _ assms(5) best] assms(3) g(4) by simp
  moreover have "f = wf_Update z x t ?g" by (simp add: f)
  ultimately show ?thesis using g(3,4) by simp
qed

text \<open>A stream with one peak, and with three.\<close>

lemma one_peak:
  assumes xs: "xs = pre @ (v, t) # mid" and times: "sorted (map snd xs)" "\<forall>p\<in>set xs. 0 \<le> snd p \<and> snd p < 2 ^ 64" "0 \<le> wl"
    and "cmp v z \<noteq> 0" "\<forall>p\<in>set pre. t - snd p \<le> wl \<longrightarrow> 0 \<le> cmp v (fst p)" "\<forall>p\<in>set mid. \<not> 0 \<le> cmp (fst p) v"
    and "snd (last xs) \<le> t + wl"
  shows "est0 (wf_run z (NewWindowedFilter z wl cmp) xs) = \<lparr>sample = v, etime = t\<rparr>"
proof -
  let ?f = "wf_run z (NewWindowedFilter z wl cmp) (pre @ [(v, t)])" and ?p = "\<lparr>sample = v, etime = t\<rparr>"
  have f: "wf_stage1 ?p v t ?f" "comparator_fn ?f = cmp" "windowLength ?f = wl"
    using peak0_run [of pre t wl v ?f z v] assms by (auto simp: sorted_append)
  have late: "snd p \<le> t + wl" if "p \<in> set mid" for p
  proof -
    have "snd p \<le> snd (last xs)"
      using that times(1) unfolding xs by (cases mid rule: rev_cases) (auto simp: sorted_append)
    with assms(8) show ?thesis by simp
  qed
  have "wf_stage1 ?p v (last (t # map snd mid)) (wf_run z ?f mid)"
    using f assms late by (intro stage1_run) (auto simp: sorted_append wf_below_def cmp_total)
  then show ?thesis by (simp add: xs wf_stage1_def)
qed

lemma three_peaks:
  assumes xs: "xs = pre @ (v0, t0) # mid1 @ (v1, t1) # mid2 @ (v2, t2) # post"
    and times: "sorted (map snd xs)" "\<forall>p\<in>set xs. 0 \<le> snd p \<and> snd p < 2 ^ 64" "0 \<le> wl"
    and z: "cmp v0 z \<noteq> 0" "cmp v1 z \<noteq> 0" "cmp v2 z \<noteq> 0" and vs: "\<not> 0 \<le> cmp v1 v0" "\<not> 0 \<le> cmp v2 v1"
    and pre: "\<forall>p\<in>set pre. t0 - snd p \<le> wl \<longrightarrow> 0 \<le> cmp v0 (fst p)"
    and mid1: "\<forall>p\<in>set mid1. \<not> 0 \<le> cmp (fst p) v0 \<and> (snd p \<le> t0 + wl div 4 \<or> 0 \<le> cmp v1 (fst p))"
    and mid2: "\<forall>p\<in>set mid2. \<not> 0 \<le> cmp (fst p) v1 \<and> (snd p \<le> t1 + wl div 2 \<or> 0 \<le> cmp v2 (fst p))"
    and post: "\<forall>p\<in>set post. \<not> 0 \<le> cmp (fst p) v2"
    and ts: "t0 + wl div 4 < t1" "t1 + wl div 2 < t2" "t2 \<le> t0 + wl" "snd (last xs) \<le> t2 + wl"
  shows "wf_stage3 \<lparr>sample = v0, etime = t0\<rparr> \<lparr>sample = v1, etime = t1\<rparr> \<lparr>sample = v2, etime = t2\<rparr> (snd (last xs))
    (wf_run z (NewWindowedFilter z wl cmp) xs)"
proof -
  let ?p0 = "\<lparr>sample = v0, etime = t0\<rparr>" and ?p1 = "\<lparr>sample = v1, etime = t1\<rparr>" and ?p2 = "\<lparr>sample = v2, etime = t2\<rparr>"
  define f0 where "f0 = wf_run z (NewWindowedFilter z wl cmp) (pre @ [(v0, t0)])"
  define f1 where "f1 = wf_run z f0 mid1"
  define f2 where "f2 = wf_run z (wf_Update z v1 t1 f1) mid2"
  have wl: "wl div 4 \<ge> 0" "wl div 2 \<ge> 0" using times(3) by simp_all
  have late: "snd p \<le> t2 + wl" if "p \<in> set post" for p
  proof -
    have "snd p \<le> snd (last xs)"
      using that times(1) unfolding xs by (cases post rule: rev_cases) (auto simp: sorted_append)
    with ts(4) show ?thesis by simp
  qed
  have srt: "sorted (map snd pre @ [t0])" "sorted (t0 # map snd mid1)" "sorted (t1 # map snd mid2)" "sorted (t2 # map snd post)"
      "last (t0 # map snd mid1) \<le> t1" "last (t1 # map snd mid2) \<le> t2" "t0 \<le> last (t0 # map snd mid1)" "t1 \<le> last (t1 # map snd mid2)"
      "\<forall>p\<in>set mid1. snd p \<le> t2" "\<forall>p\<in>set mid2. snd p \<le> t2"
    using times(1) unfolding xs by (auto simp: sorted_append last_map)
  have bnd: "0 \<le> t0" "0 \<le> t1" "t0 \<le> t1" "t1 \<le> t2" "t2 < 2 ^ 64" "t1 < 2 ^ 64" "t0 < 2 ^ 64"
    using times(2) ts wl unfolding xs by auto
  have b: "wf_below cmp ?p0 v1" "wf_below cmp ?p1 v2" using vs by (simp_all add: wf_below_def)
  have f0: "wf_stage1 ?p0 v1 t0 f0" "comparator_fn f0 = cmp" "windowLength f0 = wl"
    using peak0_run [OF srt(1) _ times(3) bnd(1,7) pre f0_def, of v1] times(2) xs by auto
  have "wf_stage1 ?p0 v1 (last (t0 # map snd mid1)) f1"
    unfolding f1_def using f0 z(1) bnd srt ts(3) times(2,3) mid1 xs
    by (intro stage1_run) (auto simp: wf_below_def)
  then have "wf_stage2 ?p0 ?p1 v2 t1 (wf_Update z v1 t1 f1)"
    using f0 z(1) bnd srt ts times(3) b(1) by (intro peak1 [where now = "last (t0 # map snd mid1)"]) (auto simp: f1_def)
  then have "wf_stage2 ?p0 ?p1 v2 (last (t1 # map snd mid2)) f2"
    unfolding f2_def using f0 z(1) bnd srt ts(3) times(2,3) mid2 xs b(1)
    by (intro stage2_run) (auto simp: wf_below_def f1_def)
  then have "wf_stage3 ?p0 ?p1 ?p2 t2 (wf_Update z v2 t2 f2)"
    using f0 z(1) bnd srt ts times(3) b
    by (intro peak2 [where now = "last (t1 # map snd mid2)"]) (auto simp: f1_def f2_def)
  then have "wf_stage3 ?p0 ?p1 ?p2 (last (t2 # map snd post)) (wf_run z (wf_Update z v2 t2 f2) post)"
    using f0 z bnd srt ts times(2,3) b post late xs
    by (intro stage3_run) (auto simp: wf_below_def f1_def f2_def)
  moreover have "last (t2 # map snd post) = snd (last xs)" by (simp add: xs last_map)
  moreover have "wf_run z (wf_Update z v2 t2 f2) post = wf_run z (NewWindowedFilter z wl cmp) xs"
    by (simp add: xs f0_def f1_def f2_def)
  ultimately show ?thesis by simp
qed

end

interpretation max_filter: comparator "MaxFilter :: 'o::linorder \<Rightarrow> 'o \<Rightarrow> int"
  by unfold_locales (auto simp: MaxFilter_def split: if_splits)

interpretation min_filter: comparator "MinFilter :: 'o::linorder \<Rightarrow> 'o \<Rightarrow> int"
  by unfold_locales (auto simp: MinFilter_def split: if_splits)

lemma MaxFilter_ge [simp]: "0 \<le> MaxFilter a b \<longleftrightarrow> b \<le> a"
  by (auto simp: MaxFilter_def)

lemma MinFilter_ge [simp]: "0 \<le> MinFilter a b \<longleftrightarrow> a \<le> b"
  by (auto simp: MinFilter_def)

subsection \<open>Properties\<close>

text \<open>
  Fed with any non-empty stream of samples whose round numbers do not decrease, a fresh maximum
  filter answers with a sample of the stream that no later sample exceeds and that is at most one window
  old; the second and third best are samples of the stream too, each at most the one before it.
\<close>

lemma max_filter_window:
  fixes xs :: "('o :: linorder \<times> int) list"
  assumes "xs \<noteq> []" "sorted (map snd xs)" "\<forall>p\<in>set xs. 0 \<le> snd p \<and> snd p < 2 ^ 64" "0 \<le> wl"
    and f: "f = wf_run z (NewWindowedFilter z wl MaxFilter) xs"
  shows "(\<exists>pre t post. xs = pre @ (wf_GetBest f, t) # post \<and> (\<forall>y\<in>set post. fst y \<le> wf_GetBest f) \<and>
      snd (last xs) - t \<le> wl) \<and>
    {wf_GetSecondBest f, wf_GetThirdBest f} \<subseteq> fst ` set xs \<and>
    wf_GetThirdBest f \<le> wf_GetSecondBest f \<and> wf_GetSecondBest f \<le> wf_GetBest f"
proof (intro conjI)
  have run: "wf_sound xs f" "wf_ordered (last (map snd xs)) f" "last (map snd xs) - etime (est0 f) \<le> wl"
    "comparator_fn f = MaxFilter"
    using max_filter.run_new [OF assms(1-4), of z] by (simp_all add: f)
  show "\<exists>pre t post. xs = pre @ (wf_GetBest f, t) # post \<and> (\<forall>y\<in>set post. fst y \<le> wf_GetBest f) \<and>
      snd (last xs) - t \<le> wl"
    using run(1,3,4) assms(1) by (auto simp: wf_sound_def wf_dominates_def wf_GetBest_def last_map)
  show "{wf_GetSecondBest f, wf_GetThirdBest f} \<subseteq> fst ` set xs"
    using wf_dominates_in [of _ xs "est1 f"] wf_dominates_in [of _ xs "est2 f"] run(1)
    by (auto simp: wf_sound_def wf_GetSecondBest_def wf_GetThirdBest_def)
  show "wf_GetThirdBest f \<le> wf_GetSecondBest f" "wf_GetSecondBest f \<le> wf_GetBest f"
    using run(2,4) by (simp_all add: wf_ordered_def wf_GetBest_def wf_GetSecondBest_def wf_GetThirdBest_def)
qed

text \<open>
  A sample that is the maximum of the window before it is the answer as long as it is at most one window old and no later
  sample reaches it.
\<close>

lemma max_filter_kept:
  fixes xs :: "('o :: linorder \<times> int) list"
  assumes "xs = pre @ (v, t) # later" "sorted (map snd xs)" "\<forall>p\<in>set xs. 0 \<le> snd p \<and> snd p < 2 ^ 64" "0 \<le> wl"
    and "v \<noteq> z" "\<forall>p\<in>set pre. t - snd p \<le> wl \<longrightarrow> fst p \<le> v" "\<forall>p\<in>set later. fst p < v" "snd (last xs) \<le> t + wl"
  shows "wf_GetBest (wf_run z (NewWindowedFilter z wl MaxFilter) xs) = v"
proof -
  have "MaxFilter v z \<noteq> 0" using assms(5) by (simp add: MaxFilter_def)
  then have "est0 (wf_run z (NewWindowedFilter z wl MaxFilter) xs) = \<lparr>sample = v, etime = t\<rparr>"
    using assms by (intro max_filter.one_peak [of xs pre v t later]) auto
  then show ?thesis by (simp add: wf_GetBest_def)
qed

text \<open>
  C20: what a fresh maximum filter answers when the maxima age.  In a stream with round numbers that do not decrease, let
  \<open>v0\<close> be the maximum of the window before it, and all that follows smaller; \<open>v1\<close> the first or the largest sample more than a quarter of
  the window after \<open>v0\<close>; \<open>v2\<close> the first or the largest sample more than half a window after \<open>v1\<close>, while \<open>v0\<close> is still in the
  window; and let what follows be smaller.  Then, as long as \<open>v2\<close> is in the window, the answer is exactly the best of the three that
  has not left the window; and while \<open>v0\<close> has not, \<open>v1\<close> and \<open>v2\<close> are the second and the third best.
\<close>

theorem max_filter_peaks:
  fixes xs :: "('o :: linorder \<times> int) list"
  assumes "xs = pre @ (v0, t0) # mid1 @ (v1, t1) # mid2 @ (v2, t2) # post"
    and "sorted (map snd xs)" "\<forall>p\<in>set xs. 0 \<le> snd p \<and> snd p < 2 ^ 64" "0 \<le> wl"
    and "z \<notin> {v0, v1, v2}" "v1 < v0" "v2 < v1"
    and "\<forall>p\<in>set pre. t0 - snd p \<le> wl \<longrightarrow> fst p \<le> v0"
    and "\<forall>p\<in>set mid1. fst p < v0 \<and> (t0 + wl div 4 < snd p \<longrightarrow> fst p \<le> v1)"
    and "\<forall>p\<in>set mid2. fst p < v1 \<and> (t1 + wl div 2 < snd p \<longrightarrow> fst p \<le> v2)"
    and "\<forall>p\<in>set post. fst p < v2"
    and "t0 + wl div 4 < t1" "t1 + wl div 2 < t2" "t2 \<le> t0 + wl" "snd (last xs) \<le> t2 + wl"
    and f: "f = wf_run z (NewWindowedFilter z wl MaxFilter) xs"
  shows "wf_GetBest f =
      (if snd (last xs) \<le> t0 + wl then v0 else if snd (last xs) \<le> t1 + wl then v1 else v2) \<and>
    (snd (last xs) \<le> t0 + wl \<longrightarrow> wf_GetSecondBest f = v1 \<and> wf_GetThirdBest f = v2)"
proof -
  have "MaxFilter v0 z \<noteq> 0" "MaxFilter v1 z \<noteq> 0" "MaxFilter v2 z \<noteq> 0" using assms(5) by (simp_all add: MaxFilter_def)
  then have "wf_stage3 \<lparr>sample = v0, etime = t0\<rparr> \<lparr>sample = v1, etime = t1\<rparr> \<lparr>sample = v2, etime = t2\<rparr> (snd (last xs)) f"
    unfolding f using assms(2-4,6-15) by (intro max_filter.three_peaks [OF assms(1)]) auto
  moreover have "windowLength f = wl" by (simp add: f NewWindowedFilter_def)
  ultimately show ?thesis
    by (auto simp: wf_stage3_def wf_GetBest_def wf_GetSecondBest_def wf_GetThirdBest_def split: if_splits)
qed

text \<open>Window ten: 9 in round 1, 7 in round 4 and 5 in round 10 are the peaks, 8 and 6 come too early; 9 leaves in round 12.\<close>

lemma max_filter_peaks_witness:
  "wf_GetBest (wf_run 0 (NewWindowedFilter (0 :: int) 10 MaxFilter)
     [(3, 0), (9, 1), (8, 2), (7, 4), (6, 8), (5, 10), (1, 11), (2, 12)]) = 7"
  using max_filter_peaks [of "[(3, 0), (9, 1), (8, 2), (7, 4), (6, 8), (5, 10), (1, 11), (2, 12)]"
      "[(3, 0)]" "9 :: int" 1 "[(8, 2)]" 7 4 "[(6, 8)]" 5 10 "[(1, 11), (2, 12)]" 10 0]
  by simp

end
