(* ===== verification/GoFloat.thy ===== *)
theory GoFloat
  imports Prelude "HOL-Library.Log_Nat"
begin

text \<open>
  Go's \<open>float64\<close> and \<open>float32\<close> arithmetic.  A finite float is the rational number it
  denotes; every operation of the code is the exact rational operation followed by \<open>fl p\<close>,
  rounding to nearest, ties to even, with a significand of \<open>p\<close> bits (53 or 24).  The
  exponent is unbounded: the magnitudes the code computes with (64-bit integers times or divided by
  constants, quotients of two of them) lie far inside the normal range of both formats, so neither
  overflow to infinity nor subnormals arise.  The conversions back to an integer truncate; the Go
  specification leaves an out-of-range conversion implementation-dependent, which is
  \<open>undefined\<close> here, so nothing can be proved of it.
\<close>

type_synonym f64 = rat
type_synonym f32 = rat

definition rne :: "rat \<Rightarrow> int" where
  "rne x = (let f = \<lfloor>x\<rfloor>; r = x - of_int f in
     if r < 1/2 then f else if 1/2 < r then f + 1 else if even f then f else f + 1)"

definition fexp :: "nat \<Rightarrow> rat \<Rightarrow> int" where
  "fexp p x = (let (n, d) = quotient_of \<bar>x\<bar>; k = bitlen n - bitlen d in
     if 2 powi k \<le> \<bar>x\<bar> then k - int p + 1 else k - int p)"

definition fl :: "nat \<Rightarrow> rat \<Rightarrow> rat" where
  "fl p x = (if x = 0 then 0 else let e = fexp p x in of_int (rne (x / 2 powi e)) * 2 powi e)"

abbreviation fl64 :: "rat \<Rightarrow> f64" where "fl64 \<equiv> fl 53"
abbreviation fl32 :: "rat \<Rightarrow> f32" where "fl32 \<equiv> fl 24"

definition f64_of_int :: "int \<Rightarrow> f64" where
  "f64_of_int n = fl64 (of_int n)"

definition f64_mul :: "f64 \<Rightarrow> f64 \<Rightarrow> f64" where
  "f64_mul x y = fl64 (x * y)"

definition f64_div :: "f64 \<Rightarrow> f64 \<Rightarrow> f64" where
  "f64_div x y = fl64 (x / y)"

definition f64_add :: "f64 \<Rightarrow> f64 \<Rightarrow> f64" where
  "f64_add x y = fl64 (x + y)"

definition rat_trunc :: "rat \<Rightarrow> int" where
  "rat_trunc x = (if 0 \<le> x then \<lfloor>x\<rfloor> else \<lceil>x\<rceil>)"

definition f64_to_i64 :: "f64 \<Rightarrow> int" where
  "f64_to_i64 x = (if in_i64 (rat_trunc x) then rat_trunc x else undefined x)"

definition f64_to_u64 :: "f64 \<Rightarrow> int" where
  "f64_to_u64 x = (if in_u64 (rat_trunc x) then rat_trunc x else undefined x)"

text \<open>\<open>Duration.Seconds\<close> of the standard library.\<close>

definition duration_Seconds :: "duration \<Rightarrow> f64" where
  "duration_Seconds d =
     f64_add (f64_of_int (d sdiv time_Second)) (f64_div (f64_of_int (d smod time_Second)) 1000000000)"

lemmas f64_op_defs = f64_of_int_def f64_mul_def f64_div_def f64_add_def

subsection \<open>Rounding to an integer\<close>

lemma rne_error: "\<bar>of_int (rne x) - x\<bar> \<le> 1/2"
proof -
  have "of_int \<lfloor>x\<rfloor> \<le> x" "x < of_int \<lfloor>x\<rfloor> + 1" using floor_correct [of x] by auto
  then show ?thesis by (simp add: rne_def Let_def abs_if; linarith)
qed

lemma rne_of_int [simp]: "rne (of_int n) = n"
  by (simp add: rne_def)

lemma rne_floor: "\<lfloor>x\<rfloor> \<le> rne x \<and> rne x \<le> \<lfloor>x\<rfloor> + 1"
  by (auto simp: rne_def Let_def)

lemma rne_mono:
  assumes "x \<le> y"
  shows "rne x \<le> rne y"
proof (cases "\<lfloor>x\<rfloor> = \<lfloor>y\<rfloor>")
  case True
  with assms show ?thesis by (auto simp: rne_def Let_def)
next
  case False
  with floor_mono [OF assms] have "\<lfloor>x\<rfloor> + 1 \<le> \<lfloor>y\<rfloor>" by linarith
  with rne_floor [of x] rne_floor [of y] show ?thesis by linarith
qed

subsection \<open>The exponent\<close>

lemma fexp_bounds:
  assumes "x \<noteq> 0"
  shows "2 powi (fexp p x + int p - 1) \<le> \<bar>x\<bar>" and "\<bar>x\<bar> < 2 powi (fexp p x + int p)"
proof -
  obtain n d where q: "quotient_of \<bar>x\<bar> = (n, d)" by (cases "quotient_of \<bar>x\<bar>")
  define k where "k = bitlen n - bitlen d"
  have x: "\<bar>x\<bar> = of_int n / of_int d" using quotient_of_div [OF q] .
  have d: "0 < d" using quotient_of_denom_pos [OF q] .
  have n: "0 < n" using x d assms by (metis of_int_0_less_iff zero_less_abs_iff zero_less_divide_iff
        of_int_pos not_less_iff_gr_or_eq)
  have bn: "2 powi (bitlen n - 1) \<le> (of_int n :: rat)" "(of_int n :: rat) < 2 powi bitlen n"
    using bitlen_bounds [OF n] bitlen_nonneg [of n] n
    by (auto simp: power_int_def bitlen_eq_zero_iff simp flip: of_int_le_iff of_int_less_iff)
  have bd: "2 powi (bitlen d - 1) \<le> (of_int d :: rat)" "(of_int d :: rat) < 2 powi bitlen d"
    using bitlen_bounds [OF d] bitlen_nonneg [of d] d
    by (auto simp: power_int_def bitlen_eq_zero_iff simp flip: of_int_le_iff of_int_less_iff)
  have "2 powi (k - 1) * of_int d \<le> 2 powi (k - 1) * (2 powi bitlen d :: rat)"
    using bd(2) by (intro mult_left_mono) auto
  also have "\<dots> = 2 powi (bitlen n - 1)"
    by (simp add: k_def flip: power_int_add)
  finally have lo: "2 powi (k - 1) \<le> \<bar>x\<bar>"
    using bn(1) d by (simp add: x field_simps)
  have "(of_int n :: rat) < 2 powi (k + 1) * 2 powi (bitlen d - 1)"
    using bn(2) by (simp add: k_def flip: power_int_add)
  also have "\<dots> \<le> 2 powi (k + 1) * of_int d"
    using bd(1) by (intro mult_left_mono) auto
  finally have hi: "\<bar>x\<bar> < 2 powi (k + 1)"
    using d by (simp add: x field_simps)
  have e: "fexp p x = (if 2 powi k \<le> \<bar>x\<bar> then k - int p + 1 else k - int p)"
    by (simp add: fexp_def q k_def)
  show "2 powi (fexp p x + int p - 1) \<le> \<bar>x\<bar>" "\<bar>x\<bar> < 2 powi (fexp p x + int p)"
    using lo hi by (auto simp: e algebra_simps)
qed

subsection \<open>Rounding to a float\<close>

lemma powi_pos [simp]: "0 < (2 powi e :: rat)"
  by simp

lemma fl_0 [simp]: "fl p 0 = 0"
  by (simp add: fl_def)

lemma fl_abs_error: "x \<noteq> 0 \<Longrightarrow> \<bar>fl p x - x\<bar> \<le> 2 powi (fexp p x) / 2"
proof -
  assume x: "x \<noteq> 0"
  let ?s = "2 powi (fexp p x) :: rat"
  have "fl p x - x = (of_int (rne (x / ?s)) - x / ?s) * ?s"
    using x by (simp add: fl_def Let_def algebra_simps)
  then have "\<bar>fl p x - x\<bar> = \<bar>of_int (rne (x / ?s)) - x / ?s\<bar> * ?s"
    by (simp add: abs_mult)
  also have "\<dots> \<le> 1/2 * ?s"
    by (intro mult_right_mono rne_error) simp
  finally show ?thesis by simp
qed

lemma fl_error: "\<bar>fl p x - x\<bar> \<le> \<bar>x\<bar> / 2 ^ p"
proof (cases "x = 0")
  case False
  have "2 powi (fexp p x) / 2 * 2 ^ p = (2 powi (fexp p x + int p - 1) :: rat)"
    by (simp add: power_int_add power_int_diff)
  with fexp_bounds(1) [OF False, of p] have "2 powi (fexp p x) / 2 * 2 ^ p \<le> \<bar>x\<bar>" by simp
  then have "2 powi (fexp p x) / 2 \<le> \<bar>x\<bar> / 2 ^ p" by (simp add: field_simps)
  with fl_abs_error [OF False, of p] show ?thesis by (rule order_trans)
qed simp

lemma fl_nonneg: "0 \<le> x \<Longrightarrow> 0 \<le> fl p x"
proof -
  assume "0 \<le> x"
  then have "rne 0 \<le> rne (x / 2 powi (fexp p x))"
    by (intro rne_mono) simp
  then show ?thesis
    using rne_of_int [of 0] by (simp add: fl_def Let_def)
qed

lemma powi_lessD: "(2 powi a :: rat) < 2 powi b \<Longrightarrow> a < b"
  by (meson leI not_less power_int_increasing one_le_numeral)

lemma fexp_mono:
  assumes "0 < x" "x \<le> y"
  shows "fexp p x \<le> fexp p y"
proof -
  have "(2 powi (fexp p x + int p - 1) :: rat) < 2 powi (fexp p y + int p)"
    using fexp_bounds [of x p] fexp_bounds [of y p] assms by simp
  then have "fexp p x + int p - 1 < fexp p y + int p"
    by (meson leI not_less power_int_increasing one_le_numeral)
  then show ?thesis by simp
qed

lemma rne_scaled_bounds:
  assumes "0 < x" "0 < p"
  shows "2 ^ (p - 1) \<le> rne (x / 2 powi (fexp p x))" "rne (x / 2 powi (fexp p x)) \<le> 2 ^ p"
proof -
  let ?s = "2 powi (fexp p x) :: rat"
  have "2 ^ p * ?s = 2 powi (fexp p x + int p)" "2 ^ (p - 1) * ?s = 2 powi (fexp p x + int p - 1)"
    using assms(2) by (simp_all add: power_int_add power_int_diff power_diff)
  then have "of_int (2 ^ (p - 1)) \<le> x / ?s" "x / ?s \<le> of_int (2 ^ p)"
    using fexp_bounds [of x p] assms(1) by (simp_all add: field_simps)
  from this [THEN rne_mono] show "2 ^ (p - 1) \<le> rne (x / ?s)" "rne (x / ?s) \<le> 2 ^ p"
    by (simp_all only: rne_of_int)
qed

lemma fl_mono_pos:
  assumes "0 < x" "x \<le> y" "0 < p"
  shows "fl p x \<le> fl p y"
proof (cases "fexp p x = fexp p y")
  case True
  have "rne (x / 2 powi fexp p y) \<le> rne (y / 2 powi fexp p y)"
    using assms by (intro rne_mono divide_right_mono) auto
  with True assms show ?thesis by (simp add: fl_def Let_def)
next
  case False
  with fexp_mono [OF assms(1,2), of p] have e: "fexp p x + 1 \<le> fexp p y" by simp
  have hi: "of_int (rne (x / 2 powi (fexp p x))) \<le> (of_int (2 ^ p) :: rat)"
    using rne_scaled_bounds(2) [OF assms(1,3)] by (simp only: of_int_le_iff)
  have lo: "of_int (2 ^ (p - 1)) \<le> (of_int (rne (y / 2 powi (fexp p y))) :: rat)"
    using rne_scaled_bounds(1) [of y p] assms by (simp only: of_int_le_iff)
  have "fl p x \<le> of_int (2 ^ p) * 2 powi fexp p x"
    using mult_right_mono [OF hi, of "2 powi fexp p x"] assms(1) by (simp add: fl_def Let_def)
  also have "\<dots> = 2 ^ (p - 1) * 2 powi (fexp p x + 1)"
    using assms(3) by (simp add: power_int_add power_diff)
  also have "\<dots> \<le> 2 ^ (p - 1) * 2 powi (fexp p y)"
    using e by (intro mult_left_mono power_int_increasing) auto
  also have "\<dots> \<le> fl p y"
    using mult_right_mono [OF lo, of "2 powi fexp p y"] assms(1,2) by (simp add: fl_def Let_def)
  finally show ?thesis .
qed

lemma fl_mono: "0 \<le> x \<Longrightarrow> x \<le> y \<Longrightarrow> 0 < p \<Longrightarrow> fl p x \<le> fl p y"
  using fl_mono_pos [of x y p] fl_nonneg [of y p] by (cases "x = 0") auto

text \<open>Scaling by a power of two is exact (the exponent range is unbounded here).\<close>

lemma fexp_scale:
  assumes "x \<noteq> 0"
  shows "fexp p (x * 2 powi k) = fexp p x + k"
proof -
  let ?e = "fexp p x" and ?f = "fexp p (x * 2 powi k)"
  have y: "x * 2 powi k \<noteq> 0" using assms by simp
  have a: "\<bar>x * 2 powi k\<bar> = \<bar>x\<bar> * 2 powi k" by (simp add: abs_mult)
  have lo: "2 powi (?e + k + int p - 1) \<le> \<bar>x * 2 powi k\<bar>" "\<bar>x * 2 powi k\<bar> < 2 powi (?e + k + int p)"
  proof -
    have "2 powi (?e + int p - 1) * 2 powi k \<le> \<bar>x\<bar> * 2 powi k"
      using fexp_bounds(1) [OF assms, of p] by (intro mult_right_mono) auto
    then show "2 powi (?e + k + int p - 1) \<le> \<bar>x * 2 powi k\<bar>"
      unfolding a by (simp add: power_int_add [symmetric] algebra_simps)
    have "\<bar>x\<bar> * 2 powi k < 2 powi (?e + int p) * 2 powi k"
      using fexp_bounds(2) [OF assms, of p] by (intro mult_strict_right_mono) auto
    then show "\<bar>x * 2 powi k\<bar> < 2 powi (?e + k + int p)"
      unfolding a by (simp add: power_int_add [symmetric] algebra_simps)
  qed
  have "(2 powi (?e + k + int p - 1) :: rat) < 2 powi (?f + int p)"
    using lo(1) fexp_bounds(2) [OF y, of p] by linarith
  then have "?e + k + int p - 1 < ?f + int p" by (rule powi_lessD)
  moreover have "(2 powi (?f + int p - 1) :: rat) < 2 powi (?e + k + int p)"
    using lo(2) fexp_bounds(1) [OF y, of p] by linarith
  then have "?f + int p - 1 < ?e + k + int p" by (rule powi_lessD)
  ultimately show ?thesis by linarith
qed

lemma fl_scale: "fl p (x * 2 powi k) = fl p x * 2 powi k"
proof (cases "x = 0")
  case False
  then show ?thesis by (simp add: fl_def Let_def fexp_scale power_int_add)
qed simp

text \<open>Integers of at most \<open>p\<close> bits are floats.\<close>

lemma fl_of_int:
  assumes "\<bar>n\<bar> \<le> 2 ^ p" "0 < p"
  shows "fl p (of_int n) = of_int n"
proof (cases "n = 0")
  case False
  let ?e = "fexp p (of_int n)"
  have lo: "2 powi (?e + int p - 1) \<le> \<bar>of_int n :: rat\<bar>"
    using fexp_bounds(1) [of "of_int n" p] False by simp
  show ?thesis
  proof (cases "?e \<le> 0")
    case True
    then have "of_int n / 2 powi ?e = (of_int (n * 2 ^ nat (- ?e)) :: rat)"
      by (simp add: power_int_def field_simps)
    then have "rne (of_int n / 2 powi ?e) = n * 2 ^ nat (- ?e)"
      by (simp only: rne_of_int)
    with True False show ?thesis
      by (simp add: fl_def Let_def power_int_def field_simps)
  next
    case e: False
    have "(2 powi (?e + int p - 1) :: rat) \<le> 2 powi int p"
      using lo assms(1) by (simp add: power_int_of_nat)
        (metis (mono_tags, lifting) of_int_abs of_int_le_iff of_int_numeral of_int_power order_trans)
    then have "?e = 1"
      using e power_int_strict_increasing [of "int p" "?e + int p - 1" "2 :: rat"] by fastforce
    with lo assms(1) have "\<bar>n\<bar> = 2 ^ p"
      by (simp add: power_int_of_nat)
        (metis (mono_tags, lifting) of_int_abs of_int_le_iff of_int_numeral of_int_power order_antisym)
    then have "even \<bar>n\<bar>" using assms(2) by simp
    then obtain m where m: "n = 2 * m" by auto
    with \<open>?e = 1\<close> have "of_int n / 2 powi ?e = (of_int m :: rat)" by simp
    then have "rne (of_int n / 2 powi ?e) = m" by (simp only: rne_of_int)
    with \<open>?e = 1\<close> m False show ?thesis by (simp add: fl_def Let_def)
  qed
qed simp

text \<open>Powers of two are floats, so rounding does not cross them.\<close>

lemma fl_powi: "0 < p \<Longrightarrow> fl p (2 powi k) = 2 powi k"
  using fl_scale [of p 1 k] fl_of_int [of 1 p] by simp

lemma fl_ge_powi: "2 powi k \<le> x \<Longrightarrow> 0 < p \<Longrightarrow> 2 powi k \<le> fl p x"
  using fl_mono [of "2 powi k" x p] by (simp add: fl_powi)

lemma fl_le_powi: "0 \<le> x \<Longrightarrow> x \<le> 2 powi k \<Longrightarrow> 0 < p \<Longrightarrow> fl p x \<le> 2 powi k"
  using fl_mono [of x "2 powi k" p] by (simp add: fl_powi)

lemma f64_of_int_exact: "\<bar>n\<bar> \<le> 2 ^ 53 \<Longrightarrow> f64_of_int n = of_int n"
  by (simp add: f64_of_int_def fl_of_int)

lemma rat_trunc_of_int [simp]: "rat_trunc (of_int n) = n"
  by (simp add: rat_trunc_def)

lemma f64_to_i64_of_int: "in_i64 n \<Longrightarrow> f64_to_i64 (of_int n) = n"
  by (simp add: f64_to_i64_def)

text \<open>
  Rounding a quotient of integers does not move it across an integer, as long as the dividend has
  at most 53 bits: the quotient is at least \<open>1 / b\<close> away from the next integer, and the rounding
  error is smaller.
\<close>

lemma fl64_quotient_error:
  assumes "0 < a" "a < 2 ^ 53" "0 < b"
  shows "\<bar>fl64 (of_int a / of_int b) - of_int a / of_int b\<bar> < 1 / of_int b"
proof -
  have "\<bar>of_int a / of_int b :: rat\<bar> / 2 ^ 53 = of_int a / 2 ^ 53 / of_int b"
    using assms by simp
  also have "\<dots> < 1 / of_int b"
  proof (rule divide_strict_right_mono)
    have "(of_int a :: rat) < of_int (2 ^ 53)" using assms(2) by (simp only: of_int_less_iff)
    then show "of_int a / 2 ^ 53 < (1 :: rat)" by (simp add: field_simps)
  qed (use assms in simp)
  finally show ?thesis by (rule le_less_trans [OF fl_error])
qed

lemma ceiling_fl64_quotient:
  assumes "0 < a" "a < 2 ^ 53" "0 < b"
  shows "a \<le> \<lceil>fl64 (of_int a / of_int b)\<rceil> * b" "\<lceil>fl64 (of_int a / of_int b)\<rceil> * b \<le> a + b"
    "0 \<le> \<lceil>fl64 (of_int a / of_int b)\<rceil>"
proof -
  let ?x = "fl64 (of_int a / of_int b)" and ?q = "of_int a / of_int b :: rat"
  note err = fl64_quotient_error [OF assms]
  have b: "0 < (of_int b :: rat)" using assms(3) by simp
  have "of_int a - 1 < ?x * of_int b" "?x * of_int b < of_int a + 1"
    using err b by (auto simp: abs_less_iff field_simps)
  moreover have "?x \<le> of_int \<lceil>?x\<rceil>" "of_int \<lceil>?x\<rceil> < ?x + 1"
    using ceiling_correct [of ?x] by auto
  then have "?x * of_int b \<le> of_int \<lceil>?x\<rceil> * of_int b" "of_int \<lceil>?x\<rceil> * of_int b < (?x + 1) * of_int b"
    using b by simp_all
  ultimately have "(of_int (a - 1) :: rat) < of_int (\<lceil>?x\<rceil> * b)"
      "(of_int (\<lceil>?x\<rceil> * b) :: rat) < of_int (a + 1 + b)"
    by (simp_all add: algebra_simps)
  then have "a - 1 < \<lceil>?x\<rceil> * b" "\<lceil>?x\<rceil> * b < a + 1 + b"
    by (simp_all only: of_int_less_iff)
  then show "a \<le> \<lceil>?x\<rceil> * b" "\<lceil>?x\<rceil> * b \<le> a + b" by simp_all
  have "0 \<le> ?x" using assms by (intro fl_nonneg) simp
  then show "0 \<le> \<lceil>?x\<rceil>" by simp
qed

end
