(* ===== verification/CongestionApi.thy ===== *)
theory CongestionApi
  imports GoFloat
begin

text \<open>
  What the congestion controllers use of the package \<open>github.com/apernet/quic-go/congestion\<close>,
  which is not part of the repository: its integer constants (a record every definition that reads
  one takes as an argument), the two packet descriptions of a congestion event, and the answers of
  an \<open>RTTStatsProvider\<close>.  \<open>consts_ok\<close> is what the controllers need of the constants;
  \<open>quic_go_consts\<close> is an instance that shows it can hold.
\<close>

record congestion_consts =
  InitialPacketSizeIPv4 :: int
  InitialPacketSizeIPv6 :: int
  MinInitialPacketSize :: int
  MaxPacketBufferSize :: int
  MaxCongestionWindowPackets :: int
  PacketsPerConnectionID :: int
  MinPacingDelay :: duration

definition consts_ok :: "congestion_consts \<Rightarrow> bool" where
  "consts_ok K \<longleftrightarrow>
     1 \<le> InitialPacketSizeIPv4 K \<and> InitialPacketSizeIPv4 K < 2 ^ 16 \<and>
     1 \<le> InitialPacketSizeIPv6 K \<and> InitialPacketSizeIPv6 K < 2 ^ 16 \<and>
     1 \<le> MinInitialPacketSize K \<and> MinInitialPacketSize K < 2 ^ 16 \<and>
     0 \<le> MaxPacketBufferSize K \<and> MaxPacketBufferSize K < 2 ^ 16 \<and>
     32 \<le> MaxCongestionWindowPackets K \<and> MaxCongestionWindowPackets K < 2 ^ 20 \<and>
     1 \<le> PacketsPerConnectionID K \<and> PacketsPerConnectionID K < 2 ^ 31 \<and>
     1 \<le> MinPacingDelay K \<and> MinPacingDelay K < 2 ^ 20"

definition quic_go_consts :: congestion_consts where
  "quic_go_consts =
     \<lparr>InitialPacketSizeIPv4 = 1252, InitialPacketSizeIPv6 = 1232, MinInitialPacketSize = 1200,
      MaxPacketBufferSize = 1452, MaxCongestionWindowPackets = 10000,
      PacketsPerConnectionID = 10000, MinPacingDelay = 1000000\<rparr>"

lemma quic_go_consts_ok [simp]: "consts_ok quic_go_consts"
  by (simp add: consts_ok_def quic_go_consts_def)

record AckedPacketInfo =
  acked_PacketNumber :: packetNumber
  BytesAcked :: byteCount

record LostPacketInfo =
  lost_PacketNumber :: packetNumber
  BytesLost :: byteCount

record RTTStats =
  MinRTT :: duration
  SmoothedRTT :: duration

end
