(* ===== verification/Bandwidth.thy ===== *)
theory Bandwidth
  imports CongestionApi
begin

text \<open>
  \<open>src/internal/congestion/bbr/bandwidth.go\<close> and the unit conversions at the end of
  \<open>bandwidth_sampler.go\<close> and \<open>bbr_sender.go\<close>.  A \<open>Bandwidth\<close> is a \<open>uint64\<close> in bits per second;
  multiplications wrap and a zero divisor panics.
\<close>

type_synonym bandwidth = int

definition infBandwidth :: bandwidth where
  "infBandwidth = 2 ^ 64 - 1"

definition BytesPerSecond :: bandwidth where
  "BytesPerSecond = 8"

definition BandwidthFromDelta :: "byteCount \<Rightarrow> duration \<Rightarrow> bandwidth option" where
  "BandwidthFromDelta bytes delta = do {
     q \<leftarrow> go_divu (u64 (u64 bytes * u64 time_Second)) (u64 delta);
     Some (u64 (q * BytesPerSecond))
   }"

definition bytesFromBandwidthAndTimeDelta :: "bandwidth \<Rightarrow> duration \<Rightarrow> byteCount" where
  "bytesFromBandwidthAndTimeDelta bw delta = i64 (i64 bw * delta) sdiv (time_Second * 8)"

definition timeDeltaFromBytesAndBandwidth :: "byteCount \<Rightarrow> bandwidth \<Rightarrow> duration option" where
  "timeDeltaFromBytesAndBandwidth bytes bw = go_div (i64 (i64 (bytes * 8) * time_Second)) (i64 bw)"

definition bdpFromRttAndBandwidth :: "duration \<Rightarrow> bandwidth \<Rightarrow> byteCount" where
  "bdpFromRttAndBandwidth rtt bw =
     i64 (rtt * i64 bw) sdiv BytesPerSecond sdiv time_Second"

lemmas bandwidth_defs = infBandwidth_def BytesPerSecond_def BandwidthFromDelta_def go_divu_def
  time_Second_def

lemma BandwidthFromDelta_range: "BandwidthFromDelta bytes delta = Some b \<Longrightarrow> in_u64 b"
  by (auto simp: BandwidthFromDelta_def go_divu_def split: if_splits)

lemma BandwidthFromDelta_Some: "u64 delta \<noteq> 0 \<Longrightarrow> \<exists>b. BandwidthFromDelta bytes delta = Some b"
  by (simp add: BandwidthFromDelta_def go_divu_def)

lemma BandwidthFromDelta_eq:
  assumes "0 \<le> bytes" "bytes * 1000000000 < 2 ^ 61" "0 < delta" "delta < 2 ^ 63"
  shows "BandwidthFromDelta bytes delta = Some (bytes * 1000000000 div delta * 8)"
proof -
  have "bytes * 1000000000 div delta \<le> bytes * 1000000000"
    using assms zdiv_mono2 [of "bytes * 1000000000" 1 delta] by simp
  moreover have "0 \<le> bytes * 1000000000 div delta"
    using assms by (simp add: pos_imp_zdiv_nonneg_iff)
  ultimately show ?thesis
    using assms by (simp add: bandwidth_defs)
qed

lemma bytesFromBandwidthAndTimeDelta_eq:
  assumes "0 \<le> bw" "bw < 2 ^ 63" "0 \<le> delta" "bw * delta < 2 ^ 63"
  shows "bytesFromBandwidthAndTimeDelta bw delta = bw * delta div 8000000000"
proof -
  have "0 \<le> bw * delta" using assms by simp
  then have "in_i64 (bw * delta)" using assms(4) by linarith
  then have "i64 (bw * delta) = bw * delta" by (rule i64_id)
  moreover have "i64 bw = bw" using assms by simp
  ultimately have "i64 (i64 bw * delta) = bw * delta" by simp
  with \<open>0 \<le> bw * delta\<close> show ?thesis
    by (simp add: bytesFromBandwidthAndTimeDelta_def time_Second_def sdiv_pos_eq)
qed

subsection \<open>Properties\<close>

text \<open>
  Converting bytes over a time into a bandwidth and back loses less than the bytes of one bit-rate
  step: without overflow (less than about 1.15 GB in the interval) the result is at most the bytes, and short
  of them by at most one byte per second of the interval, rounded up.
\<close>

lemma bandwidth_roundtrip:
  assumes "0 \<le> bytes" "bytes * 1000000000 < 2 ^ 60" "0 < delta" "delta < 2 ^ 63"
  shows "\<exists>bw. BandwidthFromDelta bytes delta = Some bw \<and>
    bytesFromBandwidthAndTimeDelta bw delta \<le> bytes \<and>
    bytes \<le> bytesFromBandwidthAndTimeDelta bw delta + delta div 1000000000 + 1"
proof -
  let ?n = "bytes * 1000000000" and ?q = "bytes * 1000000000 div delta"
  have q: "0 \<le> ?q" "?q * delta \<le> ?n" "?n < ?q * delta + delta"
    using assms div_mult_mod_eq [of ?n delta] pos_mod_bound [of delta ?n] pos_mod_sign [of delta ?n]
    by (simp add: pos_imp_zdiv_nonneg_iff, linarith, linarith)
  have "?q * 1 \<le> ?q * delta" using q(1) assms(3) by (intro mult_left_mono) auto
  then have ub: "?q * 8 < 2 ^ 63" using q(2) assms(2) by simp
  have bw: "BandwidthFromDelta bytes delta = Some (?q * 8)"
    using assms by (intro BandwidthFromDelta_eq) auto
  have inv: "bytesFromBandwidthAndTimeDelta (?q * 8) delta = ?q * delta div 1000000000"
  proof -
    have "?q * 8 * delta < 2 ^ 63" using q(2) assms(2) by (simp add: mult.commute mult.left_commute)
    then have "bytesFromBandwidthAndTimeDelta (?q * 8) delta = ?q * 8 * delta div 8000000000"
      using q(1) ub assms(3) by (intro bytesFromBandwidthAndTimeDelta_eq) auto
    also have "\<dots> = (?q * delta) * 8 div (1000000000 * 8)" by (simp add: mult.commute mult.left_commute)
    finally show ?thesis by (simp only: div_mult_mult2)
  qed
  have "?q * delta div 1000000000 \<le> bytes" using zdiv_mono1 [OF q(2), of 1000000000] by simp
  moreover have "bytes \<le> ?q * delta div 1000000000 + delta div 1000000000 + 1"
    using q(3) by linarith
  ultimately show ?thesis using bw inv by simp
qed

end
