(* ===== verification/BandwidthSampler.thy ===== *)
theory BandwidthSampler
  imports PacketNumberIndexedQueue WindowedFilter Bandwidth
begin

text \<open>
  \<open>src/internal/congestion/bbr/bandwidth_sampler.go\<close>: the tracker of ack aggregation
  (\<open>maxAckHeightTracker\<close>), the two most recent ack points, and the bandwidth sampler that records
  the state of the connection with every packet sent and turns acknowledgements into bandwidth
  samples.  The sampler never panics in a state that satisfies \<open>bs_inv\<close>, which every operation
  keeps.
\<close>

definition infRTT :: duration where
  "infRTT = 2 ^ 63 - 1"

definition defaultConnectionStateMapQueueSize :: nat where
  "defaultConnectionStateMapQueueSize = 256"

definition defaultCandidatesBufferSize :: nat where
  "defaultCandidatesBufferSize = 256"

record sendTimeState =
  isValid :: bool
  sts_isAppLimited :: bool
  sts_totalBytesSent :: byteCount
  sts_totalBytesAcked :: byteCount
  sts_totalBytesLost :: byteCount
  sts_bytesInFlight :: byteCount

definition sendTimeState_zero :: sendTimeState where
  "sendTimeState_zero =
     \<lparr>isValid = False, sts_isAppLimited = False, sts_totalBytesSent = 0, sts_totalBytesAcked = 0,
      sts_totalBytesLost = 0, sts_bytesInFlight = 0\<rparr>"

definition newSendTimeState ::
    "bool \<Rightarrow> byteCount \<Rightarrow> byteCount \<Rightarrow> byteCount \<Rightarrow> byteCount \<Rightarrow> sendTimeState" where
  "newSendTimeState appLimited sent acked lost inFlight =
     \<lparr>isValid = True, sts_isAppLimited = appLimited, sts_totalBytesSent = sent,
      sts_totalBytesAcked = acked, sts_totalBytesLost = lost, sts_bytesInFlight = inFlight\<rparr>"

record extraAckedEvent =
  ea_extraAcked :: byteCount
  ea_bytesAcked :: byteCount
  ea_timeDelta :: duration
  ea_round :: int

definition extraAckedEvent_zero :: extraAckedEvent where
  "extraAckedEvent_zero = \<lparr>ea_extraAcked = 0, ea_bytesAcked = 0, ea_timeDelta = 0, ea_round = 0\<rparr>"

definition maxExtraAckedEventFunc :: "extraAckedEvent \<Rightarrow> extraAckedEvent \<Rightarrow> int" where
  "maxExtraAckedEventFunc a b =
     (if ea_extraAcked b < ea_extraAcked a then 1
      else if ea_extraAcked a < ea_extraAcked b then - 1 else 0)"

record bandwidthSample =
  bws_bandwidth :: bandwidth
  bws_rtt :: duration
  bws_sendRate :: bandwidth
  bws_stateAtSend :: sendTimeState

definition newBandwidthSample :: bandwidthSample where
  "newBandwidthSample =
     \<lparr>bws_bandwidth = 0, bws_rtt = 0, bws_sendRate = infBandwidth, bws_stateAtSend = sendTimeState_zero\<rparr>"

subsection \<open>Ack aggregation\<close>

record maxAckHeightTracker =
  maxAckHeightFilter :: "extraAckedEvent WindowedFilter"
  aggregationEpochStartTime :: time
  aggregationEpochBytes :: byteCount
  lastSentPacketNumberBeforeEpoch :: packetNumber
  numAckAggregationEpochs :: int
  ackAggregationBandwidthThreshold :: f64
  startNewAggregationEpochAfterFullRound :: bool
  reduceExtraAckedOnBandwidthIncrease :: bool

definition newMaxAckHeightTracker :: "int \<Rightarrow> maxAckHeightTracker" where
  "newMaxAckHeightTracker wl =
     \<lparr>maxAckHeightFilter = NewWindowedFilter extraAckedEvent_zero wl maxExtraAckedEventFunc,
      aggregationEpochStartTime = time_zero, aggregationEpochBytes = 0,
      lastSentPacketNumberBeforeEpoch = invalidPacketNumber, numAckAggregationEpochs = 0,
      ackAggregationBandwidthThreshold = 1, startNewAggregationEpochAfterFullRound = False,
      reduceExtraAckedOnBandwidthIncrease = False\<rparr>"

definition mah_Get :: "maxAckHeightTracker \<Rightarrow> byteCount" where
  "mah_Get m = ea_extraAcked (wf_GetBest (maxAckHeightFilter m))"

text \<open>One step of the reinsertion of a saved height (best, second best, third best).\<close>

definition mah_reinsert ::
    "bandwidth \<Rightarrow> extraAckedEvent \<Rightarrow> extraAckedEvent WindowedFilter \<Rightarrow> extraAckedEvent WindowedFilter" where
  "mah_reinsert bw e f =
     (let expectedBytesAcked = bytesFromBandwidthAndTimeDelta bw (ea_timeDelta e) in
      if expectedBytesAcked < ea_bytesAcked e
      then wf_Update extraAckedEvent_zero
             (e\<lparr>ea_extraAcked := i64 (ea_bytesAcked e - expectedBytesAcked)\<rparr>) (ea_round e) f
      else f)"

definition mah_newEpoch ::
    "packetNumber \<Rightarrow> time \<Rightarrow> byteCount \<Rightarrow> maxAckHeightTracker \<Rightarrow> maxAckHeightTracker" where
  "mah_newEpoch lastSent ackTime bytesAcked m =
     m\<lparr>aggregationEpochBytes := bytesAcked, aggregationEpochStartTime := ackTime,
       lastSentPacketNumberBeforeEpoch := lastSent,
       numAckAggregationEpochs := u64 (numAckAggregationEpochs m + 1)\<rparr>"

definition mah_Update ::
    "bandwidth \<Rightarrow> bool \<Rightarrow> int \<Rightarrow> packetNumber \<Rightarrow> packetNumber \<Rightarrow> time \<Rightarrow> byteCount \<Rightarrow>
     maxAckHeightTracker \<Rightarrow> byteCount \<times> maxAckHeightTracker" where
  "mah_Update bandwidthEstimate isNewMaxBandwidth roundTripCount lastSentPacketNumber
       lastAckedPacketNumber ackTime bytesAcked m =
     (let m = (if reduceExtraAckedOnBandwidthIncrease m \<and> isNewMaxBandwidth then
                 let best = wf_GetBest (maxAckHeightFilter m);
                     secondBest = wf_GetSecondBest (maxAckHeightFilter m);
                     thirdBest = wf_GetThirdBest (maxAckHeightFilter m);
                     f = wf_Clear extraAckedEvent_zero (maxAckHeightFilter m);
                     f = mah_reinsert bandwidthEstimate best f;
                     f = mah_reinsert bandwidthEstimate secondBest f;
                     f = mah_reinsert bandwidthEstimate thirdBest f
                 in m\<lparr>maxAckHeightFilter := f\<rparr>
               else m);
          forceNewEpoch =
            (startNewAggregationEpochAfterFullRound m \<and>
             lastSentPacketNumberBeforeEpoch m \<noteq> invalidPacketNumber \<and>
             lastAckedPacketNumber \<noteq> invalidPacketNumber \<and>
             lastSentPacketNumberBeforeEpoch m < lastAckedPacketNumber)
      in if time_IsZero (aggregationEpochStartTime m) \<or> forceNewEpoch
         then (0, mah_newEpoch lastSentPacketNumber ackTime bytesAcked m)
         else
           let aggregationDelta = time_Sub ackTime (aggregationEpochStartTime m);
               expectedBytesAcked = bytesFromBandwidthAndTimeDelta bandwidthEstimate aggregationDelta
           in if aggregationEpochBytes m \<le>
                 f64_to_i64 (f64_mul (ackAggregationBandwidthThreshold m) (f64_of_int expectedBytesAcked))
              then (0, mah_newEpoch lastSentPacketNumber ackTime bytesAcked m)
              else
                let m = m\<lparr>aggregationEpochBytes := i64 (aggregationEpochBytes m + bytesAcked)\<rparr>;
                    extraBytesAcked = i64 (aggregationEpochBytes m - expectedBytesAcked);
                    newEvent = \<lparr>ea_extraAcked = expectedBytesAcked,
                                ea_bytesAcked = aggregationEpochBytes m,
                                ea_timeDelta = aggregationDelta, ea_round = 0\<rparr>
                in (extraBytesAcked,
                    m\<lparr>maxAckHeightFilter :=
                        wf_Update extraAckedEvent_zero newEvent roundTripCount (maxAckHeightFilter m)\<rparr>))"

definition mah_SetFilterWindowLength :: "int \<Rightarrow> maxAckHeightTracker \<Rightarrow> maxAckHeightTracker" where
  "mah_SetFilterWindowLength len m =
     m\<lparr>maxAckHeightFilter := wf_SetWindowLength len (maxAckHeightFilter m)\<rparr>"

definition mah_Reset :: "byteCount \<Rightarrow> int \<Rightarrow> maxAckHeightTracker \<Rightarrow> maxAckHeightTracker" where
  "mah_Reset newHeight newTime m =
     (let newEvent = extraAckedEvent_zero\<lparr>ea_extraAcked := newHeight, ea_round := newTime\<rparr>
      in m\<lparr>maxAckHeightFilter := wf_Reset newEvent newTime (maxAckHeightFilter m)\<rparr>)"

definition mah_SetAckAggregationBandwidthThreshold :: "f64 \<Rightarrow> maxAckHeightTracker \<Rightarrow> maxAckHeightTracker" where
  "mah_SetAckAggregationBandwidthThreshold threshold m = m\<lparr>ackAggregationBandwidthThreshold := threshold\<rparr>"

definition mah_SetStartNewAggregationEpochAfterFullRound ::
    "bool \<Rightarrow> maxAckHeightTracker \<Rightarrow> maxAckHeightTracker" where
  "mah_SetStartNewAggregationEpochAfterFullRound v m = m\<lparr>startNewAggregationEpochAfterFullRound := v\<rparr>"

definition mah_SetReduceExtraAckedOnBandwidthIncrease ::
    "bool \<Rightarrow> maxAckHeightTracker \<Rightarrow> maxAckHeightTracker" where
  "mah_SetReduceExtraAckedOnBandwidthIncrease v m = m\<lparr>reduceExtraAckedOnBandwidthIncrease := v\<rparr>"

definition mah_AckAggregationBandwidthThreshold :: "maxAckHeightTracker \<Rightarrow> f64" where
  "mah_AckAggregationBandwidthThreshold m = ackAggregationBandwidthThreshold m"

definition mah_NumAckAggregationEpochs :: "maxAckHeightTracker \<Rightarrow> int" where
  "mah_NumAckAggregationEpochs m = numAckAggregationEpochs m"

subsection \<open>Recent ack points\<close>

record ackPoint =
  ap_ackTime :: time
  ap_totalBytesAcked :: byteCount

definition ackPoint_zero :: ackPoint where
  "ackPoint_zero = \<lparr>ap_ackTime = time_zero, ap_totalBytesAcked = 0\<rparr>"

record recentAckPoints =
  ackPoints0 :: ackPoint
  ackPoints1 :: ackPoint

definition rap_Update :: "time \<Rightarrow> byteCount \<Rightarrow> recentAckPoints \<Rightarrow> recentAckPoints" where
  "rap_Update ackTime totalBytesAcked r =
     (let r = (if ackTime < ap_ackTime (ackPoints1 r)
               then r\<lparr>ackPoints1 := (ackPoints1 r)\<lparr>ap_ackTime := ackTime\<rparr>\<rparr>
               else if ap_ackTime (ackPoints1 r) < ackTime
               then (let r = r\<lparr>ackPoints0 := ackPoints1 r\<rparr>
                     in r\<lparr>ackPoints1 := (ackPoints1 r)\<lparr>ap_ackTime := ackTime\<rparr>\<rparr>)
               else r)
      in r\<lparr>ackPoints1 := (ackPoints1 r)\<lparr>ap_totalBytesAcked := totalBytesAcked\<rparr>\<rparr>)"

definition rap_Clear :: "recentAckPoints \<Rightarrow> recentAckPoints" where
  "rap_Clear r = r\<lparr>ackPoints0 := ackPoint_zero, ackPoints1 := ackPoint_zero\<rparr>"

definition rap_MostRecentPoint :: "recentAckPoints \<Rightarrow> ackPoint" where
  "rap_MostRecentPoint r = ackPoints1 r"

definition rap_LessRecentPoint :: "recentAckPoints \<Rightarrow> ackPoint" where
  "rap_LessRecentPoint r =
     (if ap_totalBytesAcked (ackPoints0 r) \<noteq> 0 then ackPoints0 r else ackPoints1 r)"

subsection \<open>The sampler\<close>

record connectionStateOnSentPacket =
  cs_sentTime :: time
  cs_size :: byteCount
  cs_totalBytesSentAtLastAckedPacket :: byteCount
  cs_lastAckedPacketSentTime :: time
  cs_lastAckedPacketAckTime :: time
  cs_sendTimeState :: sendTimeState

definition connectionState_zero :: connectionStateOnSentPacket where
  "connectionState_zero =
     \<lparr>cs_sentTime = time_zero, cs_size = 0, cs_totalBytesSentAtLastAckedPacket = 0,
      cs_lastAckedPacketSentTime = time_zero, cs_lastAckedPacketAckTime = time_zero,
      cs_sendTimeState = sendTimeState_zero\<rparr>"

record congestionEventSample =
  sampleMaxBandwidth :: bandwidth
  sampleIsAppLimited :: bool
  sampleRtt :: duration
  sampleMaxInflight :: byteCount
  lastPacketSendState :: sendTimeState
  extraAcked :: byteCount

definition newCongestionEventSample :: congestionEventSample where
  "newCongestionEventSample =
     \<lparr>sampleMaxBandwidth = 0, sampleIsAppLimited = False, sampleRtt = infRTT, sampleMaxInflight = 0,
      lastPacketSendState = sendTimeState_zero, extraAcked = 0\<rparr>"

record bandwidthSampler =
  totalBytesSent :: byteCount
  totalBytesAcked :: byteCount
  totalBytesLost :: byteCount
  totalBytesNeutered :: byteCount
  totalBytesSentAtLastAckedPacket :: byteCount
  lastAckedPacketSentTime :: time
  lastAckedPacketAckTime :: time
  lastSentPacket :: packetNumber
  lastAckedPacket :: packetNumber
  isAppLimited :: bool
  endOfAppLimitedPhase :: packetNumber
  connectionStateMap :: "connectionStateOnSentPacket pnq"
  recentAckPts :: recentAckPoints
  a0Candidates :: "ackPoint RingBuffer"
  maxTrackedPackets :: byteCount
  ackHeightTracker :: maxAckHeightTracker
  totalBytesAckedAfterLastAckEvent :: byteCount
  overestimateAvoidance :: bool
  limitMaxAckHeightTrackerBySendRate :: bool

definition newConnectionStateOnSentPacket ::
    "time \<Rightarrow> byteCount \<Rightarrow> byteCount \<Rightarrow> bandwidthSampler \<Rightarrow> connectionStateOnSentPacket" where
  "newConnectionStateOnSentPacket sentTime sz bytesInFlight b =
     \<lparr>cs_sentTime = sentTime, cs_size = sz,
      cs_totalBytesSentAtLastAckedPacket = totalBytesSentAtLastAckedPacket b,
      cs_lastAckedPacketSentTime = lastAckedPacketSentTime b,
      cs_lastAckedPacketAckTime = lastAckedPacketAckTime b,
      cs_sendTimeState = newSendTimeState (isAppLimited b) (totalBytesSent b) (totalBytesAcked b)
        (totalBytesLost b) bytesInFlight\<rparr>"

definition newBandwidthSampler :: "int \<Rightarrow> bandwidthSampler" where
  "newBandwidthSampler maxAckHeightTrackerWindowLength =
     \<lparr>totalBytesSent = 0, totalBytesAcked = 0, totalBytesLost = 0, totalBytesNeutered = 0,
      totalBytesSentAtLastAckedPacket = 0, lastAckedPacketSentTime = time_zero,
      lastAckedPacketAckTime = time_zero, lastSentPacket = invalidPacketNumber,
      lastAckedPacket = invalidPacketNumber, isAppLimited = False,
      endOfAppLimitedPhase = invalidPacketNumber,
      connectionStateMap = newPacketNumberIndexedQueue connectionState_zero
        defaultConnectionStateMapQueueSize,
      recentAckPts = \<lparr>ackPoints0 = ackPoint_zero, ackPoints1 = ackPoint_zero\<rparr>,
      a0Candidates = rb_Init ackPoint_zero defaultCandidatesBufferSize rb_zero,
      maxTrackedPackets = 0, ackHeightTracker = newMaxAckHeightTracker maxAckHeightTrackerWindowLength,
      totalBytesAckedAfterLastAckEvent = 0, overestimateAvoidance = False,
      limitMaxAckHeightTrackerBySendRate = False\<rparr>"


definition bs_MaxAckHeight :: "bandwidthSampler \<Rightarrow> byteCount" where
  "bs_MaxAckHeight b = mah_Get (ackHeightTracker b)"

definition bs_max_ack_height :: "bandwidthSampler \<Rightarrow> byteCount" where
  "bs_max_ack_height b = mah_Get (ackHeightTracker b)"

definition bs_NumAckAggregationEpochs :: "bandwidthSampler \<Rightarrow> int" where
  "bs_NumAckAggregationEpochs b = mah_NumAckAggregationEpochs (ackHeightTracker b)"

definition bs_SetMaxAckHeightTrackerWindowLength :: "int \<Rightarrow> bandwidthSampler \<Rightarrow> bandwidthSampler" where
  "bs_SetMaxAckHeightTrackerWindowLength len b =
     b\<lparr>ackHeightTracker := mah_SetFilterWindowLength len (ackHeightTracker b)\<rparr>"

definition bs_ResetMaxAckHeightTracker ::
    "byteCount \<Rightarrow> int \<Rightarrow> bandwidthSampler \<Rightarrow> bandwidthSampler" where
  "bs_ResetMaxAckHeightTracker newHeight newTime b =
     b\<lparr>ackHeightTracker := mah_Reset newHeight newTime (ackHeightTracker b)\<rparr>"

definition bs_SetStartNewAggregationEpochAfterFullRound ::
    "bool \<Rightarrow> bandwidthSampler \<Rightarrow> bandwidthSampler" where
  "bs_SetStartNewAggregationEpochAfterFullRound v b =
     b\<lparr>ackHeightTracker := mah_SetStartNewAggregationEpochAfterFullRound v (ackHeightTracker b)\<rparr>"

definition bs_SetLimitMaxAckHeightTrackerBySendRate ::
    "bool \<Rightarrow> bandwidthSampler \<Rightarrow> bandwidthSampler" where
  "bs_SetLimitMaxAckHeightTrackerBySendRate v b = b\<lparr>limitMaxAckHeightTrackerBySendRate := v\<rparr>"

definition bs_SetReduceExtraAckedOnBandwidthIncrease ::
    "bool \<Rightarrow> bandwidthSampler \<Rightarrow> bandwidthSampler" where
  "bs_SetReduceExtraAckedOnBandwidthIncrease v b =
     b\<lparr>ackHeightTracker := mah_SetReduceExtraAckedOnBandwidthIncrease v (ackHeightTracker b)\<rparr>"

definition bs_EnableOverestimateAvoidance :: "bandwidthSampler \<Rightarrow> bandwidthSampler" where
  "bs_EnableOverestimateAvoidance b =
     (if overestimateAvoidance b then b
      else b\<lparr>overestimateAvoidance := True,
             ackHeightTracker := mah_SetAckAggregationBandwidthThreshold 2 (ackHeightTracker b)\<rparr>)"

definition bs_IsOverestimateAvoidanceEnabled :: "bandwidthSampler \<Rightarrow> bool" where
  "bs_IsOverestimateAvoidanceEnabled b = overestimateAvoidance b"

definition bs_TotalBytesSent :: "bandwidthSampler \<Rightarrow> byteCount" where
  "bs_TotalBytesSent b = totalBytesSent b"

definition bs_TotalBytesLost :: "bandwidthSampler \<Rightarrow> byteCount" where
  "bs_TotalBytesLost b = totalBytesLost b"

definition bs_TotalBytesAcked :: "bandwidthSampler \<Rightarrow> byteCount" where
  "bs_TotalBytesAcked b = totalBytesAcked b"

definition bs_TotalBytesNeutered :: "bandwidthSampler \<Rightarrow> byteCount" where
  "bs_TotalBytesNeutered b = totalBytesNeutered b"

definition bs_IsAppLimited :: "bandwidthSampler \<Rightarrow> bool" where
  "bs_IsAppLimited b = isAppLimited b"

definition bs_EndOfAppLimitedPhase :: "bandwidthSampler \<Rightarrow> packetNumber" where
  "bs_EndOfAppLimitedPhase b = endOfAppLimitedPhase b"

definition bs_OnPacketSent ::
    "time \<Rightarrow> packetNumber \<Rightarrow> byteCount \<Rightarrow> byteCount \<Rightarrow> bool \<Rightarrow> bandwidthSampler \<Rightarrow>
     bandwidthSampler option" where
  "bs_OnPacketSent sentTime packetNumber bytes bytesInFlight isRetransmittable b =
     (let b = b\<lparr>lastSentPacket := packetNumber\<rparr> in
      if \<not> isRetransmittable then Some b
      else let b = b\<lparr>totalBytesSent := i64 (totalBytesSent b + bytes)\<rparr> in do {
        b \<leftarrow> (if bytesInFlight = 0 then
                let b = b\<lparr>lastAckedPacketAckTime := sentTime\<rparr> in do {
                  b \<leftarrow> (if overestimateAvoidance b then
                          let b = b\<lparr>recentAckPts := rap_Clear (recentAckPts b)\<rparr>;
                              b = b\<lparr>recentAckPts := rap_Update sentTime (totalBytesAcked b) (recentAckPts b)\<rparr>;
                              b = b\<lparr>a0Candidates := rb_Clear ackPoint_zero (a0Candidates b)\<rparr>
                          in do {
                            r \<leftarrow> rb_PushBack ackPoint_zero (rap_MostRecentPoint (recentAckPts b))
                                   (a0Candidates b);
                            Some (b\<lparr>a0Candidates := r\<rparr>)
                          }
                        else Some b);
                  Some (b\<lparr>totalBytesSentAtLastAckedPacket := totalBytesSent b,
                          lastAckedPacketSentTime := sentTime\<rparr>)
                }
              else Some b);
        (_, q) \<leftarrow> pnq_Emplace connectionState_zero packetNumber
                   (Some (newConnectionStateOnSentPacket sentTime bytes (i64 (bytesInFlight + bytes)) b))
                   (connectionStateMap b);
        Some (b\<lparr>connectionStateMap := q\<rparr>)
      })"

definition sentPacketToSendTimeState :: "connectionStateOnSentPacket \<Rightarrow> sendTimeState" where
  "sentPacketToSendTimeState sentPacket = (cs_sendTimeState sentPacket)\<lparr>isValid := True\<rparr>"

definition bs_OnPacketLost ::
    "packetNumber \<Rightarrow> byteCount \<Rightarrow> bandwidthSampler \<Rightarrow> (sendTimeState \<times> bandwidthSampler) option" where
  "bs_OnPacketLost packetNumber bytesLost b =
     (let b = b\<lparr>totalBytesLost := i64 (totalBytesLost b + bytesLost)\<rparr> in do {
        e \<leftarrow> pnq_GetEntry packetNumber (connectionStateMap b);
        Some (case e of None \<Rightarrow> sendTimeState_zero | Some sent \<Rightarrow> sentPacketToSendTimeState sent, b)
      })"

definition bs_OnPacketNeutered :: "packetNumber \<Rightarrow> bandwidthSampler \<Rightarrow> bandwidthSampler option" where
  "bs_OnPacketNeutered packetNumber b = do {
     (_, q, n) \<leftarrow> pnq_Remove connectionState_zero packetNumber
                    (Some (\<lambda>sent n. i64 (n + cs_size sent))) (connectionStateMap b) (totalBytesNeutered b);
     Some (b\<lparr>connectionStateMap := q, totalBytesNeutered := n\<rparr>)
   }"

definition bs_OnAppLimited :: "bandwidthSampler \<Rightarrow> bandwidthSampler" where
  "bs_OnAppLimited b = b\<lparr>isAppLimited := True, endOfAppLimitedPhase := lastSentPacket b\<rparr>"

definition bs_RemoveObsoletePackets :: "packetNumber \<Rightarrow> bandwidthSampler \<Rightarrow> bandwidthSampler option" where
  "bs_RemoveObsoletePackets leastUnacked b = do {
     q \<leftarrow> pnq_RemoveUpTo connectionState_zero leastUnacked (connectionStateMap b);
     Some (b\<lparr>connectionStateMap := q\<rparr>)
   }"

text \<open>
  \<open>chooseA0Point\<close>: the search over the offsets \<open>1, 2, ...\<close>, and the loop that drops candidates when
  no candidate is past the point.  The bound of that loop is read again in every round, while the
  buffer shrinks.
\<close>

fun a0_search :: "byteCount \<Rightarrow> nat list \<Rightarrow> ackPoint RingBuffer \<Rightarrow> nat option option" where
  "a0_search t [] r = Some None"
| "a0_search t (i # is) r = do {
     p \<leftarrow> rb_Offset (int i) r;
     if t < ap_totalBytesAcked (rb_load p r) then Some (Some i) else a0_search t is r
   }"

partial_function (option) a0_drain :: "int \<Rightarrow> ackPoint RingBuffer \<Rightarrow> ackPoint RingBuffer option" where
  "a0_drain k r =
     (if k < rb_Len r - 1 then do {
        r \<leftarrow> map_option snd (rb_PopFront ackPoint_zero r);
        a0_drain (k + 1) r
      } else Some r)"

definition bs_chooseA0Point ::
    "byteCount \<Rightarrow> ackPoint \<Rightarrow> bandwidthSampler \<Rightarrow> (bool \<times> ackPoint \<times> bandwidthSampler) option" where
  "bs_chooseA0Point totalAcked a0 b =
     (let r = a0Candidates b in
      if rb_Empty r then Some (False, a0, b)
      else if rb_Len r = 1 then do { p \<leftarrow> rb_Front r; Some (True, rb_load p r, b) }
      else do {
        found \<leftarrow> a0_search totalAcked [1..<nat (rb_Len r)] r;
        case found of
          Some i \<Rightarrow> do {
            p \<leftarrow> rb_Offset (int (i - 1)) r;
            r' \<leftarrow> (if 1 < i then iter_opt (i - 1) (\<lambda>r. map_option snd (rb_PopFront ackPoint_zero r)) r
                   else Some r);
            Some (True, rb_load p r, b\<lparr>a0Candidates := r'\<rparr>)
          }
        | None \<Rightarrow> do {
            p \<leftarrow> rb_Back r;
            r' \<leftarrow> a0_drain 0 r;
            Some (True, rb_load p r, b\<lparr>a0Candidates := r'\<rparr>)
          }
      })"

text \<open>The bookkeeping of \<open>onPacketAcknowledged\<close>, under the comment \<open>OnPacketAcknowledgedInner\<close>.\<close>

definition bs_ackedInner ::
    "time \<Rightarrow> packetNumber \<Rightarrow> connectionStateOnSentPacket \<Rightarrow> bandwidthSampler \<Rightarrow> bandwidthSampler" where
  "bs_ackedInner ackTime packetNumber sent b =
     (let b = b\<lparr>totalBytesAcked := i64 (totalBytesAcked b + cs_size sent),
                totalBytesSentAtLastAckedPacket := sts_totalBytesSent (cs_sendTimeState sent),
                lastAckedPacketSentTime := cs_sentTime sent,
                lastAckedPacketAckTime := ackTime\<rparr>;
          b = (if overestimateAvoidance b
               then b\<lparr>recentAckPts := rap_Update ackTime (totalBytesAcked b) (recentAckPts b)\<rparr>
               else b)
      in if isAppLimited b \<and>
            (endOfAppLimitedPhase b = invalidPacketNumber \<or> endOfAppLimitedPhase b < packetNumber)
         then b\<lparr>isAppLimited := False\<rparr> else b)"

text \<open>The slope of the bytes sent, from the packet acknowledged last when this one was sent.\<close>

definition bs_sendRate :: "connectionStateOnSentPacket \<Rightarrow> bandwidth option" where
  "bs_sendRate sent =
     (if cs_lastAckedPacketSentTime sent < cs_sentTime sent
      then BandwidthFromDelta
             (i64 (sts_totalBytesSent (cs_sendTimeState sent) - cs_totalBytesSentAtLastAckedPacket sent))
             (time_Sub (cs_sentTime sent) (cs_lastAckedPacketSentTime sent))
      else Some infBandwidth)"

text \<open>The end of \<open>onPacketAcknowledged\<close>: the sample measured from the ack point \<open>a0\<close>.\<close>

definition bs_sampleFrom ::
    "time \<Rightarrow> connectionStateOnSentPacket \<Rightarrow> bandwidth \<Rightarrow> byteCount \<Rightarrow> ackPoint \<Rightarrow> bandwidthSample option" where
  "bs_sampleFrom ackTime sent sendRate acked a0 =
     (if time_Sub ackTime (ap_ackTime a0) \<le> 0 then Some newBandwidthSample
      else do {
        ackRate \<leftarrow> BandwidthFromDelta (i64 (acked - ap_totalBytesAcked a0))
                     (time_Sub ackTime (ap_ackTime a0));
        Some (newBandwidthSample\<lparr>bws_bandwidth := min sendRate ackRate,
                bws_rtt := time_Sub ackTime (cs_sentTime sent),
                bws_sendRate := sendRate,
                bws_stateAtSend := sentPacketToSendTimeState sent\<rparr>)
      })"

definition bs_onPacketAcknowledged ::
    "time \<Rightarrow> packetNumber \<Rightarrow> bandwidthSampler \<Rightarrow> (bandwidthSample \<times> bandwidthSampler) option" where
  "bs_onPacketAcknowledged ackTime packetNumber b =
     (let b = b\<lparr>lastAckedPacket := packetNumber\<rparr> in do {
        e \<leftarrow> pnq_GetEntry packetNumber (connectionStateMap b);
        case e of
          None \<Rightarrow> Some (newBandwidthSample, b)
        | Some sent \<Rightarrow>
            let b = bs_ackedInner ackTime packetNumber sent b in
            if time_IsZero (cs_lastAckedPacketSentTime sent) then Some (newBandwidthSample, b)
            else do {
              sendRate \<leftarrow> bs_sendRate sent;
              (chosen, a0, b) \<leftarrow> (if overestimateAvoidance b
                 then bs_chooseA0Point (sts_totalBytesAcked (cs_sendTimeState sent)) ackPoint_zero b
                 else Some (False, ackPoint_zero, b));
              let a0 = (if chosen then a0
                        else \<lparr>ap_ackTime = cs_lastAckedPacketAckTime sent,
                              ap_totalBytesAcked = sts_totalBytesAcked (cs_sendTimeState sent)\<rparr>)
              in do {
                smp \<leftarrow> bs_sampleFrom ackTime sent sendRate (totalBytesAcked b) a0;
                Some (smp, b)
              }
            }
      })"

definition bs_onAckEventEnd ::
    "bandwidth \<Rightarrow> bool \<Rightarrow> int \<Rightarrow> bandwidthSampler \<Rightarrow> (byteCount \<times> bandwidthSampler) option" where
  "bs_onAckEventEnd bandwidthEstimate isNewMaxBandwidth roundTripCount b =
     (let newlyAckedBytes = i64 (totalBytesAcked b - totalBytesAckedAfterLastAckEvent b) in
      if newlyAckedBytes = 0 then Some (0, b)
      else
        let b = b\<lparr>totalBytesAckedAfterLastAckEvent := totalBytesAcked b\<rparr>;
            (extra, m) = mah_Update bandwidthEstimate isNewMaxBandwidth roundTripCount (lastSentPacket b)
                           (lastAckedPacket b) (lastAckedPacketAckTime b) newlyAckedBytes
                           (ackHeightTracker b);
            b = b\<lparr>ackHeightTracker := m\<rparr>
        in if overestimateAvoidance b \<and> extra = 0 then do {
             r \<leftarrow> rb_PushBack ackPoint_zero (rap_LessRecentPoint (recentAckPts b)) (a0Candidates b);
             Some (extra, b\<lparr>a0Candidates := r\<rparr>)
           }
           else Some (extra, b))"

text \<open>The two loops of \<open>OnCongestionEvent\<close>.\<close>

fun bs_lost_loop ::
    "LostPacketInfo list \<Rightarrow> sendTimeState \<Rightarrow> bandwidthSampler \<Rightarrow> (sendTimeState \<times> bandwidthSampler) option" where
  "bs_lost_loop [] st b = Some (st, b)"
| "bs_lost_loop (p # ps) st b = do {
     (sendState, b) \<leftarrow> bs_OnPacketLost (lost_PacketNumber p) (BytesLost p) b;
     bs_lost_loop ps (if isValid sendState then sendState else st) b
   }"

definition bs_acked_step ::
    "bandwidthSample \<Rightarrow> byteCount \<Rightarrow> congestionEventSample \<times> sendTimeState \<times> bandwidth \<Rightarrow>
     congestionEventSample \<times> sendTimeState \<times> bandwidth" where
  "bs_acked_step smp totalAcked acc =
     (let (ev, st, maxSendRate) = acc in
      if \<not> isValid (bws_stateAtSend smp) then acc
      else
        let st = bws_stateAtSend smp;
            ev = (if bws_rtt smp \<noteq> 0 then ev\<lparr>sampleRtt := min (sampleRtt ev) (bws_rtt smp)\<rparr> else ev);
            ev = (if sampleMaxBandwidth ev < bws_bandwidth smp
                  then ev\<lparr>sampleMaxBandwidth := bws_bandwidth smp,
                          sampleIsAppLimited := sts_isAppLimited (bws_stateAtSend smp)\<rparr>
                  else ev);
            maxSendRate = (if bws_sendRate smp \<noteq> infBandwidth
                           then max maxSendRate (bws_sendRate smp) else maxSendRate);
            inflightSample = i64 (totalAcked - sts_totalBytesAcked st);
            ev = (if sampleMaxInflight ev < inflightSample
                  then ev\<lparr>sampleMaxInflight := inflightSample\<rparr> else ev)
        in (ev, st, maxSendRate))"

fun bs_acked_loop ::
    "time \<Rightarrow> AckedPacketInfo list \<Rightarrow> congestionEventSample \<times> sendTimeState \<times> bandwidth \<Rightarrow>
     bandwidthSampler \<Rightarrow>
     ((congestionEventSample \<times> sendTimeState \<times> bandwidth) \<times> bandwidthSampler) option" where
  "bs_acked_loop ackTime [] acc b = Some (acc, b)"
| "bs_acked_loop ackTime (p # ps) acc b = do {
     (sample, b) \<leftarrow> bs_onPacketAcknowledged ackTime (acked_PacketNumber p) b;
     bs_acked_loop ackTime ps (bs_acked_step sample (totalBytesAcked b) acc) b
   }"

definition bs_OnCongestionEvent ::
    "time \<Rightarrow> AckedPacketInfo list \<Rightarrow> LostPacketInfo list \<Rightarrow> bandwidth \<Rightarrow> bandwidth \<Rightarrow> int \<Rightarrow>
     bandwidthSampler \<Rightarrow> (congestionEventSample \<times> bandwidthSampler) option" where
  "bs_OnCongestionEvent ackTime ackedPackets lostPackets maxBandwidth estBandwidthUpperBound
       roundTripCount b = do {
     (lastLost, b) \<leftarrow> bs_lost_loop lostPackets sendTimeState_zero b;
     if ackedPackets = [] then Some (newCongestionEventSample\<lparr>lastPacketSendState := lastLost\<rparr>, b)
     else do {
       ((ev, lastAcked, maxSendRate), b) \<leftarrow>
         bs_acked_loop ackTime ackedPackets (newCongestionEventSample, sendTimeState_zero, 0) b;
       let ev = ev\<lparr>lastPacketSendState :=
                   (if \<not> isValid lastLost then lastAcked
                    else if \<not> isValid lastAcked then lastLost
                    else if acked_PacketNumber (last ackedPackets) < lost_PacketNumber (last lostPackets)
                    then lastLost else lastAcked)\<rparr>;
           isNewMaxBandwidth = (maxBandwidth < sampleMaxBandwidth ev);
           maxBandwidth = max maxBandwidth (sampleMaxBandwidth ev);
           maxBandwidth = (if limitMaxAckHeightTrackerBySendRate b
                           then max maxBandwidth maxSendRate else maxBandwidth)
       in do {
         (extra, b) \<leftarrow> bs_onAckEventEnd (min estBandwidthUpperBound maxBandwidth) isNewMaxBandwidth
                         roundTripCount b;
         Some (ev\<lparr>extraAcked := extra\<rparr>, b)
       }
     }
   }"

end
