(* ===== verification/SamplerInvariant.thy ===== *)
theory SamplerInvariant
  imports BandwidthSampler
begin

text \<open>
  Correctness of the bandwidth sampler: \<open>chooseA0Point\<close> refined to a function on the list of
  candidates, the invariant \<open>bs_inv\<close> and that every operation keeps it and does not panic, the
  value of a bandwidth sample, the byte counters, and the app-limited rule over runs of the
  sampler (\<open>bs_run\<close>).
\<close>

interpretation extra_acked: comparator maxExtraAckedEventFunc
  by unfold_locales (auto simp: maxExtraAckedEventFunc_def split: if_splits)

subsection \<open>Choosing the A0 point\<close>

text \<open>
  On the list of candidates: the candidate before the first one past \<open>t\<close>, together with the list
  that starts there.
\<close>

fun a0_split :: "byteCount \<Rightarrow> ackPoint list \<Rightarrow> (ackPoint \<times> ackPoint list) option" where
  "a0_split t (x # y # ys) =
     (if t < ap_totalBytesAcked y then Some (x, x # y # ys) else a0_split t (y # ys))"
| "a0_split t xs = None"

definition a0_choose :: "byteCount \<Rightarrow> ackPoint list \<Rightarrow> ackPoint \<times> ackPoint list" where
  "a0_choose t xs =
     (case a0_split t xs of Some r \<Rightarrow> r | None \<Rightarrow> (last xs, drop (length xs div 2) xs))"

lemma a0_search_ok:
  assumes "rb_inv r" "\<forall>i\<in>set is. i < length (rb_list r)"
  shows "a0_search t is r = Some (find (\<lambda>i. t < ap_totalBytesAcked (rb_list r ! i)) is)"
  using assms(2)
proof (induction "is")
  case (Cons i "is")
  then have "i < length (rb_list r)" by simp
  from rb_Offset_ok [OF assms(1) this] obtain p where
    "rb_Offset (int i) r = Some p" "rb_load p r = rb_list r ! i" by blast
  with Cons show ?case by simp
qed simp

lemma a0_split_find:
  assumes "i < length xs"
  shows "a0_split t (drop i xs) =
    map_option (\<lambda>j. (xs ! (j - 1), drop (j - 1) xs))
      (find (\<lambda>j. t < ap_totalBytesAcked (xs ! j)) [Suc i..<length xs])"
  using assms
proof (induction "length xs - i" arbitrary: i)
  case (Suc n)
  then have dx: "drop i xs = xs ! i # drop (Suc i) xs" by (simp add: Cons_nth_drop_Suc)
  show ?case
  proof (cases "Suc i < length xs")
    case True
    then have dy: "drop (Suc i) xs = xs ! Suc i # drop (Suc (Suc i)) xs"
      by (simp add: Cons_nth_drop_Suc)
    have up: "[Suc i..<length xs] = Suc i # [Suc (Suc i)..<length xs]"
      using True by (simp add: upt_conv_Cons)
    have IH: "a0_split t (drop (Suc i) xs) =
      map_option (\<lambda>j. (xs ! (j - 1), drop (j - 1) xs))
        (find (\<lambda>j. t < ap_totalBytesAcked (xs ! j)) [Suc (Suc i)..<length xs])"
      using Suc True by (intro Suc.hyps(1)) auto
    show ?thesis
    proof (cases "t < ap_totalBytesAcked (xs ! Suc i)")
      case True
      then show ?thesis by (simp add: dx dy up)
    next
      case False
      then show ?thesis using IH by (simp add: dx dy up)
    qed
  next
    case False
    then show ?thesis using dx by simp
  qed
qed simp

lemma a0_drain_ok:
  assumes "rb_inv r" "rb_list r = xs"
  shows "\<exists>r'. a0_drain (int k) r = Some r' \<and> rb_inv r' \<and> rb_list r' = drop ((length xs - k) div 2) xs"
  using assms
proof (induction "length xs" arbitrary: xs k r rule: less_induct)
  case less
  have len: "rb_Len r = int (length xs)" using rb_Len_list [OF less.prems(1)] less.prems(2) by simp
  show ?case
  proof (cases "int k < rb_Len r - 1")
    case True
    then obtain y ys where xs: "xs = y # ys" using len by (cases xs) auto
    obtain r1 where r1: "rb_PopFront ackPoint_zero r = Some (y, r1)" "rb_inv r1" "rb_list r1 = ys"
      using rb_PopFront_ok [OF less.prems(1)] less.prems(2) xs by blast
    have "a0_drain (int k) r = a0_drain (int (Suc k)) r1"
      using True r1(1) by (subst a0_drain.simps) (simp add: add.commute)
    moreover obtain r' where "a0_drain (int (Suc k)) r1 = Some r'" "rb_inv r'"
      "rb_list r' = drop ((length ys - Suc k) div 2) ys"
      using less.hyps [OF _ r1(2,3), of "Suc k"] xs by auto
    moreover have "(length xs - k) div 2 = Suc ((length ys - Suc k) div 2)"
      using True len xs by simp
    ultimately show ?thesis using xs by simp
  next
    case False
    then have "(length xs - k) div 2 = 0" using len by simp
    with False less.prems show ?thesis by (subst a0_drain.simps) simp
  qed
qed

text \<open>\<open>chooseA0Point\<close> is \<open>a0_choose\<close> on the list of candidates.\<close>

text \<open>The candidate before the \<open>i\<close>-th one is read, and those in front of it are dropped.\<close>

lemma a0_pop_to:
  assumes "rb_inv r" "rb_list r = xs" "1 \<le> i" "i < length xs"
  shows "\<exists>p r'. rb_Offset (int (i - 1)) r = Some p \<and> rb_load p r = xs ! (i - 1) \<and>
    (if 1 < i then iter_opt (i - 1) (\<lambda>r. map_option snd (rb_PopFront ackPoint_zero r)) r else Some r) = Some r' \<and>
    rb_inv r' \<and> rb_list r' = drop (i - 1) xs"
proof -
  have lt: "i - 1 < length (rb_list r)" using assms(2,4) by simp
  obtain p where p: "rb_Offset (int (i - 1)) r = Some p" "rb_load p r = xs ! (i - 1)"
    using rb_Offset_ok [OF assms(1) lt] assms(2) by metis
  obtain r' where r': "iter_opt (i - 1) (\<lambda>r. map_option snd (rb_PopFront ackPoint_zero r)) r = Some r'"
    "rb_inv r'" "rb_list r' = drop (i - 1) xs"
    using ring_deque.pop_times [OF assms(1) less_imp_le [OF lt]] assms(2) by metis
  with assms(3) have "(if 1 < i then iter_opt (i - 1) (\<lambda>r. map_option snd (rb_PopFront ackPoint_zero r)) r
      else Some r) = Some r'" by (cases "i = 1") auto
  with p r' show ?thesis by blast
qed

lemma bs_chooseA0Point_ok:
  assumes "rb_inv (a0Candidates b)" "rb_list (a0Candidates b) = xs"
  shows "\<exists>r. bs_chooseA0Point t a0 b =
      Some (xs \<noteq> [], if xs = [] then a0 else fst (a0_choose t xs), b\<lparr>a0Candidates := r\<rparr>) \<and>
    rb_inv r \<and> rb_list r = (if xs = [] then [] else snd (a0_choose t xs))"
proof -
  let ?r = "a0Candidates b"
  have len: "rb_Len ?r = int (length xs)" using rb_Len_list [OF assms(1)] assms(2) by simp
  have emp: "rb_Empty ?r \<longleftrightarrow> xs = []" using rb_Empty_list [OF assms(1)] assms(2) by simp
  consider "xs = []" | "length xs = 1" | "1 < length xs" by (cases xs) auto
  then show ?thesis
  proof cases
    case 1
    then show ?thesis
      using emp assms by (intro exI [of _ ?r]) (simp add: bs_chooseA0Point_def)
  next
    case 2
    then obtain x where x: "xs = [x]" by (cases xs) auto
    then obtain p where "rb_Front ?r = Some p" "rb_load p ?r = x"
      using rb_Front_ok [OF assms(1)] assms(2) by fastforce
    with x emp len assms show ?thesis
      by (intro exI [of _ ?r]) (simp add: bs_chooseA0Point_def a0_choose_def)
  next
    case 3
    have ne: "xs \<noteq> []" using 3 by auto
    have s: "a0_search t [1..<nat (rb_Len ?r)] ?r =
        Some (find (\<lambda>i. t < ap_totalBytesAcked (xs ! i)) [1..<length xs])"
      using a0_search_ok [OF assms(1), of "[1..<nat (rb_Len ?r)]" t] assms(2) len by simp
    have sp: "a0_split t xs = map_option (\<lambda>j. (xs ! (j - 1), drop (j - 1) xs))
        (find (\<lambda>j. t < ap_totalBytesAcked (xs ! j)) [1..<length xs])"
      using a0_split_find [of 0 xs t] ne by simp
    show ?thesis
    proof (cases "find (\<lambda>i. t < ap_totalBytesAcked (xs ! i)) [1..<length xs]")
      case None
      obtain p where p: "rb_Back ?r = Some p" "rb_load p ?r = last xs"
        using rb_Back_ok [OF assms(1)] assms(2) ne by fastforce
      obtain r' where "a0_drain 0 ?r = Some r'" "rb_inv r'" "rb_list r' = drop (length xs div 2) xs"
        using a0_drain_ok [OF assms, of 0] by auto
      with 3 None s sp p emp len ne show ?thesis
        by (intro exI [of _ r']) (simp add: bs_chooseA0Point_def a0_choose_def Let_def)
    next
      case (Some i)
      then have i: "1 \<le> i" "i < length xs" by (auto simp: find_Some_iff)
      from a0_pop_to [OF assms this] obtain p r' where
        p: "rb_Offset (int (i - 1)) ?r = Some p" "rb_load p ?r = xs ! (i - 1)"
        and r': "(if 1 < i then iter_opt (i - 1) (\<lambda>r. map_option snd (rb_PopFront ackPoint_zero r)) ?r
           else Some ?r) = Some r'" "rb_inv r'" "rb_list r' = drop (i - 1) xs" by blast
      with 3 Some s sp p r' emp len ne i show ?thesis
        by (intro exI [of _ r']) (simp add: bs_chooseA0Point_def a0_choose_def Let_def)
    qed
  qed
qed

text \<open>
  With candidates in order of bytes acknowledged and the first one not past \<open>t\<close>, the choice is the
  last candidate not past \<open>t\<close>.
\<close>

lemma a0_split_sorted:
  assumes "sorted (map ap_totalBytesAcked xs)" "xs \<noteq> []" "ap_totalBytesAcked (hd xs) \<le> t"
  shows "a0_split t xs =
    (if ap_totalBytesAcked (last xs) \<le> t then None
     else Some (last (filter (\<lambda>x. ap_totalBytesAcked x \<le> t) xs),
       last (filter (\<lambda>x. ap_totalBytesAcked x \<le> t) xs) # filter (\<lambda>x. t < ap_totalBytesAcked x) xs))"
  using assms
proof (induction t xs rule: a0_split.induct)
  case (1 t x y ys)
  show ?case
  proof (cases "t < ap_totalBytesAcked y")
    case True
    then have "\<forall>z\<in>set (y # ys). t < ap_totalBytesAcked z" using "1.prems" by auto
    then have "filter (\<lambda>x. ap_totalBytesAcked x \<le> t) (y # ys) = []"
      "filter (\<lambda>x. t < ap_totalBytesAcked x) (y # ys) = y # ys" "t < ap_totalBytesAcked (last (y # ys))"
      by (auto simp: filter_empty_conv intro!: filter_True)
    with True "1.prems" show ?thesis by auto
  next
    case False
    with 1 show ?thesis by auto
  qed
qed simp_all

subsection \<open>The invariant\<close>

definition bs_inv :: "bandwidthSampler \<Rightarrow> bool" where
  "bs_inv b \<longleftrightarrow>
     pnq_inv (connectionStateMap b) \<and> rb_inv (a0Candidates b) \<and>
     comparator_fn (maxAckHeightFilter (ackHeightTracker b)) = maxExtraAckedEventFunc"

text \<open>The packets the sampler tracks, with the state recorded when each was sent.\<close>

definition tracked :: "bandwidthSampler \<Rightarrow> packetNumber \<Rightarrow> connectionStateOnSentPacket option" where
  "tracked b = pnq_map (connectionStateMap b)"

lemma newBandwidthSampler_inv [simp]: "bs_inv (newBandwidthSampler wl)" "tracked (newBandwidthSampler wl) n = None"
  by (simp_all add: bs_inv_def tracked_def newBandwidthSampler_def newMaxAckHeightTracker_def
      NewWindowedFilter_def)

lemma mah_Update_comparator:
  "comparator_fn (maxAckHeightFilter (snd (mah_Update bw nw rt ls la t n m))) =
   comparator_fn (maxAckHeightFilter m)"
  by (simp add: mah_Update_def mah_reinsert_def mah_newEpoch_def Let_def)

lemma bs_OnPacketSent_ok:
  assumes "bs_inv b" "valid_pn n" "pnq_LastPacket (connectionStateMap b) < n"
  shows "\<exists>b'. bs_OnPacketSent t n bytes infl rt b = Some b' \<and> bs_inv b' \<and>
    lastSentPacket b' = n \<and> isAppLimited b' = isAppLimited b \<and>
    endOfAppLimitedPhase b' = endOfAppLimitedPhase b \<and>
    overestimateAvoidance b' = overestimateAvoidance b \<and>
    totalBytesAcked b' = totalBytesAcked b \<and> totalBytesLost b' = totalBytesLost b \<and>
    totalBytesSent b' = (if rt then i64 (totalBytesSent b + bytes) else totalBytesSent b) \<and>
    pnq_LastPacket (connectionStateMap b') = (if rt then n else pnq_LastPacket (connectionStateMap b)) \<and>
    tracked b' = (if rt then (tracked b)(n \<mapsto> newConnectionStateOnSentPacket t bytes (i64 (infl + bytes)) b')
                  else tracked b)"
proof (cases rt)
  case False
  with assms show ?thesis by (simp add: bs_OnPacketSent_def bs_inv_def tracked_def)
next
  case True
  obtain r where r: "rb_PushBack ackPoint_zero
      (rap_MostRecentPoint (rap_Update t (totalBytesAcked b) (rap_Clear (recentAckPts b))))
      (rb_Clear ackPoint_zero (a0Candidates b)) = Some r" "rb_inv r"
    using rb_PushBack_ok [OF rb_Clear_inv(1) [of ackPoint_zero "a0Candidates b"], where z = ackPoint_zero]
    by blast
  have inv: "pnq_inv (connectionStateMap b)" "rb_inv (a0Candidates b)" using assms(1) by (simp_all add: bs_inv_def)
  note fresh = pnq_Emplace_fresh [OF inv(1) assms(2,3), where z = connectionState_zero]
  consider "infl \<noteq> 0" | "infl = 0" "\<not> overestimateAvoidance b" | "infl = 0" "overestimateAvoidance b" by blast
  then show ?thesis
  proof cases
    case 1
    let ?b = "b\<lparr>lastSentPacket := n, totalBytesSent := i64 (totalBytesSent b + bytes)\<rparr>"
    from fresh [of "newConnectionStateOnSentPacket t bytes (i64 (infl + bytes)) ?b"]
    show ?thesis using True 1 assms(1) inv
      by (auto simp: bs_OnPacketSent_def bs_inv_def tracked_def newConnectionStateOnSentPacket_def)
  next
    case 2
    let ?b = "b\<lparr>lastSentPacket := n, totalBytesSent := i64 (totalBytesSent b + bytes),
      lastAckedPacketAckTime := t, totalBytesSentAtLastAckedPacket := i64 (totalBytesSent b + bytes),
      lastAckedPacketSentTime := t\<rparr>"
    from fresh [of "newConnectionStateOnSentPacket t bytes (i64 (infl + bytes)) ?b"]
    show ?thesis using True 2 assms(1) inv
      by (auto simp: bs_OnPacketSent_def bs_inv_def tracked_def newConnectionStateOnSentPacket_def)
  next
    case 3
    let ?b = "b\<lparr>lastSentPacket := n, totalBytesSent := i64 (totalBytesSent b + bytes),
      lastAckedPacketAckTime := t, totalBytesSentAtLastAckedPacket := i64 (totalBytesSent b + bytes),
      lastAckedPacketSentTime := t\<rparr>"
    from fresh [of "newConnectionStateOnSentPacket t bytes (i64 (infl + bytes)) ?b"]
    show ?thesis using True 3 assms(1) inv r
      by (auto simp: bs_OnPacketSent_def bs_inv_def tracked_def newConnectionStateOnSentPacket_def)
  qed
qed

lemma bs_OnPacketLost_ok:
  assumes "bs_inv b" "in_i64 n"
  shows "bs_OnPacketLost n bytes b =
    Some (case tracked b n of None \<Rightarrow> sendTimeState_zero | Some s \<Rightarrow> sentPacketToSendTimeState s,
          b\<lparr>totalBytesLost := i64 (totalBytesLost b + bytes)\<rparr>)"
  using assms by (simp add: bs_OnPacketLost_def bs_inv_def tracked_def pnq_GetEntry_ok)

lemma bs_OnPacketNeutered_ok:
  assumes "bs_inv b" "in_i64 n"
  shows "\<exists>q. bs_OnPacketNeutered n b = Some (b\<lparr>connectionStateMap := q, totalBytesNeutered :=
      (case tracked b n of None \<Rightarrow> totalBytesNeutered b
       | Some s \<Rightarrow> i64 (totalBytesNeutered b + cs_size s))\<rparr>) \<and>
    pnq_inv q \<and> pnq_map q = (tracked b)(n := None)"
proof (cases "tracked b n")
  case None
  with assms show ?thesis
    by (intro exI [of _ "connectionStateMap b"])
      (simp add: bs_OnPacketNeutered_def bs_inv_def tracked_def pnq_Remove_absent fun_upd_idem)
next
  case (Some s)
  then have "pnq_inv (connectionStateMap b)" "pnq_map (connectionStateMap b) n = Some s"
    using assms by (simp_all add: bs_inv_def tracked_def)
  from pnq_Remove_present [OF this, where z = connectionState_zero and s = "totalBytesNeutered b"
      and f = "Some (\<lambda>sent n. i64 (n + cs_size sent))"] Some
  show ?thesis by (auto simp: bs_OnPacketNeutered_def tracked_def)
qed

lemma bs_RemoveObsoletePackets_ok:
  assumes "bs_inv b"
  shows "\<exists>q. bs_RemoveObsoletePackets n b = Some (b\<lparr>connectionStateMap := q\<rparr>) \<and> pnq_inv q \<and>
    pnq_map q = (\<lambda>k. if k < n then None else tracked b k)"
  using assms pnq_RemoveUpTo_ok [of "connectionStateMap b" connectionState_zero n]
  unfolding bs_RemoveObsoletePackets_def bs_inv_def tracked_def by auto


subsection \<open>Acknowledgements\<close>

lemma u64_time_Sub_pos: "u < t \<Longrightarrow> u64 (time_Sub t u) \<noteq> 0"
proof -
  assume "u < t"
  then have pos: "0 < time_Sub t u" by simp
  with time_Sub_range [of t u] have "in_u64 (time_Sub t u)" by simp
  then have "u64 (time_Sub t u) = time_Sub t u" by (rule u64_id)
  with pos show ?thesis by linarith
qed

lemma bs_sendRate_Some: "\<exists>r. bs_sendRate s = Some r \<and> in_u64 r"
proof (cases "cs_lastAckedPacketSentTime s < cs_sentTime s")
  case True
  then show ?thesis
    using BandwidthFromDelta_Some [OF u64_time_Sub_pos [OF True]] BandwidthFromDelta_range
    by (simp add: bs_sendRate_def) metis
qed (simp add: bs_sendRate_def infBandwidth_def)

text \<open>What a sample for the packet \<open>s\<close> acknowledged at \<open>t\<close> always satisfies.\<close>

definition sample_ok :: "time \<Rightarrow> connectionStateOnSentPacket \<Rightarrow> bandwidthSample \<Rightarrow> bool" where
  "sample_ok t s smp \<longleftrightarrow>
     in_u64 (bws_bandwidth smp) \<and> bws_bandwidth smp \<le> bws_sendRate smp \<and>
     (if isValid (bws_stateAtSend smp)
      then bws_stateAtSend smp = sentPacketToSendTimeState s \<and> bws_rtt smp = time_Sub t (cs_sentTime s) \<and>
           bs_sendRate s = Some (bws_sendRate smp)
      else smp = newBandwidthSample)"

lemma newBandwidthSample_ok [simp]: "sample_ok t s newBandwidthSample"
  by (simp add: sample_ok_def newBandwidthSample_def infBandwidth_def sendTimeState_zero_def)

lemma bs_sampleFrom_Some:
  assumes "bs_sendRate s = Some r" "in_u64 r"
  shows "\<exists>smp. bs_sampleFrom t s r acked a0 = Some smp \<and> sample_ok t s smp"
proof (cases "t \<le> ap_ackTime a0")
  case True
  then show ?thesis by (simp add: bs_sampleFrom_def)
next
  case False
  then have "ap_ackTime a0 < t" by simp
  then obtain a where a: "BandwidthFromDelta (i64 (acked - ap_totalBytesAcked a0))
      (time_Sub t (ap_ackTime a0)) = Some a"
    using BandwidthFromDelta_Some [OF u64_time_Sub_pos] by blast
  then have "in_u64 a" by (rule BandwidthFromDelta_range)
  with False a assms show ?thesis
    by (auto simp: bs_sampleFrom_def sample_ok_def sentPacketToSendTimeState_def newBandwidthSample_def)
qed

lemma bs_onPacketAcknowledged_untracked:
  assumes "bs_inv b" "in_i64 n" "tracked b n = None"
  shows "bs_onPacketAcknowledged t n b = Some (newBandwidthSample, b\<lparr>lastAckedPacket := n\<rparr>)"
  using assms by (simp add: bs_onPacketAcknowledged_def bs_inv_def tracked_def pnq_GetEntry_ok)

text \<open>The sampler after an acknowledgement differs from the bookkeeping in the A0 candidates only.\<close>

lemma bs_onPacketAcknowledged_tracked:
  assumes "bs_inv b" "in_i64 n" "tracked b n = Some s"
  shows "\<exists>smp r. bs_onPacketAcknowledged t n b =
      Some (smp, (bs_ackedInner t n s (b\<lparr>lastAckedPacket := n\<rparr>))\<lparr>a0Candidates := r\<rparr>) \<and>
    rb_inv r \<and> sample_ok t s smp"
proof -
  let ?b = "bs_ackedInner t n s (b\<lparr>lastAckedPacket := n\<rparr>)"
  have q: "pnq_GetEntry n (connectionStateMap b) = Some (Some s)"
    using assms by (simp add: bs_inv_def tracked_def pnq_GetEntry_ok)
  have cand: "a0Candidates ?b = a0Candidates b" and oa: "overestimateAvoidance ?b = overestimateAvoidance b"
    by (simp_all add: bs_ackedInner_def Let_def)
  have inv: "rb_inv (a0Candidates b)" using assms(1) by (simp add: bs_inv_def)
  have keep: "?b\<lparr>a0Candidates := a0Candidates b\<rparr> = ?b" using cand by simp
  show ?thesis
  proof (cases "cs_lastAckedPacketSentTime s = 0")
    case True
    then have "bs_onPacketAcknowledged t n b = Some (newBandwidthSample, ?b)"
      by (simp add: bs_onPacketAcknowledged_def q time_IsZero_def time_zero_def)
    with keep inv show ?thesis by (metis newBandwidthSample_ok)
  next
    case False
    obtain sr where sr: "bs_sendRate s = Some sr" "in_u64 sr" using bs_sendRate_Some by blast
    have "rb_inv (a0Candidates ?b)" using inv cand by simp
    note ch = bs_chooseA0Point_ok [OF this refl, of "sts_totalBytesAcked (cs_sendTimeState s)" ackPoint_zero]
    obtain c a0 r where c: "(if overestimateAvoidance b
        then bs_chooseA0Point (sts_totalBytesAcked (cs_sendTimeState s)) ackPoint_zero ?b
        else Some (False, ackPoint_zero, ?b)) = Some (c, a0, ?b\<lparr>a0Candidates := r\<rparr>)" "rb_inv r"
    proof (cases "overestimateAvoidance b")
      case True
      with ch that show ?thesis by auto
    next
      case False
      with that [of False ackPoint_zero "a0Candidates b"] keep inv show ?thesis by simp
    qed
    let ?b2 = "?b\<lparr>a0Candidates := r\<rparr>"
    obtain smp where "bs_sampleFrom t s sr (totalBytesAcked ?b2) (if c then a0
        else \<lparr>ap_ackTime = cs_lastAckedPacketAckTime s,
              ap_totalBytesAcked = sts_totalBytesAcked (cs_sendTimeState s)\<rparr>) = Some smp"
      "sample_ok t s smp"
      using bs_sampleFrom_Some [OF sr] by blast
    with False sr c oa have "bs_onPacketAcknowledged t n b = Some (smp, ?b2)"
      by (simp add: bs_onPacketAcknowledged_def q time_IsZero_def time_zero_def Let_def)
    with c \<open>sample_ok t s smp\<close> show ?thesis by blast
  qed
qed


lemma bs_ackedInner_fields [simp]:
  "connectionStateMap (bs_ackedInner t n s b) = connectionStateMap b"
  "a0Candidates (bs_ackedInner t n s b) = a0Candidates b"
  "ackHeightTracker (bs_ackedInner t n s b) = ackHeightTracker b"
  "totalBytesAcked (bs_ackedInner t n s b) = i64 (totalBytesAcked b + cs_size s)"
  "totalBytesLost (bs_ackedInner t n s b) = totalBytesLost b"
  "totalBytesSent (bs_ackedInner t n s b) = totalBytesSent b"
  "totalBytesNeutered (bs_ackedInner t n s b) = totalBytesNeutered b"
  "lastSentPacket (bs_ackedInner t n s b) = lastSentPacket b"
  "lastAckedPacket (bs_ackedInner t n s b) = lastAckedPacket b"
  "endOfAppLimitedPhase (bs_ackedInner t n s b) = endOfAppLimitedPhase b"
  "overestimateAvoidance (bs_ackedInner t n s b) = overestimateAvoidance b"
  "isAppLimited (bs_ackedInner t n s b) \<longleftrightarrow> isAppLimited b \<and>
     endOfAppLimitedPhase b \<noteq> invalidPacketNumber \<and> n \<le> endOfAppLimitedPhase b"
  by (auto simp: bs_ackedInner_def Let_def)

text \<open>
  What an ack or a loss leaves alone: the tracked packets, the packets sent so far and the mark of
  the app-limited phase.
\<close>

definition same_sends :: "bandwidthSampler \<Rightarrow> bandwidthSampler \<Rightarrow> bool" where
  "same_sends b b' \<longleftrightarrow>
     connectionStateMap b' = connectionStateMap b \<and> lastSentPacket b' = lastSentPacket b \<and>
     endOfAppLimitedPhase b' = endOfAppLimitedPhase b \<and> totalBytesSent b' = totalBytesSent b \<and>
     totalBytesNeutered b' = totalBytesNeutered b \<and> overestimateAvoidance b' = overestimateAvoidance b"

lemma same_sends_refl [simp]: "same_sends b b"
  by (simp add: same_sends_def)

lemma same_sends_trans: "same_sends a b \<Longrightarrow> same_sends b c \<Longrightarrow> same_sends a c"
  by (simp add: same_sends_def)

lemma same_sends_tracked: "same_sends b b' \<Longrightarrow> tracked b' = tracked b"
  by (simp add: same_sends_def tracked_def)

text \<open>The bytes the sampler counts as acknowledged for a packet number.\<close>

definition tracked_size :: "bandwidthSampler \<Rightarrow> packetNumber \<Rightarrow> byteCount" where
  "tracked_size b n = (case tracked b n of None \<Rightarrow> 0 | Some s \<Rightarrow> cs_size s)"

lemma bs_onPacketAcknowledged_ok:
  assumes "bs_inv b" "in_i64 n" "in_i64 (totalBytesAcked b)"
  shows "\<exists>smp b'. bs_onPacketAcknowledged t n b = Some (smp, b') \<and> bs_inv b' \<and> same_sends b b' \<and>
    totalBytesAcked b' = i64 (totalBytesAcked b + tracked_size b n) \<and>
    totalBytesLost b' = totalBytesLost b \<and> lastAckedPacket b' = n \<and>
    isAppLimited b' = (isAppLimited b \<and> (tracked b n = None \<or>
      (endOfAppLimitedPhase b \<noteq> invalidPacketNumber \<and> n \<le> endOfAppLimitedPhase b))) \<and>
    in_u64 (bws_bandwidth smp) \<and> bws_bandwidth smp \<le> bws_sendRate smp \<and>
    (isValid (bws_stateAtSend smp) \<longrightarrow>
       (\<exists>s. tracked b n = Some s \<and> bws_stateAtSend smp = sentPacketToSendTimeState s))"
proof (cases "tracked b n")
  case None
  note ack = bs_onPacketAcknowledged_untracked [OF assms(1,2) None]
  have "sample_ok t s newBandwidthSample" for s by simp
  then show ?thesis
    using ack assms None
    by (auto simp: bs_inv_def same_sends_def tracked_size_def newBandwidthSample_def
        sendTimeState_zero_def infBandwidth_def)
next
  case (Some s)
  obtain smp r where "bs_onPacketAcknowledged t n b =
      Some (smp, (bs_ackedInner t n s (b\<lparr>lastAckedPacket := n\<rparr>))\<lparr>a0Candidates := r\<rparr>)"
    "rb_inv r" "sample_ok t s smp"
    using bs_onPacketAcknowledged_tracked [OF assms(1,2) Some] by blast
  with Some assms(1) show ?thesis
    by (intro exI [of _ smp])
      (auto simp: bs_inv_def same_sends_def tracked_size_def sample_ok_def split: if_splits)
qed

lemma bs_lost_loop_ok:
  assumes "bs_inv b" "\<forall>p\<in>set lost. in_i64 (lost_PacketNumber p)" "in_i64 (totalBytesLost b)"
  shows "\<exists>st'. bs_lost_loop lost st b =
      Some (st', b\<lparr>totalBytesLost := i64 (totalBytesLost b + sum_list (map BytesLost lost))\<rparr>) \<and>
    (isValid st' \<longrightarrow> st' = st \<or> lost \<noteq> [])"
  using assms
proof (induction lost arbitrary: st b)
  case Nil
  then show ?case by simp
next
  case (Cons p ps)
  let ?b = "b\<lparr>totalBytesLost := i64 (totalBytesLost b + BytesLost p)\<rparr>"
  have "bs_inv ?b" using Cons.prems(1) by (simp add: bs_inv_def)
  moreover have "in_i64 (totalBytesLost ?b)" by (simp add: i64_range)
  ultimately show ?case
    using Cons.prems Cons.IH [of ?b] bs_OnPacketLost_ok [of b "lost_PacketNumber p" "BytesLost p"]
    by (force simp: add.assoc)
qed

lemma bs_acked_loop_ok:
  assumes "bs_inv b" "\<forall>p\<in>set acked. in_i64 (acked_PacketNumber p)" "in_i64 (totalBytesAcked b)"
  shows "\<exists>acc' b'. bs_acked_loop t acked acc b = Some (acc', b') \<and> bs_inv b' \<and> same_sends b b' \<and>
    (in_u64 (sampleMaxBandwidth (fst acc)) \<longrightarrow> in_u64 (sampleMaxBandwidth (fst acc'))) \<and>
    totalBytesAcked b' =
      i64 (totalBytesAcked b + sum_list (map (\<lambda>p. tracked_size b (acked_PacketNumber p)) acked)) \<and>
    totalBytesLost b' = totalBytesLost b \<and>
    isAppLimited b' = (isAppLimited b \<and> (\<forall>p\<in>set acked. tracked b (acked_PacketNumber p) = None \<or>
      (endOfAppLimitedPhase b \<noteq> invalidPacketNumber \<and> acked_PacketNumber p \<le> endOfAppLimitedPhase b)))"
  using assms
proof (induction acked arbitrary: acc b)
  case Nil
  then show ?case by (cases acc) simp
next
  case (Cons p ps)
  let ?n = "acked_PacketNumber p"
  have n: "in_i64 ?n" using Cons.prems(2) by simp
  obtain smp b1 where b1: "bs_onPacketAcknowledged t ?n b = Some (smp, b1)" "bs_inv b1" "same_sends b b1"
    "totalBytesAcked b1 = i64 (totalBytesAcked b + tracked_size b ?n)" "totalBytesLost b1 = totalBytesLost b"
    "in_u64 (bws_bandwidth smp)"
    "isAppLimited b1 = (isAppLimited b \<and> (tracked b ?n = None \<or>
      (endOfAppLimitedPhase b \<noteq> invalidPacketNumber \<and> ?n \<le> endOfAppLimitedPhase b)))"
    using bs_onPacketAcknowledged_ok [OF Cons.prems(1) n Cons.prems(3), of t] by blast
  have step: "in_u64 (sampleMaxBandwidth (fst acc)) \<Longrightarrow>
      in_u64 (sampleMaxBandwidth (fst (bs_acked_step smp (totalBytesAcked b1) acc)))"
    using b1(6) by (cases acc) (simp add: bs_acked_step_def Let_def)
  have ab1: "in_i64 (totalBytesAcked b1)" unfolding b1(4) by (rule i64_range)
  have same: "tracked b1 = tracked b" "endOfAppLimitedPhase b1 = endOfAppLimitedPhase b"
    "tracked_size b1 = tracked_size b"
    using b1(3) by (simp_all add: same_sends_def tracked_size_def tracked_def fun_eq_iff)
  let ?acc = "bs_acked_step smp (totalBytesAcked b1) acc"
  have ps: "\<forall>p\<in>set ps. in_i64 (acked_PacketNumber p)" using Cons.prems(2) by simp
  obtain acc' b' where IH: "bs_acked_loop t ps ?acc b1 = Some (acc', b')" "bs_inv b'" "same_sends b1 b'"
    "in_u64 (sampleMaxBandwidth (fst ?acc)) \<longrightarrow> in_u64 (sampleMaxBandwidth (fst acc'))"
    "totalBytesAcked b' = i64 (totalBytesAcked b1 +
       sum_list (map (\<lambda>p. tracked_size b (acked_PacketNumber p)) ps))"
    "totalBytesLost b' = totalBytesLost b1"
    "isAppLimited b' = (isAppLimited b1 \<and> (\<forall>p\<in>set ps. tracked b (acked_PacketNumber p) = None \<or>
      (endOfAppLimitedPhase b \<noteq> invalidPacketNumber \<and> acked_PacketNumber p \<le> endOfAppLimitedPhase b)))"
    using Cons.IH [OF b1(2) ps ab1, of ?acc] unfolding same by blast
  have "bs_acked_loop t (p # ps) acc b = Some (acc', b')" using b1(1) IH(1) by simp
  moreover have "same_sends b b'" using b1(3) IH(3) by (rule same_sends_trans)
  moreover have "totalBytesAcked b' = i64 (totalBytesAcked b +
      sum_list (map (\<lambda>p. tracked_size b (acked_PacketNumber p)) (p # ps)))"
    using IH(5) b1(4) by (simp add: add.assoc)
  ultimately show ?case
    using IH(2,4,6,7) b1(5,7) step by (intro exI [of _ acc'] exI [of _ b']) auto
qed

lemma bs_onAckEventEnd_ok:
  assumes "bs_inv b"
  shows "\<exists>extra b'. bs_onAckEventEnd bw nw rt b = Some (extra, b') \<and> bs_inv b' \<and> same_sends b b' \<and>
    totalBytesAcked b' = totalBytesAcked b \<and> totalBytesLost b' = totalBytesLost b \<and>
    isAppLimited b' = isAppLimited b"
proof -
  let ?m = "mah_Update bw nw rt (lastSentPacket b) (lastAckedPacket b) (lastAckedPacketAckTime b)
      (i64 (totalBytesAcked b - totalBytesAckedAfterLastAckEvent b)) (ackHeightTracker b)"
  obtain extra m where m: "?m = (extra, m)" by (cases ?m)
  have cmp: "comparator_fn (maxAckHeightFilter m) = maxExtraAckedEventFunc"
    using mah_Update_comparator [of bw nw rt "lastSentPacket b" "lastAckedPacket b"
        "lastAckedPacketAckTime b" "i64 (totalBytesAcked b - totalBytesAckedAfterLastAckEvent b)"
        "ackHeightTracker b"] assms m by (simp add: bs_inv_def)
  obtain r where r: "rb_PushBack ackPoint_zero (rap_LessRecentPoint (recentAckPts b)) (a0Candidates b) = Some r"
    "rb_inv r"
    using rb_PushBack_ok [of "a0Candidates b" ackPoint_zero "rap_LessRecentPoint (recentAckPts b)"] assms
    by (auto simp: bs_inv_def)
  show ?thesis
  proof (cases "i64 (totalBytesAcked b - totalBytesAckedAfterLastAckEvent b) = 0")
    case True
    with assms show ?thesis by (simp add: bs_onAckEventEnd_def)
  next
    case False
    then have "bs_onAckEventEnd bw nw rt b =
      Some (extra, b\<lparr>totalBytesAckedAfterLastAckEvent := totalBytesAcked b, ackHeightTracker := m,
        a0Candidates := (if overestimateAvoidance b \<and> extra = 0 then r else a0Candidates b)\<rparr>)"
      using m r(1) by (simp add: bs_onAckEventEnd_def Let_def)
    with assms cmp r(2) show ?thesis by (simp add: bs_inv_def same_sends_def)
  qed
qed

lemma bs_OnCongestionEvent_ok:
  assumes "bs_inv b" "in_i64 (totalBytesAcked b)" "in_i64 (totalBytesLost b)"
    "\<forall>p\<in>set acked. in_i64 (acked_PacketNumber p)" "\<forall>p\<in>set lost. in_i64 (lost_PacketNumber p)"
  shows "\<exists>ev b'. bs_OnCongestionEvent t acked lost maxBw ub rt b = Some (ev, b') \<and> bs_inv b' \<and>
    same_sends b b' \<and> in_u64 (sampleMaxBandwidth ev) \<and>
    totalBytesAcked b' =
      i64 (totalBytesAcked b + sum_list (map (\<lambda>p. tracked_size b (acked_PacketNumber p)) acked)) \<and>
    totalBytesLost b' = i64 (totalBytesLost b + sum_list (map BytesLost lost)) \<and>
    isAppLimited b' = (isAppLimited b \<and> (\<forall>p\<in>set acked. tracked b (acked_PacketNumber p) = None \<or>
      (endOfAppLimitedPhase b \<noteq> invalidPacketNumber \<and> acked_PacketNumber p \<le> endOfAppLimitedPhase b)))"
proof -
  let ?b = "b\<lparr>totalBytesLost := i64 (totalBytesLost b + sum_list (map BytesLost lost))\<rparr>"
  obtain st where lost: "bs_lost_loop lost sendTimeState_zero b = Some (st, ?b)"
    using bs_lost_loop_ok [OF assms(1,5,3)] by blast
  have b: "bs_inv ?b" "in_i64 (totalBytesAcked ?b)" "same_sends b ?b" "tracked ?b = tracked b"
    using assms(1,2) by (simp_all add: bs_inv_def same_sends_def tracked_def)
  show ?thesis
  proof (cases "acked = []")
    case True
    with lost b assms(2) show ?thesis
      by (simp add: bs_OnCongestionEvent_def newCongestionEventSample_def)
  next
    case False
    obtain ev la sr b1 where l: "bs_acked_loop t acked (newCongestionEventSample, sendTimeState_zero, 0) ?b =
        Some ((ev, la, sr), b1)" "bs_inv b1" "same_sends ?b b1" "in_u64 (sampleMaxBandwidth ev)"
      "totalBytesAcked b1 =
        i64 (totalBytesAcked b + sum_list (map (\<lambda>p. tracked_size b (acked_PacketNumber p)) acked))"
      "totalBytesLost b1 = totalBytesLost ?b"
      "isAppLimited b1 = (isAppLimited b \<and> (\<forall>p\<in>set acked. tracked b (acked_PacketNumber p) = None \<or>
        (endOfAppLimitedPhase b \<noteq> invalidPacketNumber \<and> acked_PacketNumber p \<le> endOfAppLimitedPhase b)))"
      using bs_acked_loop_ok [OF b(1) assms(4) b(2), of t "(newCongestionEventSample, sendTimeState_zero, 0)"] b(4)
      by (force simp: newCongestionEventSample_def tracked_size_def)
    let ?m = "max maxBw (sampleMaxBandwidth ev)"
    obtain extra b2 where e: "bs_onAckEventEnd
        (min ub (if limitMaxAckHeightTrackerBySendRate b1 then max ?m sr else ?m))
        (maxBw < sampleMaxBandwidth ev) rt b1 = Some (extra, b2)" "bs_inv b2" "same_sends b1 b2"
      "totalBytesAcked b2 = totalBytesAcked b1" "totalBytesLost b2 = totalBytesLost b1"
      "isAppLimited b2 = isAppLimited b1"
      using bs_onAckEventEnd_ok [OF l(2)] by blast
    have "same_sends b b2" using b(3) l(3) e(3) same_sends_trans by blast
    with False lost l e show ?thesis
      by (simp add: bs_OnCongestionEvent_def Let_def split del: if_split cong del: if_weak_cong)
  qed
qed


subsection \<open>Runs of the sampler\<close>

text \<open>
  The calls the sender makes, as a step function; a sender numbers its packets in increasing order.
\<close>

datatype sampler_event =
    EvSent time packetNumber byteCount byteCount bool
  | EvCongestion time "AckedPacketInfo list" "LostPacketInfo list" bandwidth bandwidth int
  | EvAppLimited
  | EvObsolete packetNumber

fun bs_step :: "sampler_event \<Rightarrow> bandwidthSampler \<Rightarrow> bandwidthSampler option" where
  "bs_step (EvSent t n bytes infl rt) b = bs_OnPacketSent t n bytes infl rt b"
| "bs_step (EvCongestion t acked lost maxBw ub rt) b =
     map_option snd (bs_OnCongestionEvent t acked lost maxBw ub rt b)"
| "bs_step EvAppLimited b = Some (bs_OnAppLimited b)"
| "bs_step (EvObsolete n) b = bs_RemoveObsoletePackets n b"

fun bs_run :: "sampler_event list \<Rightarrow> bandwidthSampler \<Rightarrow> bandwidthSampler option" where
  "bs_run [] b = Some b"
| "bs_run (e # es) b = Option.bind (bs_step e b) (bs_run es)"

fun ev_last :: "packetNumber \<Rightarrow> sampler_event \<Rightarrow> packetNumber" where
  "ev_last n (EvSent t m bytes infl rt) = m"
| "ev_last n e = n"

fun ev_ok :: "packetNumber \<Rightarrow> sampler_event \<Rightarrow> bool" where
  "ev_ok n (EvSent t m bytes infl rt) \<longleftrightarrow> n < m \<and> valid_pn m"
| "ev_ok n (EvCongestion t acked lost maxBw ub rt) \<longleftrightarrow>
     (\<forall>p\<in>set acked. in_i64 (acked_PacketNumber p)) \<and> (\<forall>p\<in>set lost. in_i64 (lost_PacketNumber p))"
| "ev_ok n e \<longleftrightarrow> True"

fun run_ok :: "packetNumber \<Rightarrow> sampler_event list \<Rightarrow> bool" where
  "run_ok n [] \<longleftrightarrow> True"
| "run_ok n (e # es) \<longleftrightarrow> ev_ok n e \<and> run_ok (ev_last n e) es"

definition bs_ok :: "bandwidthSampler \<Rightarrow> bool" where
  "bs_ok b \<longleftrightarrow> bs_inv b \<and> pnq_LastPacket (connectionStateMap b) \<le> lastSentPacket b \<and>
     in_i64 (totalBytesAcked b) \<and> in_i64 (totalBytesLost b)"

lemma newBandwidthSampler_ok [simp]: "bs_ok (newBandwidthSampler wl)"
proof -
  have "pnq_LastPacket (newPacketNumberIndexedQueue connectionState_zero n) = - 1" for n
    by (simp add: newPacketNumberIndexedQueue_def pnq_LastPacket_def pnq_IsEmpty_def invalidPacketNumber_def)
  moreover have "bs_inv (newBandwidthSampler wl)" by simp
  ultimately show ?thesis by (simp add: bs_ok_def newBandwidthSampler_def invalidPacketNumber_def)
qed

lemma bs_step_ok:
  assumes "bs_ok b" "ev_ok (lastSentPacket b) e"
  shows "\<exists>b'. bs_step e b = Some b' \<and> bs_ok b' \<and> lastSentPacket b' = ev_last (lastSentPacket b) e"
proof (cases e)
  case (EvSent t n bytes infl rt)
  then show ?thesis
    using assms bs_OnPacketSent_ok [of b n t bytes infl rt] by (auto simp: bs_ok_def)
next
  case (EvCongestion t acked lost maxBw ub rt)
  then obtain ev b' where b': "bs_OnCongestionEvent t acked lost maxBw ub rt b = Some (ev, b')" "bs_inv b'"
    "same_sends b b'" "totalBytesAcked b' =
      i64 (totalBytesAcked b + sum_list (map (\<lambda>p. tracked_size b (acked_PacketNumber p)) acked))"
    "totalBytesLost b' = i64 (totalBytesLost b + sum_list (map BytesLost lost))"
    using bs_OnCongestionEvent_ok [of b acked lost t maxBw ub rt] assms by (auto simp: bs_ok_def)
  have "in_i64 (totalBytesAcked b')" "in_i64 (totalBytesLost b')" unfolding b'(4,5) by (rule i64_range)+
  with EvCongestion b'(1-3) assms show ?thesis by (auto simp: bs_ok_def same_sends_def)
next
  case EvAppLimited
  with assms show ?thesis by (simp add: bs_OnAppLimited_def bs_ok_def bs_inv_def)
next
  case (EvObsolete n)
  have inv: "bs_inv b" using assms(1) by (simp add: bs_ok_def)
  obtain q where q: "bs_RemoveObsoletePackets n b = Some (b\<lparr>connectionStateMap := q\<rparr>)" "pnq_inv q"
    using bs_RemoveObsoletePackets_ok [OF inv] by blast
  have "pnq_RemoveUpTo connectionState_zero n (connectionStateMap b) = Some q"
  proof -
    obtain q' where q': "pnq_RemoveUpTo connectionState_zero n (connectionStateMap b) = Some q'"
      using pnq_RemoveUpTo_ok [of "connectionStateMap b" connectionState_zero n] inv by (auto simp: bs_inv_def)
    with q(1) have "b\<lparr>connectionStateMap := q'\<rparr> = b\<lparr>connectionStateMap := q\<rparr>"
      by (simp add: bs_RemoveObsoletePackets_def)
    then have "connectionStateMap (b\<lparr>connectionStateMap := q'\<rparr>) = connectionStateMap (b\<lparr>connectionStateMap := q\<rparr>)"
      by (rule arg_cong)
    with q' show ?thesis by simp
  qed
  then have "pnq_LastPacket q \<le> pnq_LastPacket (connectionStateMap b)"
    using pnq_RemoveUpTo_last [of "connectionStateMap b"] inv by (auto simp: bs_inv_def)
  with EvObsolete q assms(1) show ?thesis by (auto simp: bs_ok_def bs_inv_def)
qed

lemma bs_run_ok:
  "bs_ok b \<Longrightarrow> run_ok (lastSentPacket b) es \<Longrightarrow> \<exists>b'. bs_run es b = Some b' \<and> bs_ok b'"
proof (induction es arbitrary: b)
  case (Cons e es)
  obtain b1 where "bs_step e b = Some b1" "bs_ok b1" "lastSentPacket b1 = ev_last (lastSentPacket b) e"
    using bs_step_ok Cons.prems by auto
  with Cons show ?case by simp
qed simp

subsection \<open>The app-limited phase\<close>

text \<open>
  The events of an app-limited phase that began when packet \<open>m\<close> was the last one sent: packets are
  sent, and packets up to \<open>m\<close> are acknowledged.
\<close>

fun in_phase :: "packetNumber \<Rightarrow> sampler_event \<Rightarrow> bool" where
  "in_phase m (EvCongestion t acked lost maxBw ub rt) \<longleftrightarrow> (\<forall>p\<in>set acked. acked_PacketNumber p \<le> m)"
| "in_phase m EvAppLimited \<longleftrightarrow> False"
| "in_phase m e \<longleftrightarrow> True"

definition phase_inv :: "packetNumber \<Rightarrow> bandwidthSampler \<Rightarrow> bool" where
  "phase_inv m b \<longleftrightarrow> bs_ok b \<and> isAppLimited b \<and> endOfAppLimitedPhase b = m \<and> m \<le> lastSentPacket b \<and>
     (\<forall>n s. m < n \<longrightarrow> tracked b n = Some s \<longrightarrow> sts_isAppLimited (cs_sendTimeState s))"

lemma phase_step:
  assumes "phase_inv m b" "0 \<le> m" "ev_ok (lastSentPacket b) e" "in_phase m e"
  shows "\<exists>b'. bs_step e b = Some b' \<and> phase_inv m b' \<and> lastSentPacket b' = ev_last (lastSentPacket b) e"
proof -
  have ok: "bs_ok b" "bs_inv b" using assms(1) by (simp_all add: phase_inv_def bs_ok_def)
  obtain b' where b': "bs_step e b = Some b'" "bs_ok b'" "lastSentPacket b' = ev_last (lastSentPacket b) e"
    using bs_step_ok [OF ok(1) assms(3)] by blast
  have "phase_inv m b'"
  proof (cases e)
    case (EvSent t n bytes infl rt)
    then have "bs_inv b" "valid_pn n" "pnq_LastPacket (connectionStateMap b) < n"
      using assms(3) ok by (auto simp: bs_ok_def)
    from bs_OnPacketSent_ok [OF this, of t bytes infl rt] show ?thesis
      using EvSent b' assms(1,3)
      by (auto simp: phase_inv_def newConnectionStateOnSentPacket_def newSendTimeState_def split: if_splits)
  next
    case (EvCongestion t acked lost maxBw ub rt)
    have "in_i64 (totalBytesAcked b)" "in_i64 (totalBytesLost b)" using ok(1) by (simp_all add: bs_ok_def)
    with EvCongestion bs_OnCongestionEvent_ok [OF ok(2), of acked lost t maxBw ub rt] b'(1) assms(3)
    have "same_sends b b'" "isAppLimited b' = (isAppLimited b \<and>
        (\<forall>p\<in>set acked. tracked b (acked_PacketNumber p) = None \<or>
          (endOfAppLimitedPhase b \<noteq> invalidPacketNumber \<and> acked_PacketNumber p \<le> endOfAppLimitedPhase b)))"
      by auto
    with EvCongestion assms b'(2) same_sends_tracked [of b b'] show ?thesis
      by (auto simp: phase_inv_def same_sends_def invalidPacketNumber_def)
  next
    case (EvObsolete n)
    with bs_RemoveObsoletePackets_ok [OF ok(2), of n] b' assms(1) show ?thesis
      by (auto simp: phase_inv_def tracked_def split: if_splits)
  qed (use assms(4) in simp)
  with b' show ?thesis by blast
qed

lemma phase_run:
  "phase_inv m b \<Longrightarrow> 0 \<le> m \<Longrightarrow> run_ok (lastSentPacket b) es \<Longrightarrow> \<forall>e\<in>set es. in_phase m e \<Longrightarrow>
   \<exists>b'. bs_run es b = Some b' \<and> phase_inv m b'"
proof (induction es arbitrary: b)
  case (Cons e es)
  obtain b1 where "bs_step e b = Some b1" "phase_inv m b1" "lastSentPacket b1 = ev_last (lastSentPacket b) e"
    using phase_step [of m b e] Cons.prems by auto
  with Cons show ?case by simp
qed simp

lemma phase_start:
  assumes "bs_ok b"
  shows "phase_inv (lastSentPacket b) (bs_OnAppLimited b)"
proof -
  have "tracked b n = Some s \<Longrightarrow> n \<le> lastSentPacket b" for n s
    using assms pnq_map_Some_range(2) [of "connectionStateMap b" n s]
    by (force simp: bs_ok_def bs_inv_def tracked_def)
  then show ?thesis
    using assms by (force simp: phase_inv_def bs_OnAppLimited_def bs_ok_def bs_inv_def tracked_def)
qed

subsection \<open>Properties\<close>

text \<open>
  C3: the sampler never panics: whatever packets are sent in increasing order of their numbers,
  acknowledged, declared lost, forgotten or marked app-limited, every call returns and keeps the invariant.
\<close>

theorem bs_run_safe:
  assumes "run_ok (- 1) es"
  shows "\<exists>b. bs_run es (newBandwidthSampler wl) = Some b \<and> bs_ok b"
proof -
  have "lastSentPacket (newBandwidthSampler wl) = - 1"
    by (simp add: newBandwidthSampler_def invalidPacketNumber_def)
  with bs_run_ok [OF newBandwidthSampler_ok, of wl es] assms show ?thesis by simp
qed

lemma bs_run_safe_witness:
  "\<exists>b. bs_run [EvSent 5 0 1200 0 True, EvSent 6 3 1200 1200 True, EvAppLimited,
      EvCongestion 9 [\<lparr>acked_PacketNumber = 0, BytesAcked = 1200\<rparr>] [\<lparr>lost_PacketNumber = 3, BytesLost = 1200\<rparr>] 0 8 1,
      EvObsolete 2] (newBandwidthSampler 10) = Some b \<and> bs_ok b"
  by (rule bs_run_safe) (simp add: valid_pn_def)

text \<open>
  C24: the byte counters and the app-limited flag after a congestion event: every acknowledged packet
  that is tracked adds its size, every lost packet adds its reported bytes, the tracked packets are
  unchanged, and the app-limited phase lasts unless a tracked packet sent after it began was acknowledged.
\<close>

theorem bs_OnCongestionEvent_counters:
  assumes "bs_ok b" "\<forall>p\<in>set acked. in_i64 (acked_PacketNumber p)" "\<forall>p\<in>set lost. in_i64 (lost_PacketNumber p)"
  shows "\<exists>ev b'. bs_OnCongestionEvent t acked lost maxBw ub rt b = Some (ev, b') \<and>
    totalBytesAcked b' =
      i64 (totalBytesAcked b + (\<Sum>p\<leftarrow>acked. case tracked b (acked_PacketNumber p) of Some s \<Rightarrow> cs_size s | None \<Rightarrow> 0)) \<and>
    totalBytesLost b' = i64 (totalBytesLost b + (\<Sum>p\<leftarrow>lost. BytesLost p)) \<and>
    totalBytesSent b' = totalBytesSent b \<and> tracked b' = tracked b \<and>
    isAppLimited b' = (isAppLimited b \<and> (\<forall>p\<in>set acked. tracked b (acked_PacketNumber p) = None \<or>
      (endOfAppLimitedPhase b \<noteq> - 1 \<and> acked_PacketNumber p \<le> endOfAppLimitedPhase b)))"
proof -
  have b: "bs_inv b" "in_i64 (totalBytesAcked b)" "in_i64 (totalBytesLost b)"
    using assms(1) by (simp_all add: bs_ok_def)
  from bs_OnCongestionEvent_ok [OF b assms(2,3), of t maxBw ub rt] obtain ev b' where
    "bs_OnCongestionEvent t acked lost maxBw ub rt b = Some (ev, b')" "same_sends b b'"
    "totalBytesAcked b' = i64 (totalBytesAcked b + sum_list (map (\<lambda>p. tracked_size b (acked_PacketNumber p)) acked))"
    "totalBytesLost b' = i64 (totalBytesLost b + sum_list (map BytesLost lost))"
    "isAppLimited b' = (isAppLimited b \<and> (\<forall>p\<in>set acked. tracked b (acked_PacketNumber p) = None \<or>
      (endOfAppLimitedPhase b \<noteq> invalidPacketNumber \<and> acked_PacketNumber p \<le> endOfAppLimitedPhase b)))"
    by blast
  moreover have "(\<Sum>p\<leftarrow>acked. case tracked b (acked_PacketNumber p) of Some s \<Rightarrow> cs_size s | None \<Rightarrow> 0) =
      sum_list (map (\<lambda>p. tracked_size b (acked_PacketNumber p)) acked)"
    by (simp add: tracked_size_def)
  moreover have "totalBytesSent b' = totalBytesSent b" "tracked b' = tracked b"
    using \<open>same_sends b b'\<close> by (simp_all add: same_sends_def tracked_def)
  ultimately show ?thesis by (simp add: invalidPacketNumber_def)
qed

lemma bs_OnCongestionEvent_counters_witness:
  "\<exists>ev b'. bs_OnCongestionEvent 9 [\<lparr>acked_PacketNumber = 4, BytesAcked = 1200\<rparr>]
      [\<lparr>lost_PacketNumber = 3, BytesLost = 1200\<rparr>] 0 8 1 (newBandwidthSampler 10) = Some (ev, b') \<and>
    totalBytesLost b' = 1200"
  using bs_OnCongestionEvent_counters [of "newBandwidthSampler 10" "[\<lparr>acked_PacketNumber = 4, BytesAcked = 1200\<rparr>]"
      "[\<lparr>lost_PacketNumber = 3, BytesLost = 1200\<rparr>]" 9 0 8 1]
  by (auto simp: newBandwidthSampler_def [THEN arg_cong [of _ _ totalBytesLost]])

text \<open>
  C4: the value of a bandwidth sample: for a tracked packet, without overestimate avoidance and
  overflow, the sample is the smaller of the rate at which bytes were sent since the packet acknowledged
  last before it and the rate at which bytes were acknowledged since then, in bits per second, together with
  the round-trip time and the state recorded when the packet was sent.
\<close>

theorem bs_sample_value:
  assumes "bs_inv b" "in_i64 n" "tracked b n = Some s" "\<not> overestimateAvoidance b"
    and times: "cs_lastAckedPacketSentTime s \<noteq> 0" "cs_lastAckedPacketSentTime s < cs_sentTime s"
      "cs_lastAckedPacketAckTime s < t" "cs_sentTime s - cs_lastAckedPacketSentTime s < 2 ^ 63"
      "t - cs_lastAckedPacketAckTime s < 2 ^ 63" "in_i64 (t - cs_sentTime s)"
    and sent: "x = sts_totalBytesSent (cs_sendTimeState s) - cs_totalBytesSentAtLastAckedPacket s"
      "0 \<le> x" "x * 1000000000 < 2 ^ 61"
    and acked: "y = totalBytesAcked b + cs_size s - sts_totalBytesAcked (cs_sendTimeState s)"
      "0 \<le> y" "y * 1000000000 < 2 ^ 61"
  shows "\<exists>b'. bs_onPacketAcknowledged t n b =
    Some (\<lparr>bws_bandwidth = min (x * 1000000000 div (cs_sentTime s - cs_lastAckedPacketSentTime s) * 8)
              (y * 1000000000 div (t - cs_lastAckedPacketAckTime s) * 8),
            bws_rtt = t - cs_sentTime s,
            bws_sendRate = x * 1000000000 div (cs_sentTime s - cs_lastAckedPacketSentTime s) * 8,
            bws_stateAtSend = (cs_sendTimeState s)\<lparr>isValid := True\<rparr>\<rparr>, b')"
proof -
  have q: "pnq_GetEntry n (connectionStateMap b) = Some (Some s)"
    using assms(1-3) by (simp add: bs_inv_def tracked_def pnq_GetEntry_ok)
  have sd: "time_Sub (cs_sentTime s) (cs_lastAckedPacketSentTime s) = cs_sentTime s - cs_lastAckedPacketSentTime s"
    "time_Sub t (cs_lastAckedPacketAckTime s) = t - cs_lastAckedPacketAckTime s"
    "time_Sub t (cs_sentTime s) = t - cs_sentTime s"
    using times by (simp_all add: time_Sub_id)
  have "x < 2 ^ 63" "y < 2 ^ 63" using sent(2,3) acked(2,3) by simp_all
  then have xy: "i64 x = x" "i64 y = y" using sent(2) acked(2) by simp_all
  have sr: "bs_sendRate s = Some (x * 1000000000 div (cs_sentTime s - cs_lastAckedPacketSentTime s) * 8)"
    using times sent(2,3) by (simp add: bs_sendRate_def sd xy BandwidthFromDelta_eq flip: sent(1))
  have yy: "i64 (i64 (totalBytesAcked b + cs_size s) - sts_totalBytesAcked (cs_sendTimeState s)) = y"
    using xy(2) by (simp add: acked(1))
  have ar: "BandwidthFromDelta y (t - cs_lastAckedPacketAckTime s) =
      Some (y * 1000000000 div (t - cs_lastAckedPacketAckTime s) * 8)"
    using times acked(2,3) by (simp add: BandwidthFromDelta_eq)
  show ?thesis
    using q times(1,3) assms(4) sr yy ar sd
    by (simp add: bs_onPacketAcknowledged_def time_IsZero_def time_zero_def bs_sampleFrom_def Let_def
        newBandwidthSample_def sentPacketToSendTimeState_def)
qed

text \<open>A sampler that tracks one packet, for concrete instances.\<close>

definition one_packet :: bandwidthSampler where
  "one_packet = (newBandwidthSampler 10)\<lparr>totalBytesAcked := 1200, connectionStateMap :=
     \<lparr>entries = \<lparr>ring = [\<lparr>present = True, entry = \<lparr>cs_sentTime = 3000000, cs_size = 1200,
          cs_totalBytesSentAtLastAckedPacket = 1200, cs_lastAckedPacketSentTime = 1000000,
          cs_lastAckedPacketAckTime = 2000000,
          cs_sendTimeState = newSendTimeState False 3600 1200 0 2400\<rparr>\<rparr>],
        headPos = 0, tailPos = 0, full = True\<rparr>,
      numberOfPresentEntries = 1, firstPacket = 7\<rparr>\<rparr>"

lemma bs_sample_value_witness:
  "\<exists>b'. bs_onPacketAcknowledged 5000000 7 one_packet =
    Some (\<lparr>bws_bandwidth = min (2400 * 1000000000 div (3000000 - 1000000) * 8)
              (1200 * 1000000000 div (5000000 - 2000000) * 8),
            bws_rtt = 5000000 - 3000000, bws_sendRate = 2400 * 1000000000 div (3000000 - 1000000) * 8,
            bws_stateAtSend = (newSendTimeState False 3600 1200 0 2400)\<lparr>isValid := True\<rparr>\<rparr>, b')"
proof -
  let ?s = "\<lparr>cs_sentTime = 3000000, cs_size = 1200, cs_totalBytesSentAtLastAckedPacket = 1200,
    cs_lastAckedPacketSentTime = 1000000, cs_lastAckedPacketAckTime = 2000000,
    cs_sendTimeState = newSendTimeState False 3600 1200 0 2400\<rparr>"
  have "bs_inv one_packet"
    by (simp add: bs_inv_def one_packet_def newBandwidthSampler_def newMaxAckHeightTracker_def
        NewWindowedFilter_def pnq_inv_def pnq_pos_def rb_inv_def rb_list_def rb_Len_def rb_Init_def rb_zero_def)
  moreover have "tracked one_packet 7 = Some ?s"
    by (simp add: tracked_def one_packet_def pnq_map_def rb_list_def rb_Len_def)
  moreover have "\<not> overestimateAvoidance one_packet" "totalBytesAcked one_packet = 1200"
    by (simp_all add: one_packet_def newBandwidthSampler_def)
  ultimately show ?thesis
    using bs_sample_value [of one_packet 7 ?s 5000000 2400 1200] by (simp add: newSendTimeState_def)
qed

text \<open>
  C34: the choice of the A0 point: with candidates in order of the bytes acknowledged, the first not past
  \<open>n\<close>, \<open>chooseA0Point\<close> returns the last candidate that is not past \<open>n\<close>.  If a later candidate exists, the
  candidates before the chosen one are dropped; otherwise only the first half of the buffer is, since the loop
  reads the shrinking length again in every round.
\<close>

theorem bs_chooseA0Point_spec:
  assumes "rb_inv (a0Candidates b)" "rb_list (a0Candidates b) = xs" "xs \<noteq> []"
    "sorted (map ap_totalBytesAcked xs)" "ap_totalBytesAcked (hd xs) \<le> n"
  shows "\<exists>r. bs_chooseA0Point n a0 b =
      Some (True, last (filter (\<lambda>x. ap_totalBytesAcked x \<le> n) xs), b\<lparr>a0Candidates := r\<rparr>) \<and> rb_inv r \<and>
    rb_list r = (if ap_totalBytesAcked (last xs) \<le> n then drop (length xs div 2) xs
      else last (filter (\<lambda>x. ap_totalBytesAcked x \<le> n) xs) # filter (\<lambda>x. n < ap_totalBytesAcked x) xs)"
proof -
  have "last xs = last (filter (\<lambda>x. ap_totalBytesAcked x \<le> n) xs)" if "ap_totalBytesAcked (last xs) \<le> n"
    using that assms(3) by (cases xs rule: rev_cases) auto
  then have c: "a0_choose n xs = (last (filter (\<lambda>x. ap_totalBytesAcked x \<le> n) xs),
      if ap_totalBytesAcked (last xs) \<le> n then drop (length xs div 2) xs
      else last (filter (\<lambda>x. ap_totalBytesAcked x \<le> n) xs) # filter (\<lambda>x. n < ap_totalBytesAcked x) xs)"
    by (simp add: a0_choose_def a0_split_sorted [OF assms(4,3,5)])
  from bs_chooseA0Point_ok [OF assms(1,2), of n a0] assms(3) show ?thesis by (simp add: c)
qed

lemma bs_chooseA0Point_spec_witness:
  "\<exists>r. bs_chooseA0Point 7 ackPoint_zero ((newBandwidthSampler 10)\<lparr>a0Candidates :=
        \<lparr>ring = map (ackPoint.make 1) [1, 3, 5, 9], headPos = 0, tailPos = 0, full = True\<rparr>\<rparr>) =
      Some (True, last (filter (\<lambda>x. ap_totalBytesAcked x \<le> 7) (map (ackPoint.make 1) [1, 3, 5, 9])),
        ((newBandwidthSampler 10)\<lparr>a0Candidates :=
          \<lparr>ring = map (ackPoint.make 1) [1, 3, 5, 9], headPos = 0, tailPos = 0, full = True\<rparr>\<rparr>)\<lparr>a0Candidates := r\<rparr>)"
proof -
  let ?r = "\<lparr>ring = map (ackPoint.make 1) [1, 3, 5, 9], headPos = 0, tailPos = 0, full = True\<rparr>"
  have "rb_inv ?r" "rb_list ?r = map (ackPoint.make 1) [1, 3, 5, 9]"
    by (simp_all add: rb_inv_def rb_list_def rb_Len_def upt_rec)
  then show ?thesis
    using bs_chooseA0Point_spec [of "(newBandwidthSampler 10)\<lparr>a0Candidates := ?r\<rparr>"
        "map (ackPoint.make 1) [1, 3, 5, 9]" 7 ackPoint_zero]
    by (auto simp: ackPoint.make_def)
qed

text \<open>
  C25: the app-limited phase: after \<open>OnAppLimited\<close>, while only packets sent up to that moment are
  acknowledged, the sampler stays app-limited, and every packet sent since then is recorded as app-limited.
\<close>

theorem app_limited_phase:
  assumes "bs_ok b" "0 \<le> lastSentPacket b" "run_ok (lastSentPacket b) es"
    "\<forall>e\<in>set es. in_phase (lastSentPacket b) e"
  shows "\<exists>b'. bs_run es (bs_OnAppLimited b) = Some b' \<and> isAppLimited b' \<and>
    (\<forall>n s. lastSentPacket b < n \<longrightarrow> tracked b' n = Some s \<longrightarrow> sts_isAppLimited (cs_sendTimeState s))"
proof -
  have "lastSentPacket (bs_OnAppLimited b) = lastSentPacket b" by (simp add: bs_OnAppLimited_def)
  with phase_run [OF phase_start [OF assms(1)] assms(2), of es] assms(3,4) show ?thesis
    by (auto simp: phase_inv_def)
qed

lemma app_limited_phase_witness:
  "\<exists>b'. bs_run [EvSent 8 9 1200 1200 True,
        EvCongestion 9 [\<lparr>acked_PacketNumber = 4, BytesAcked = 1200\<rparr>] [] 0 8 1]
      (bs_OnAppLimited ((newBandwidthSampler 10)\<lparr>lastSentPacket := 4\<rparr>)) = Some b' \<and> isAppLimited b'"
proof -
  have "bs_ok ((newBandwidthSampler 10)\<lparr>lastSentPacket := 4\<rparr>)"
    using newBandwidthSampler_ok [of 10]
    by (auto simp: bs_ok_def bs_inv_def newBandwidthSampler_def invalidPacketNumber_def)
  then show ?thesis
    using app_limited_phase [of "(newBandwidthSampler 10)\<lparr>lastSentPacket := 4\<rparr>" "[EvSent 8 9 1200 1200 True,
        EvCongestion 9 [\<lparr>acked_PacketNumber = 4, BytesAcked = 1200\<rparr>] [] 0 8 1]"]
    by (auto simp: valid_pn_def)
qed

text \<open>
  Round trip of the send state: declaring a packet lost right after it was sent returns the state
  recorded at its sending: valid, with the bytes sent including the packet, the bytes acknowledged and lost
  so far, and the bytes in flight including the packet.
\<close>

lemma bs_sent_then_lost:
  assumes "bs_ok b" "valid_pn n" "lastSentPacket b < n"
  shows "\<exists>b1 b2. bs_OnPacketSent t n bytes infl True b = Some b1 \<and>
    bs_OnPacketLost n bytes b1 =
      Some (\<lparr>isValid = True, sts_isAppLimited = isAppLimited b,
              sts_totalBytesSent = i64 (totalBytesSent b + bytes), sts_totalBytesAcked = totalBytesAcked b,
              sts_totalBytesLost = totalBytesLost b, sts_bytesInFlight = i64 (infl + bytes)\<rparr>, b2) \<and>
    totalBytesLost b2 = i64 (totalBytesLost b + bytes)"
proof -
  have "bs_inv b" "pnq_LastPacket (connectionStateMap b) < n" using assms by (simp_all add: bs_ok_def)
  from bs_OnPacketSent_ok [OF this(1) assms(2) this(2), of t bytes infl True] obtain b1 where
    b1: "bs_OnPacketSent t n bytes infl True b = Some b1" "bs_inv b1" "isAppLimited b1 = isAppLimited b"
      "totalBytesAcked b1 = totalBytesAcked b" "totalBytesLost b1 = totalBytesLost b"
      "totalBytesSent b1 = i64 (totalBytesSent b + bytes)"
      "tracked b1 n = Some (newConnectionStateOnSentPacket t bytes (i64 (infl + bytes)) b1)" by auto
  have "in_i64 n" using assms(2) by (simp add: valid_pn_def)
  from bs_OnPacketLost_ok [OF b1(2) this, of bytes] b1 show ?thesis
    by (simp add: sentPacketToSendTimeState_def newConnectionStateOnSentPacket_def newSendTimeState_def)
qed

end
