(* ===== verification/Pacer.thy ===== *)
theory Pacer
  imports CongestionApi
begin

text \<open>
  The token-bucket pacer of \<open>src/internal/congestion/common/pacer.go\<close>.  The callback
  \<open>getBandwidth\<close> only reads the sender that owns the pacer, so every operation takes its value
  \<open>bw\<close> (bytes per second) instead.  Shown here: the budget stays between zero and the burst size,
  a run of paced sends keeps to the rate (\<open>pacer_run_rate\<close>), and a sender that waits until
  \<open>TimeUntilSend\<close> has the budget for a full datagram (\<open>pacer_ready\<close>), in spite of the
  floating-point division in the computation of the delay.
\<close>

record Pacer =
  budgetAtLastSent :: byteCount
  p_maxDatagramSize :: byteCount
  p_lastSentTime :: time

definition pacer_maxBurstPackets :: int where
  "pacer_maxBurstPackets = 10"

definition NewPacer :: "congestion_consts \<Rightarrow> Pacer" where
  "NewPacer K =
     \<lparr>budgetAtLastSent = pacer_maxBurstPackets * InitialPacketSizeIPv4 K,
      p_maxDatagramSize = InitialPacketSizeIPv4 K, p_lastSentTime = time_zero\<rparr>"

definition maxByteCount :: "byteCount \<Rightarrow> byteCount \<Rightarrow> byteCount" where
  "maxByteCount a b = (if a < b then b else a)"

definition minByteCount :: "byteCount \<Rightarrow> byteCount \<Rightarrow> byteCount" where
  "minByteCount a b = (if a < b then a else b)"

definition maxDuration :: "duration \<Rightarrow> duration \<Rightarrow> duration" where
  "maxDuration a b = (if b < a then a else b)"

definition pacer_maxBurstSize :: "congestion_consts \<Rightarrow> byteCount \<Rightarrow> Pacer \<Rightarrow> byteCount" where
  "pacer_maxBurstSize K bw p =
     maxByteCount
       (i64 (i64 (MinPacingDelay K + time_Millisecond) * bw) sdiv 1000000000)
       (i64 (pacer_maxBurstPackets * p_maxDatagramSize p))"

definition pacer_Budget :: "congestion_consts \<Rightarrow> byteCount \<Rightarrow> time \<Rightarrow> Pacer \<Rightarrow> byteCount" where
  "pacer_Budget K bw now p =
     (if time_IsZero (p_lastSentTime p) then pacer_maxBurstSize K bw p
      else
        let budget = i64 (budgetAtLastSent p +
              i64 (bw * time_Sub now (p_lastSentTime p)) sdiv 1000000000);
            budget = (if budget < 0 then 2 ^ 62 - 1 else budget)
        in minByteCount (pacer_maxBurstSize K bw p) budget)"

definition pacer_SentPacket ::
    "congestion_consts \<Rightarrow> byteCount \<Rightarrow> time \<Rightarrow> byteCount \<Rightarrow> Pacer \<Rightarrow> Pacer" where
  "pacer_SentPacket K bw sendTime sz p =
     (let budget = pacer_Budget K bw sendTime p;
          p = (if budget < sz then p\<lparr>budgetAtLastSent := 0\<rparr>
               else p\<lparr>budgetAtLastSent := i64 (budget - sz)\<rparr>)
      in p\<lparr>p_lastSentTime := sendTime\<rparr>)"

text \<open>
  The delay in nanoseconds.  With a zero bandwidth the division gives \<open>+Inf\<close>, whose conversion to
  an integer Go leaves unspecified.
\<close>

definition pacer_delay :: "byteCount \<Rightarrow> Pacer \<Rightarrow> duration" where
  "pacer_delay bw p =
     (if bw = 0 then undefined p
      else f64_to_i64 (of_int \<lceil>f64_div
             (f64_mul (f64_of_int (i64 (p_maxDatagramSize p - budgetAtLastSent p))) 1000000000)
             (f64_of_int bw)\<rceil>))"

definition pacer_TimeUntilSend :: "congestion_consts \<Rightarrow> byteCount \<Rightarrow> Pacer \<Rightarrow> time" where
  "pacer_TimeUntilSend K bw p =
     (if p_maxDatagramSize p \<le> budgetAtLastSent p then time_zero
      else time_Add (p_lastSentTime p) (maxDuration (MinPacingDelay K) (pacer_delay bw p)))"

definition pacer_SetMaxDatagramSize :: "byteCount \<Rightarrow> Pacer \<Rightarrow> Pacer" where
  "pacer_SetMaxDatagramSize s p = p\<lparr>p_maxDatagramSize := s\<rparr>"

subsection \<open>Bounds of the budget\<close>

lemma maxByteCount_max: "maxByteCount a b = max a b"
  by (simp add: maxByteCount_def max_def)

lemma minByteCount_min: "minByteCount a b = min a b"
  by (simp add: minByteCount_def min_def)

lemma pacer_Budget_le_burst: "pacer_Budget K bw now p \<le> pacer_maxBurstSize K bw p"
  by (simp add: pacer_Budget_def Let_def minByteCount_min)

lemma pacer_maxBurst_ge:
  assumes "0 \<le> p_maxDatagramSize p" "p_maxDatagramSize p < 2 ^ 59"
  shows "10 * p_maxDatagramSize p \<le> pacer_maxBurstSize K bw p"
  using assms by (simp add: pacer_maxBurstSize_def maxByteCount_max pacer_maxBurstPackets_def)

lemma pacer_Budget_nonneg:
  assumes "0 \<le> p_maxDatagramSize p" "p_maxDatagramSize p < 2 ^ 59"
  shows "0 \<le> pacer_Budget K bw now p"
  using pacer_maxBurst_ge [OF assms, of K bw] assms
  by (auto simp: pacer_Budget_def Let_def minByteCount_min)

text \<open>
  Whatever the bandwidth and the clock are, also where products wrap around, a send leaves a budget that is small and
  not negative.
\<close>

lemma pacer_Budget_small:
  assumes "0 \<le> p_maxDatagramSize p" "p_maxDatagramSize p < 2 ^ 16"
  shows "pacer_Budget K bw now p < 2 ^ 36"
proof -
  let ?x = "i64 (i64 (MinPacingDelay K + time_Millisecond) * bw)"
  have "?x sdiv 1000000000 \<le> 2 ^ 63 div 1000000000"
  proof (cases "0 \<le> ?x")
    case True
    moreover have "?x \<le> 2 ^ 63" using i64_range [of "i64 (MinPacingDelay K + time_Millisecond) * bw"] by linarith
    ultimately show ?thesis using zdiv_mono1 [of ?x "2 ^ 63" 1000000000] by (simp add: sdiv_pos_eq)
  next
    case False
    then have "?x sdiv 1000000000 \<le> 0" by (simp add: signed_divide_int_def sgn_if)
    then show ?thesis by simp
  qed
  moreover have "i64 (pacer_maxBurstPackets * p_maxDatagramSize p) = 10 * p_maxDatagramSize p"
    using assms by (simp add: pacer_maxBurstPackets_def)
  ultimately have "pacer_maxBurstSize K bw p < 2 ^ 36"
    using assms by (simp add: pacer_maxBurstSize_def maxByteCount_max)
  with pacer_Budget_le_burst [of K bw now p] show ?thesis by simp
qed

lemma pacer_SentPacket_range:
  assumes "0 \<le> p_maxDatagramSize p" "p_maxDatagramSize p < 2 ^ 16" "0 \<le> sz"
  shows "0 \<le> budgetAtLastSent (pacer_SentPacket K bw t sz p)"
    "budgetAtLastSent (pacer_SentPacket K bw t sz p) < 2 ^ 36"
    "p_lastSentTime (pacer_SentPacket K bw t sz p) = t"
    "p_maxDatagramSize (pacer_SentPacket K bw t sz p) = p_maxDatagramSize p"
proof -
  have "0 \<le> pacer_Budget K bw t p" "pacer_Budget K bw t p < 2 ^ 36"
    using pacer_Budget_small [OF assms(1,2)] assms(1,2) by (simp_all add: pacer_Budget_nonneg)
  with assms(3) show "0 \<le> budgetAtLastSent (pacer_SentPacket K bw t sz p)"
    "budgetAtLastSent (pacer_SentPacket K bw t sz p) < 2 ^ 36"
    by (auto simp: pacer_SentPacket_def Let_def)
qed (simp_all add: pacer_SentPacket_def Let_def)

text \<open>No overflow occurs while the bytes accrued in the elapsed time fit into 63 bits.\<close>

lemma pacer_Budget_eq:
  assumes "p_lastSentTime p \<noteq> 0" "p_lastSentTime p \<le> now" "0 \<le> bw"
    "bw * (now - p_lastSentTime p) < 2 ^ 62" "0 \<le> budgetAtLastSent p" "budgetAtLastSent p < 2 ^ 61"
    "now - p_lastSentTime p < 2 ^ 63"
  shows "pacer_Budget K bw now p = min (pacer_maxBurstSize K bw p)
    (budgetAtLastSent p + bw * (now - p_lastSentTime p) div 1000000000)"
proof -
  let ?d = "now - p_lastSentTime p"
  have d: "time_Sub now (p_lastSentTime p) = ?d" using assms by (intro time_Sub_id) auto
  have p0: "0 \<le> bw * ?d" using assms by simp
  then have "i64 (bw * ?d) = bw * ?d" using assms(4) by simp
  moreover have "0 \<le> bw * ?d div 1000000000" "bw * ?d div 1000000000 \<le> 2 ^ 62 div 1000000000"
    using p0 assms(4) zdiv_mono1 [of "bw * ?d" "2 ^ 62" 1000000000] by simp_all
  ultimately show ?thesis
    using assms d p0 by (simp add: pacer_Budget_def Let_def minByteCount_min time_IsZero_def
        time_zero_def sdiv_pos_eq)
qed

subsection \<open>Waiting until \<open>TimeUntilSend\<close> is enough\<close>

text \<open>The bounds under which the pacer computes without overflow: datagrams below 64 KiB and a
  bandwidth of at most \<open>2 ^ 40\<close> bytes per second.\<close>

definition pacer_ok :: "byteCount \<Rightarrow> Pacer \<Rightarrow> bool" where
  "pacer_ok bw p \<longleftrightarrow>
     0 < bw \<and> bw \<le> 2 ^ 40 \<and> 0 < p_maxDatagramSize p \<and> p_maxDatagramSize p < 2 ^ 16 \<and>
     0 \<le> budgetAtLastSent p \<and> 0 \<le> p_lastSentTime p"

lemma pacer_delay_bounds:
  assumes "pacer_ok bw p" "budgetAtLastSent p < p_maxDatagramSize p"
  defines "a \<equiv> (p_maxDatagramSize p - budgetAtLastSent p) * 1000000000"
  shows "a \<le> bw * pacer_delay bw p" "bw * pacer_delay bw p \<le> a + bw" "0 \<le> pacer_delay bw p"
    "pacer_delay bw p < 2 ^ 50"
proof -
  let ?m = "p_maxDatagramSize p - budgetAtLastSent p"
  have bw: "0 < bw" "bw \<le> 2 ^ 40" and m: "0 < ?m" "?m < 2 ^ 16" using assms by (auto simp: pacer_ok_def)
  have a: "0 < a" "a < 2 ^ 46" using m by (simp_all add: a_def)
  have "f64_of_int (i64 ?m) = of_int ?m" using m by (simp add: f64_of_int_exact)
  moreover have "fl64 (of_int a) = of_int a" using a by (intro fl_of_int) simp_all
  ultimately have num: "f64_mul (f64_of_int (i64 ?m)) 1000000000 = of_int a"
    by (simp add: f64_mul_def a_def)
  have den: "f64_of_int bw = of_int bw" using bw by (simp add: f64_of_int_exact)
  let ?c = "\<lceil>fl64 (of_int a / of_int bw)\<rceil>"
  have a53: "a < 2 ^ 53" using a by simp
  note c = ceiling_fl64_quotient [OF a(1) a53 bw(1)]
  have "?c * 1 \<le> ?c * bw" using bw(1) c(3) by (intro mult_left_mono) auto
  with c(2) have "?c \<le> a + bw" by linarith
  also have "\<dots> < 2 ^ 50" using a bw by simp
  finally have cs: "?c < 2 ^ 50" .
  have "pacer_delay bw p = ?c"
    using bw cs c(3) by (simp add: pacer_delay_def num den f64_div_def f64_to_i64_of_int)
  with c cs show "a \<le> bw * pacer_delay bw p" "bw * pacer_delay bw p \<le> a + bw"
    "0 \<le> pacer_delay bw p" "pacer_delay bw p < 2 ^ 50"
    by (simp_all add: mult.commute)
qed

lemma pacer_ready:
  assumes "consts_ok K" "pacer_ok bw p" "p_lastSentTime p \<noteq> 0"
    "budgetAtLastSent p < p_maxDatagramSize p"
  shows "p_maxDatagramSize p \<le> pacer_Budget K bw (pacer_TimeUntilSend K bw p) p"
proof -
  let ?b = "budgetAtLastSent p" and ?m = "p_maxDatagramSize p" and ?l = "p_lastSentTime p"
  define w where "w = maxDuration (MinPacingDelay K) (pacer_delay bw p)"
  have w: "w = max (MinPacingDelay K) (pacer_delay bw p)"
    by (simp add: w_def maxDuration_def max_def)
  note d = pacer_delay_bounds [OF assms(2,4)]
  have K: "0 < MinPacingDelay K" "MinPacingDelay K < 2 ^ 20" using assms(1) by (auto simp: consts_ok_def)
  have ok: "0 < bw" "bw \<le> 2 ^ 40" "0 < ?m" "?m < 2 ^ 16" "0 \<le> ?b" using assms(2) by (auto simp: pacer_ok_def)
  have "bw * MinPacingDelay K \<le> 2 ^ 40 * 2 ^ 20" using ok K by (intro mult_mono) auto
  then have bw: "bw * w < 2 ^ 62" using d(2) ok assms(4) by (auto simp: w max_def)
  have lo: "(?m - ?b) * 1000000000 \<le> bw * w"
  proof -
    have "bw * pacer_delay bw p \<le> bw * w" using ok w by (intro mult_left_mono) auto
    with d(1) show ?thesis by simp
  qed
  have t: "pacer_TimeUntilSend K bw p = ?l + w"
    using assms(4) by (simp add: pacer_TimeUntilSend_def time_Add_def w_def)
  have "pacer_Budget K bw (?l + w) p =
      min (pacer_maxBurstSize K bw p) (?b + bw * (?l + w - ?l) div 1000000000)"
    using assms K ok d w bw by (intro pacer_Budget_eq) (auto simp: pacer_ok_def)
  moreover have "?m - ?b \<le> bw * w div 1000000000"
    using zdiv_mono1 [OF lo, of 1000000000] by simp
  moreover have "?m \<le> pacer_maxBurstSize K bw p"
    using pacer_maxBurst_ge [of p K bw] ok by simp
  ultimately show ?thesis by (simp add: t)
qed

text \<open>
  The same for every later time, as long as the bytes accrued since the last packet do not overflow.
\<close>

definition pacer_calm :: "byteCount \<Rightarrow> time \<Rightarrow> Pacer \<Rightarrow> bool" where
  "pacer_calm bw now p \<longleftrightarrow>
     p_lastSentTime p = 0 \<or>
     p_lastSentTime p \<le> now \<and> bw * (now - p_lastSentTime p) < 2 ^ 62 \<and> now - p_lastSentTime p < 2 ^ 63"

lemma pacer_ready_after:
  assumes "consts_ok K" "pacer_ok bw p" "budgetAtLastSent p < 2 ^ 61" "pacer_calm bw now p"
    "pacer_TimeUntilSend K bw p \<le> now"
  shows "p_maxDatagramSize p \<le> pacer_Budget K bw now p"
proof (cases "p_lastSentTime p = 0")
  case True
  have "0 \<le> p_maxDatagramSize p" "p_maxDatagramSize p < 2 ^ 59" using assms(2) by (auto simp: pacer_ok_def)
  from pacer_maxBurst_ge [OF this, of K bw] this True show ?thesis
    by (simp add: pacer_Budget_def time_IsZero_def time_zero_def)
next
  case False
  let ?b = "budgetAtLastSent p" and ?m = "p_maxDatagramSize p" and ?d = "now - p_lastSentTime p"
  have ok: "0 < bw" "0 < ?m" "?m < 2 ^ 16" "0 \<le> ?b" using assms(2) by (auto simp: pacer_ok_def)
  have d: "0 \<le> ?d" "bw * ?d < 2 ^ 62" "?d < 2 ^ 63" using assms(4) False by (auto simp: pacer_calm_def)
  have B: "pacer_Budget K bw now p = min (pacer_maxBurstSize K bw p) (?b + bw * ?d div 1000000000)"
    using False d ok assms(3) by (intro pacer_Budget_eq) auto
  have burst: "?m \<le> pacer_maxBurstSize K bw p" using pacer_maxBurst_ge [of p K bw] ok by simp
  have q0: "0 \<le> bw * ?d div 1000000000" using ok d by (simp add: pos_imp_zdiv_nonneg_iff)
  show ?thesis
  proof (cases "?m \<le> ?b")
    case True
    with B burst q0 show ?thesis by simp
  next
    case short: False
    then have lt: "?b < ?m" by simp
    have "pacer_delay bw p \<le> ?d"
      using assms(5) short by (simp add: pacer_TimeUntilSend_def time_Add_def maxDuration_def split: if_splits)
    then have "bw * pacer_delay bw p \<le> bw * ?d" using ok by (intro mult_left_mono) auto
    with pacer_delay_bounds(1) [OF assms(2) lt] have "(?m - ?b) * 1000000000 \<le> bw * ?d" by linarith
    from zdiv_mono1 [OF this, of 1000000000] B burst show ?thesis by simp
  qed
qed

subsection \<open>The rate bound\<close>

text \<open>
  A run of sends, each with the budget for its size, at a fixed bandwidth: the bytes sent after the
  first packet are at most the budget left then plus the bytes the bandwidth grants in the time
  elapsed.
\<close>

fun pacer_run :: "congestion_consts \<Rightarrow> byteCount \<Rightarrow> (time \<times> byteCount) list \<Rightarrow> Pacer \<Rightarrow> Pacer" where
  "pacer_run K bw [] p = p"
| "pacer_run K bw ((t, sz) # xs) p = pacer_run K bw xs (pacer_SentPacket K bw t sz p)"

fun pacer_conform :: "congestion_consts \<Rightarrow> byteCount \<Rightarrow> (time \<times> byteCount) list \<Rightarrow> Pacer \<Rightarrow> bool" where
  "pacer_conform K bw [] p \<longleftrightarrow> True"
| "pacer_conform K bw ((t, sz) # xs) p \<longleftrightarrow>
     p_lastSentTime p \<le> t \<and> bw * (t - p_lastSentTime p) < 2 ^ 62 \<and> t - p_lastSentTime p < 2 ^ 63 \<and>
     0 \<le> sz \<and> sz \<le> pacer_Budget K bw t p \<and> pacer_conform K bw xs (pacer_SentPacket K bw t sz p)"

lemma pacer_SentPacket_budget:
  assumes "0 \<le> sz" "sz \<le> pacer_Budget K bw t p" "pacer_Budget K bw t p < 2 ^ 63"
  shows "budgetAtLastSent (pacer_SentPacket K bw t sz p) = pacer_Budget K bw t p - sz"
    "p_lastSentTime (pacer_SentPacket K bw t sz p) = t"
    "p_maxDatagramSize (pacer_SentPacket K bw t sz p) = p_maxDatagramSize p"
  using assms by (simp_all add: pacer_SentPacket_def Let_def)

lemma pacer_run_rate_aux:
  assumes "0 \<le> bw" "0 < p_lastSentTime p" "0 \<le> budgetAtLastSent p" "budgetAtLastSent p < 2 ^ 61"
    "pacer_maxBurstSize K bw p < 2 ^ 61" "pacer_conform K bw xs p"
  shows "(budgetAtLastSent (pacer_run K bw xs p) + sum_list (map snd xs)) * 1000000000 \<le>
    budgetAtLastSent p * 1000000000 + bw * (p_lastSentTime (pacer_run K bw xs p) - p_lastSentTime p)"
  using assms(2-)
proof (induction xs arbitrary: p)
  case (Cons x xs)
  obtain t sz where x: "x = (t, sz)" by (cases x)
  let ?p = "pacer_SentPacket K bw t sz p" and ?B = "pacer_Budget K bw t p"
  have c: "p_lastSentTime p \<le> t" "bw * (t - p_lastSentTime p) < 2 ^ 62" "t - p_lastSentTime p < 2 ^ 63"
    "0 \<le> sz" "sz \<le> ?B" "pacer_conform K bw xs ?p"
    using Cons.prems(5) x by simp_all
  have B: "?B = min (pacer_maxBurstSize K bw p)
      (budgetAtLastSent p + bw * (t - p_lastSentTime p) div 1000000000)"
    using Cons.prems c assms(1) by (intro pacer_Budget_eq) auto
  have Bs: "?B < 2 ^ 61" using pacer_Budget_le_burst [of K bw t p] Cons.prems(4) by simp
  have "?B < 2 ^ 63" using Bs by simp
  note s = pacer_SentPacket_budget [OF c(4,5) this]
  have mb: "pacer_maxBurstSize K bw ?p = pacer_maxBurstSize K bw p"
    by (simp add: pacer_maxBurstSize_def s)
  have "(budgetAtLastSent (pacer_run K bw xs ?p) + sum_list (map snd xs)) * 1000000000 \<le>
      budgetAtLastSent ?p * 1000000000 + bw * (p_lastSentTime (pacer_run K bw xs ?p) - p_lastSentTime ?p)"
    using Cons.prems c Bs mb s by (intro Cons.IH) auto
  moreover have "?B * 1000000000 \<le> budgetAtLastSent p * 1000000000 + bw * (t - p_lastSentTime p)"
  proof -
    have "bw * (t - p_lastSentTime p) div 1000000000 * 1000000000 \<le> bw * (t - p_lastSentTime p)"
      using div_mult_mod_eq [of "bw * (t - p_lastSentTime p)" 1000000000]
        pos_mod_sign [of 1000000000 "bw * (t - p_lastSentTime p)"] by linarith
    moreover have "?B \<le> budgetAtLastSent p + bw * (t - p_lastSentTime p) div 1000000000" using B by simp
    ultimately show ?thesis by linarith
  qed
  ultimately show ?case by (simp add: x s algebra_simps)
qed simp

subsection \<open>Properties\<close>

text \<open>
  C14: the rate bound: in a run of sends of which each had the budget for its size, at a fixed bandwidth,
  the bytes sent are at most the budget at the start plus what the bandwidth grants in the time from
  the last packet before the run to the last packet of the run.
\<close>

theorem pacer_run_rate:
  assumes "0 \<le> bw" "0 < p_lastSentTime p" "0 \<le> budgetAtLastSent p" "budgetAtLastSent p < 2 ^ 61"
    "pacer_maxBurstSize K bw p < 2 ^ 61" "0 \<le> p_maxDatagramSize p" "p_maxDatagramSize p < 2 ^ 59" "pacer_conform K bw xs p"
  shows "sum_list (map snd xs) * 1000000000 \<le>
    budgetAtLastSent p * 1000000000 + bw * (p_lastSentTime (pacer_run K bw xs p) - p_lastSentTime p)"
proof -
  have "0 \<le> budgetAtLastSent (pacer_run K bw xs p)"
    using assms(3-8)
  proof (induction xs arbitrary: p)
    case (Cons x xs)
    obtain t sz where x: "x = (t, sz)" by (cases x)
    have "pacer_Budget K bw t p < 2 ^ 61"
      using pacer_Budget_le_burst [of K bw t p] Cons.prems(3) by linarith
    with Cons x show ?case
      using pacer_SentPacket_budget [of sz K bw t p]
      by (auto simp: pacer_maxBurstSize_def)
  qed simp
  with pacer_run_rate_aux [OF assms(1-5,8)] show ?thesis by (simp add: distrib_right)
qed

lemma pacer_run_rate_witness:
  "sum_list (map snd [(1000001000000 :: int, 1200), (1000002000000, 1200 :: int)]) * 1000000000 \<le>
    budgetAtLastSent \<lparr>budgetAtLastSent = 2000, p_maxDatagramSize = 1200, p_lastSentTime = 1000000000000\<rparr> * 1000000000 +
    1000000 * (p_lastSentTime (pacer_run quic_go_consts 1000000 [(1000001000000, 1200), (1000002000000, 1200)]
        \<lparr>budgetAtLastSent = 2000, p_maxDatagramSize = 1200, p_lastSentTime = 1000000000000\<rparr>) -
      p_lastSentTime \<lparr>budgetAtLastSent = 2000, p_maxDatagramSize = 1200, p_lastSentTime = 1000000000000\<rparr>)"
  by (rule pacer_run_rate) (code_simp+)

text \<open>
  C16: liveness of pacing: a sender that asks again at or after the time \<open>TimeUntilSend\<close> announced has the
  budget for a full datagram, in spite of the rounding of the floating-point delay, as long as the bytes
  accrued in the meantime do not overflow.
\<close>

theorem pacer_wait_suffices:
  assumes "consts_ok K" "pacer_ok bw p" "budgetAtLastSent p < 2 ^ 61" "pacer_calm bw now p"
    "pacer_TimeUntilSend K bw p \<le> now"
  shows "p_maxDatagramSize p \<le> pacer_Budget K bw now p"
  using assms by (rule pacer_ready_after)

lemma pacer_wait_suffices_witness:
  "p_maxDatagramSize \<lparr>budgetAtLastSent = 100, p_maxDatagramSize = 1200, p_lastSentTime = 1000000000000\<rparr> \<le>
   pacer_Budget quic_go_consts 700000 1000001571429
     \<lparr>budgetAtLastSent = 100, p_maxDatagramSize = 1200, p_lastSentTime = 1000000000000\<rparr>"
  by (rule pacer_wait_suffices) code_simp+

text \<open>
  Whatever the clock, the bandwidth and the stored budget are, overflow included, the budget is never
  negative and never above the maximal burst.
\<close>

lemma pacer_Budget_bounds:
  assumes "0 \<le> p_maxDatagramSize p" "p_maxDatagramSize p < 2 ^ 59"
  shows "0 \<le> pacer_Budget K bw now p \<and> pacer_Budget K bw now p \<le> pacer_maxBurstSize K bw p"
  using pacer_Budget_nonneg [OF assms] pacer_Budget_le_burst by blast

lemma pacer_Budget_bounds_witness:
  "0 \<le> pacer_Budget quic_go_consts (2 ^ 62) 5000000000
      \<lparr>budgetAtLastSent = 0, p_maxDatagramSize = 1200, p_lastSentTime = 1\<rparr> \<and>
   pacer_Budget quic_go_consts (2 ^ 62) 5000000000
      \<lparr>budgetAtLastSent = 0, p_maxDatagramSize = 1200, p_lastSentTime = 1\<rparr> \<le>
   pacer_maxBurstSize quic_go_consts (2 ^ 62)
      \<lparr>budgetAtLastSent = 0, p_maxDatagramSize = 1200, p_lastSentTime = 1\<rparr>"
  by (rule pacer_Budget_bounds) simp_all

end
