(* ===== verification/BbrSender.thy ===== *)
theory BbrSender
  imports SamplerInvariant Pacer
begin

text \<open>
  \<open>src/internal/congestion/bbr/bbr_sender.go\<close>: the state of the BBR sender as a record (every field
  of the Go struct but the clock, which only the constructor reads), and one definition per method.
  \<open>K\<close> is the constants of the package \<open>congestion\<close>; \<open>rtt\<close> is what the installed
  \<open>RTTStatsProvider\<close> answers during the call, \<open>bbr_rttStats\<close> whether one is installed (a call
  through the nil interface panics); \<open>rnd\<close> is the number \<open>rand.Int31n\<close> returns, of which an event
  draws at most one.
\<close>

definition minBps :: byteCount where "minBps = 65536"
definition initialCongestionWindowPackets :: int where "initialCongestionWindowPackets = 32"

definition defaultMinimumCongestionWindow :: "congestion_consts \<Rightarrow> byteCount" where
  "defaultMinimumCongestionWindow K = 4 * InitialPacketSizeIPv4 K"

definition defaultHighGain :: rat where "defaultHighGain = 2885 / 1000"
definition derivedHighCWNDGain :: rat where "derivedHighCWNDGain = 2"

definition pacingGain_table :: "f64 list" where
  "pacingGain_table = [5/4, 3/4, 1, 1, 1, 1, 1, 1]"

definition gainCycleLength :: int where "gainCycleLength = int (length pacingGain_table)"
definition bandwidthWindowSize :: int where "bandwidthWindowSize = gainCycleLength + 2"
definition minRttExpiry :: duration where "minRttExpiry = 10 * time_Second"
definition probeRttTime :: duration where "probeRttTime = 200 * time_Millisecond"
definition startupGrowthTarget :: f64 where "startupGrowthTarget = 5/4"
definition roundTripsWithoutGrowthBeforeExitingStartup :: int where
  "roundTripsWithoutGrowthBeforeExitingStartup = 3"
definition defaultStartupFullLossCount :: int where "defaultStartupFullLossCount = 8"
definition quicBbr2DefaultLossThreshold :: f64 where "quicBbr2DefaultLossThreshold = fl64 (2/100)"
definition maxBbrBurstPackets :: int where "maxBbrBurstPackets = 3"

lemmas bbr_const_defs = minBps_def initialCongestionWindowPackets_def defaultMinimumCongestionWindow_def
  defaultHighGain_def derivedHighCWNDGain_def pacingGain_table_def gainCycleLength_def
  bandwidthWindowSize_def minRttExpiry_def probeRttTime_def startupGrowthTarget_def
  roundTripsWithoutGrowthBeforeExitingStartup_def defaultStartupFullLossCount_def
  quicBbr2DefaultLossThreshold_def maxBbrBurstPackets_def

datatype bbrMode = bbrModeStartup | bbrModeDrain | bbrModeProbeBw | bbrModeProbeRtt

datatype bbrRecoveryState =
    bbrRecoveryStateNotInRecovery
  | bbrRecoveryStateConservation
  | bbrRecoveryStateGrowth

record bbrSender =
  bbr_rttStats :: bool
  bbr_pacer :: Pacer
  bbr_mode :: bbrMode
  bbr_sampler :: bandwidthSampler
  bbr_roundTripCount :: int
  bbr_lastSentPacket :: packetNumber
  bbr_currentRoundTripEnd :: packetNumber
  bbr_numLossEventsInRound :: int
  bbr_bytesLostInRound :: byteCount
  bbr_maxBandwidth :: "bandwidth WindowedFilter"
  bbr_minRtt :: duration
  bbr_minRttTimestamp :: time
  bbr_congestionWindow :: byteCount
  bbr_initialCongestionWindow :: byteCount
  bbr_maxCongestionWindow :: byteCount
  bbr_minCongestionWindow :: byteCount
  bbr_highGain :: f64
  bbr_highCwndGain :: f64
  bbr_drainGain :: f64
  bbr_pacingRate :: bandwidth
  bbr_pacingGain :: f64
  bbr_congestionWindowGain :: f64
  bbr_congestionWindowGainConstant :: f64
  bbr_numStartupRtts :: int
  bbr_cycleCurrentOffset :: int
  bbr_lastCycleStart :: time
  bbr_isAtFullBandwidth :: bool
  bbr_roundsWithoutBandwidthGain :: int
  bbr_bandwidthAtLastRound :: bandwidth
  bbr_exitingQuiescence :: bool
  bbr_exitProbeRttAt :: time
  bbr_probeRttRoundPassed :: bool
  bbr_lastSampleIsAppLimited :: bool
  bbr_hasNoAppLimitedSample :: bool
  bbr_recoveryState :: bbrRecoveryState
  bbr_endRecoveryAt :: packetNumber
  bbr_recoveryWindow :: byteCount
  bbr_isAppLimitedRecovery :: bool
  bbr_slowerStartup :: bool
  bbr_rateBasedStartup :: bool
  bbr_enableAckAggregationDuringStartup :: bool
  bbr_expireAckAggregationInStartup :: bool
  bbr_drainToTarget :: bool
  bbr_detectOvershooting :: bool
  bbr_bytesLostWhileDetectingOvershooting :: byteCount
  bbr_bytesLostMultiplierWhileDetectingOvershooting :: int
  bbr_cwndToCalculateMinPacingRate :: byteCount
  bbr_maxCongestionWindowWithNetworkParametersAdjusted :: byteCount
  bbr_maxDatagramSize :: byteCount
  bbr_bytesInFlight :: byteCount

subsection \<open>Construction and gains\<close>

definition bbr_enterStartupMode :: "bbrSender \<Rightarrow> bbrSender" where
  "bbr_enterStartupMode b =
     b\<lparr>bbr_mode := bbrModeStartup, bbr_pacingGain := bbr_highGain b,
       bbr_congestionWindowGain := bbr_highCwndGain b\<rparr>"

definition bbr_setHighGain :: "f64 \<Rightarrow> bbrSender \<Rightarrow> bbrSender" where
  "bbr_setHighGain g b =
     (let b = b\<lparr>bbr_highGain := g\<rparr>
      in if bbr_mode b = bbrModeStartup then b\<lparr>bbr_pacingGain := g\<rparr> else b)"

definition bbr_setHighCwndGain :: "f64 \<Rightarrow> bbrSender \<Rightarrow> bbrSender" where
  "bbr_setHighCwndGain g b =
     (let b = b\<lparr>bbr_highCwndGain := g\<rparr>
      in if bbr_mode b = bbrModeStartup then b\<lparr>bbr_congestionWindowGain := g\<rparr> else b)"

definition bbr_setDrainGain :: "f64 \<Rightarrow> bbrSender \<Rightarrow> bbrSender" where
  "bbr_setDrainGain g b = b\<lparr>bbr_drainGain := g\<rparr>"

definition bbrSender_init ::
    "congestion_consts \<Rightarrow> byteCount \<Rightarrow> byteCount \<Rightarrow> byteCount \<Rightarrow> bbrSender" where
  "bbrSender_init K initialMaxDatagramSize initialCongestionWindow initialMaxCongestionWindow =
     \<lparr>bbr_rttStats = False, bbr_pacer = NewPacer K, bbr_mode = bbrModeStartup,
      bbr_sampler = newBandwidthSampler bandwidthWindowSize, bbr_roundTripCount = 0,
      bbr_lastSentPacket = invalidPacketNumber, bbr_currentRoundTripEnd = invalidPacketNumber,
      bbr_numLossEventsInRound = 0, bbr_bytesLostInRound = 0,
      bbr_maxBandwidth = NewWindowedFilter 0 bandwidthWindowSize MaxFilter,
      bbr_minRtt = 0, bbr_minRttTimestamp = time_zero,
      bbr_congestionWindow = initialCongestionWindow,
      bbr_initialCongestionWindow = initialCongestionWindow,
      bbr_maxCongestionWindow = initialMaxCongestionWindow,
      bbr_minCongestionWindow = defaultMinimumCongestionWindow K,
      bbr_highGain = fl64 defaultHighGain, bbr_highCwndGain = fl64 defaultHighGain,
      bbr_drainGain = fl64 (1 / defaultHighGain), bbr_pacingRate = 0, bbr_pacingGain = 1,
      bbr_congestionWindowGain = 1, bbr_congestionWindowGainConstant = 2,
      bbr_numStartupRtts = roundTripsWithoutGrowthBeforeExitingStartup,
      bbr_cycleCurrentOffset = 0, bbr_lastCycleStart = time_zero, bbr_isAtFullBandwidth = False,
      bbr_roundsWithoutBandwidthGain = 0, bbr_bandwidthAtLastRound = 0,
      bbr_exitingQuiescence = False, bbr_exitProbeRttAt = time_zero,
      bbr_probeRttRoundPassed = False, bbr_lastSampleIsAppLimited = False,
      bbr_hasNoAppLimitedSample = False, bbr_recoveryState = bbrRecoveryStateNotInRecovery,
      bbr_endRecoveryAt = invalidPacketNumber, bbr_recoveryWindow = initialMaxCongestionWindow,
      bbr_isAppLimitedRecovery = False, bbr_slowerStartup = False, bbr_rateBasedStartup = False,
      bbr_enableAckAggregationDuringStartup = False, bbr_expireAckAggregationInStartup = False,
      bbr_drainToTarget = False, bbr_detectOvershooting = False,
      bbr_bytesLostWhileDetectingOvershooting = 0,
      bbr_bytesLostMultiplierWhileDetectingOvershooting = 2,
      bbr_cwndToCalculateMinPacingRate = initialCongestionWindow,
      bbr_maxCongestionWindowWithNetworkParametersAdjusted = initialMaxCongestionWindow,
      bbr_maxDatagramSize = initialMaxDatagramSize, bbr_bytesInFlight = 0\<rparr>"

definition newBbrSender ::
    "congestion_consts \<Rightarrow> byteCount \<Rightarrow> byteCount \<Rightarrow> byteCount \<Rightarrow> bbrSender" where
  "newBbrSender K initialMaxDatagramSize initialCongestionWindow initialMaxCongestionWindow =
     bbr_setHighCwndGain derivedHighCWNDGain (bbr_enterStartupMode
       (bbrSender_init K initialMaxDatagramSize initialCongestionWindow initialMaxCongestionWindow))"

definition NewBbrSender :: "congestion_consts \<Rightarrow> byteCount \<Rightarrow> bbrSender" where
  "NewBbrSender K initialMaxDatagramSize =
     newBbrSender K initialMaxDatagramSize
       (i64 (initialCongestionWindowPackets * initialMaxDatagramSize))
       (i64 (MaxCongestionWindowPackets K * initialMaxDatagramSize))"

definition bbr_SetRTTStatsProvider :: "bbrSender \<Rightarrow> bbrSender" where
  "bbr_SetRTTStatsProvider b = b\<lparr>bbr_rttStats := True\<rparr>"

definition bbr_providerMinRTT :: "RTTStats \<Rightarrow> bbrSender \<Rightarrow> duration option" where
  "bbr_providerMinRTT rtt b = (if bbr_rttStats b then Some (MinRTT rtt) else None)"

subsection \<open>Estimates\<close>

definition bbr_bandwidthEstimate :: "bbrSender \<Rightarrow> bandwidth" where
  "bbr_bandwidthEstimate b = wf_GetBest (bbr_maxBandwidth b)"

definition bbr_bandwidthForPacer :: "bbrSender \<Rightarrow> byteCount" where
  "bbr_bandwidthForPacer b =
     (let bps = f64_to_i64 (f64_div
             (f64_mul (f64_of_int (bbr_bandwidthEstimate b)) (bbr_congestionWindowGain b))
             (f64_of_int BytesPerSecond))
      in if bps < minBps then minBps else bps)"

definition bbr_getMinRtt :: "RTTStats \<Rightarrow> bbrSender \<Rightarrow> duration option" where
  "bbr_getMinRtt rtt b =
     (if bbr_minRtt b \<noteq> 0 then Some (bbr_minRtt b)
      else do {
        m \<leftarrow> bbr_providerMinRTT rtt b;
        Some (if m = 0 then 100 * time_Millisecond else m)
      })"

definition bbr_PacingRate :: "RTTStats \<Rightarrow> bbrSender \<Rightarrow> bandwidth option" where
  "bbr_PacingRate rtt b =
     (if bbr_pacingRate b = 0 then do {
        m \<leftarrow> bbr_getMinRtt rtt b;
        bw \<leftarrow> BandwidthFromDelta (bbr_initialCongestionWindow b) m;
        Some (f64_to_u64 (f64_mul (bbr_highGain b) (f64_of_int bw)))
      } else Some (bbr_pacingRate b))"

definition bbr_hasNonAppLimitedSample :: "bbrSender \<Rightarrow> bool" where
  "bbr_hasNonAppLimitedSample b = bbr_hasNoAppLimitedSample b"

definition bbr_hasGoodBandwidthEstimateForResumption :: "bbrSender \<Rightarrow> bool" where
  "bbr_hasGoodBandwidthEstimateForResumption b = bbr_hasNonAppLimitedSample b"

definition bbr_getTargetCongestionWindow :: "RTTStats \<Rightarrow> f64 \<Rightarrow> bbrSender \<Rightarrow> byteCount option" where
  "bbr_getTargetCongestionWindow rtt gain b = do {
     m \<leftarrow> bbr_getMinRtt rtt b;
     let bdp = bdpFromRttAndBandwidth m (bbr_bandwidthEstimate b);
         cwnd = f64_to_i64 (f64_mul gain (f64_of_int bdp));
         cwnd = (if cwnd = 0
                 then f64_to_i64 (f64_mul gain (f64_of_int (bbr_initialCongestionWindow b)))
                 else cwnd)
     in Some (max cwnd (bbr_minCongestionWindow b))
   }"

definition bbr_probeRttCongestionWindow :: "bbrSender \<Rightarrow> byteCount" where
  "bbr_probeRttCongestionWindow b = bbr_minCongestionWindow b"

definition bbr_InSlowStart :: "bbrSender \<Rightarrow> bool" where
  "bbr_InSlowStart b \<longleftrightarrow> bbr_mode b = bbrModeStartup"

definition bbr_InRecovery :: "bbrSender \<Rightarrow> bool" where
  "bbr_InRecovery b \<longleftrightarrow> bbr_recoveryState b \<noteq> bbrRecoveryStateNotInRecovery"

definition bbr_GetCongestionWindow :: "bbrSender \<Rightarrow> byteCount" where
  "bbr_GetCongestionWindow b =
     (if bbr_mode b = bbrModeProbeRtt then bbr_probeRttCongestionWindow b
      else if bbr_InRecovery b then min (bbr_congestionWindow b) (bbr_recoveryWindow b)
      else bbr_congestionWindow b)"

definition bbr_CanSend :: "byteCount \<Rightarrow> bbrSender \<Rightarrow> bool" where
  "bbr_CanSend bytesInFlight b \<longleftrightarrow> bytesInFlight < bbr_GetCongestionWindow b"

subsection \<open>Pacing and sending\<close>

definition bbr_TimeUntilSend :: "congestion_consts \<Rightarrow> bbrSender \<Rightarrow> time" where
  "bbr_TimeUntilSend K b = pacer_TimeUntilSend K (bbr_bandwidthForPacer b) (bbr_pacer b)"

definition bbr_HasPacingBudget :: "congestion_consts \<Rightarrow> time \<Rightarrow> bbrSender \<Rightarrow> bool" where
  "bbr_HasPacingBudget K now b \<longleftrightarrow>
     bbr_maxDatagramSize b \<le> pacer_Budget K (bbr_bandwidthForPacer b) now (bbr_pacer b)"

definition bbr_OnPacketSent ::
    "congestion_consts \<Rightarrow> time \<Rightarrow> byteCount \<Rightarrow> packetNumber \<Rightarrow> byteCount \<Rightarrow> bool \<Rightarrow> bbrSender \<Rightarrow>
     bbrSender option" where
  "bbr_OnPacketSent K sentTime bytesInFlight packetNumber bytes isRetransmittable b =
     (let b = b\<lparr>bbr_pacer := pacer_SentPacket K (bbr_bandwidthForPacer b) sentTime bytes (bbr_pacer b)\<rparr>;
          b = b\<lparr>bbr_lastSentPacket := packetNumber, bbr_bytesInFlight := bytesInFlight\<rparr>;
          b = (if bytesInFlight = 0 then b\<lparr>bbr_exitingQuiescence := True\<rparr> else b)
      in do {
        s \<leftarrow> bs_OnPacketSent sentTime packetNumber bytes bytesInFlight isRetransmittable (bbr_sampler b);
        Some (b\<lparr>bbr_sampler := s\<rparr>)
      })"

definition bbr_SetMaxDatagramSize :: "byteCount \<Rightarrow> bbrSender \<Rightarrow> bbrSender option" where
  "bbr_SetMaxDatagramSize s b =
     (if s < bbr_maxDatagramSize b then None
      else
        let cwndIsMinCwnd = (bbr_congestionWindow b = bbr_minCongestionWindow b);
            b = b\<lparr>bbr_maxDatagramSize := s\<rparr>;
            b = (if cwndIsMinCwnd then b\<lparr>bbr_congestionWindow := bbr_minCongestionWindow b\<rparr> else b)
        in Some (b\<lparr>bbr_pacer := pacer_SetMaxDatagramSize s (bbr_pacer b)\<rparr>))"

subsection \<open>Steps of the congestion event\<close>

definition bbr_maybeUpdateMinRtt :: "time \<Rightarrow> duration \<Rightarrow> bbrSender \<Rightarrow> bool \<times> bbrSender" where
  "bbr_maybeUpdateMinRtt now sampleMinRtt b =
     (let minRttExpired = (bbr_minRtt b \<noteq> 0 \<and> time_Add (bbr_minRttTimestamp b) minRttExpiry < now)
      in (minRttExpired,
          if minRttExpired \<or> sampleMinRtt < bbr_minRtt b \<or> bbr_minRtt b = 0
          then b\<lparr>bbr_minRtt := sampleMinRtt, bbr_minRttTimestamp := now\<rparr> else b))"

text \<open>\<open>rand.Int31n\<close> panics unless its bound is positive; indexing the table panics out of range.\<close>

definition bbr_gain_at :: "int \<Rightarrow> f64 option" where
  "bbr_gain_at i = (if 0 \<le> i \<and> i < gainCycleLength then Some (pacingGain_table ! nat i) else None)"

definition bbr_enterProbeBandwidthMode ::
    "congestion_consts \<Rightarrow> int \<Rightarrow> time \<Rightarrow> bbrSender \<Rightarrow> bbrSender option" where
  "bbr_enterProbeBandwidthMode K rnd now b =
     (let b = b\<lparr>bbr_mode := bbrModeProbeBw,
                bbr_congestionWindowGain := bbr_congestionWindowGainConstant b\<rparr>
      in if PacketsPerConnectionID K \<le> 0 then None
         else
           let b = b\<lparr>bbr_cycleCurrentOffset := rnd smod (gainCycleLength - 1)\<rparr>;
               b = (if 1 \<le> bbr_cycleCurrentOffset b
                    then b\<lparr>bbr_cycleCurrentOffset := bbr_cycleCurrentOffset b + 1\<rparr> else b);
               b = b\<lparr>bbr_lastCycleStart := now\<rparr>
           in do {
             g \<leftarrow> bbr_gain_at (bbr_cycleCurrentOffset b);
             Some (b\<lparr>bbr_pacingGain := g\<rparr>)
           })"

definition bbr_updateRoundTripCounter :: "packetNumber \<Rightarrow> bbrSender \<Rightarrow> bool \<times> bbrSender" where
  "bbr_updateRoundTripCounter lastAcked b =
     (if bbr_currentRoundTripEnd b = invalidPacketNumber \<or> bbr_currentRoundTripEnd b < lastAcked
      then (True, b\<lparr>bbr_roundTripCount := u64 (bbr_roundTripCount b + 1),
                    bbr_currentRoundTripEnd := bbr_lastSentPacket b\<rparr>)
      else (False, b))"

text \<open>\<open>updateGainCyclePhase\<close>: the decision to advance the cycle, and the advance.\<close>

definition bbr_shouldAdvanceGainCycling ::
    "RTTStats \<Rightarrow> time \<Rightarrow> byteCount \<Rightarrow> bool \<Rightarrow> bbrSender \<Rightarrow> bool option" where
  "bbr_shouldAdvanceGainCycling rtt now priorInFlight hasLosses b = do {
     m \<leftarrow> bbr_getMinRtt rtt b;
     adv \<leftarrow> (if 1 < bbr_pacingGain b \<and> \<not> hasLosses then do {
                tgt \<leftarrow> bbr_getTargetCongestionWindow rtt (bbr_pacingGain b) b;
                Some (\<not> priorInFlight < tgt \<and> time_Add (bbr_lastCycleStart b) m < now)
              } else Some (time_Add (bbr_lastCycleStart b) m < now));
     if bbr_pacingGain b < 1 then do {
       tgt \<leftarrow> bbr_getTargetCongestionWindow rtt 1 b;
       Some (bbr_bytesInFlight b \<le> tgt \<or> adv)
     } else Some adv
   }"

definition bbr_advanceGainCycle :: "RTTStats \<Rightarrow> time \<Rightarrow> bbrSender \<Rightarrow> bbrSender option" where
  "bbr_advanceGainCycle rtt now b =
     (let b = b\<lparr>bbr_cycleCurrentOffset := (bbr_cycleCurrentOffset b + 1) smod gainCycleLength,
                bbr_lastCycleStart := now\<rparr>
      in do {
        g \<leftarrow> bbr_gain_at (bbr_cycleCurrentOffset b);
        stay \<leftarrow> (if bbr_drainToTarget b \<and> bbr_pacingGain b < 1 \<and> g = 1 then do {
                    tgt \<leftarrow> bbr_getTargetCongestionWindow rtt 1 b;
                    Some (tgt < bbr_bytesInFlight b)
                  } else Some False);
        Some (if stay then b else b\<lparr>bbr_pacingGain := g\<rparr>)
      })"

definition bbr_updateGainCyclePhase ::
    "RTTStats \<Rightarrow> time \<Rightarrow> byteCount \<Rightarrow> bool \<Rightarrow> bbrSender \<Rightarrow> bbrSender option" where
  "bbr_updateGainCyclePhase rtt now priorInFlight hasLosses b = do {
     adv \<leftarrow> bbr_shouldAdvanceGainCycling rtt now priorInFlight hasLosses b;
     if adv then bbr_advanceGainCycle rtt now b else Some b
   }"

definition bbr_shouldExitStartupDueToLoss :: "sendTimeState \<Rightarrow> bbrSender \<Rightarrow> bool" where
  "bbr_shouldExitStartupDueToLoss st b =
     (if bbr_numLossEventsInRound b < defaultStartupFullLossCount \<or> \<not> isValid st then False
      else
        let inflightAtSend = sts_bytesInFlight st in
        if 0 < inflightAtSend \<and> 0 < bbr_bytesLostInRound b
        then f64_to_i64 (f64_mul (f64_of_int inflightAtSend) quicBbr2DefaultLossThreshold) < bbr_bytesLostInRound b
        else False)"

definition bbr_checkIfFullBandwidthReached :: "sendTimeState \<Rightarrow> bbrSender \<Rightarrow> bbrSender" where
  "bbr_checkIfFullBandwidthReached st b =
     (if bbr_lastSampleIsAppLimited b then b
      else
        let target = f64_to_u64 (f64_mul (f64_of_int (bbr_bandwidthAtLastRound b)) startupGrowthTarget) in
        if target \<le> bbr_bandwidthEstimate b then
          let b = b\<lparr>bbr_bandwidthAtLastRound := bbr_bandwidthEstimate b, bbr_roundsWithoutBandwidthGain := 0\<rparr>
          in if bbr_expireAckAggregationInStartup b
             then b\<lparr>bbr_sampler := bs_ResetMaxAckHeightTracker 0 (bbr_roundTripCount b) (bbr_sampler b)\<rparr>
             else b
        else
          let b = b\<lparr>bbr_roundsWithoutBandwidthGain := i64 (bbr_roundsWithoutBandwidthGain b + 1)\<rparr>
          in if bbr_numStartupRtts b \<le> bbr_roundsWithoutBandwidthGain b \<or>
                bbr_shouldExitStartupDueToLoss st b
             then b\<lparr>bbr_isAtFullBandwidth := True\<rparr> else b)"

definition bbr_maybeApplimited :: "byteCount \<Rightarrow> bbrSender \<Rightarrow> bbrSender" where
  "bbr_maybeApplimited bytesInFlight b =
     (let cwnd = bbr_GetCongestionWindow b in
      if cwnd \<le> bytesInFlight then b
      else
        let availableBytes = i64 (cwnd - bytesInFlight);
            drainLimited = (bbr_mode b = bbrModeDrain \<and> cwnd sdiv 2 < bytesInFlight)
        in if \<not> drainLimited \<or> i64 (maxBbrBurstPackets * bbr_maxDatagramSize b) < availableBytes
           then b\<lparr>bbr_sampler := bs_OnAppLimited (bbr_sampler b)\<rparr> else b)"

definition bbr_maybeExitStartupOrDrain ::
    "congestion_consts \<Rightarrow> RTTStats \<Rightarrow> int \<Rightarrow> time \<Rightarrow> bbrSender \<Rightarrow> bbrSender option" where
  "bbr_maybeExitStartupOrDrain K rtt rnd now b =
     (let b = (if bbr_mode b = bbrModeStartup \<and> bbr_isAtFullBandwidth b
               then b\<lparr>bbr_mode := bbrModeDrain, bbr_pacingGain := bbr_drainGain b,
                      bbr_congestionWindowGain := bbr_highCwndGain b\<rparr>
               else b)
      in if bbr_mode b = bbrModeDrain then do {
           tgt \<leftarrow> bbr_getTargetCongestionWindow rtt 1 b;
           if bbr_bytesInFlight b \<le> tgt then bbr_enterProbeBandwidthMode K rnd now b else Some b
         } else Some b)"

text \<open>\<open>maybeEnterOrExitProbeRtt\<close>: the entry, what happens in \<open>PROBE_RTT\<close>, and both in sequence.\<close>

definition bbr_enterProbeRtt :: "bool \<Rightarrow> bbrSender \<Rightarrow> bbrSender" where
  "bbr_enterProbeRtt minRttExpired b =
     (if minRttExpired \<and> \<not> bbr_exitingQuiescence b \<and> bbr_mode b \<noteq> bbrModeProbeRtt
      then b\<lparr>bbr_mode := bbrModeProbeRtt, bbr_pacingGain := 1, bbr_exitProbeRttAt := time_zero\<rparr>
      else b)"

definition bbr_inProbeRtt ::
    "congestion_consts \<Rightarrow> int \<Rightarrow> time \<Rightarrow> bool \<Rightarrow> bbrSender \<Rightarrow> bbrSender option" where
  "bbr_inProbeRtt K rnd now isRoundStart b =
     (let b = b\<lparr>bbr_sampler := bs_OnAppLimited (bbr_sampler b)\<rparr> in
      if time_IsZero (bbr_exitProbeRttAt b) then
        Some (if bbr_bytesInFlight b < i64 (bbr_probeRttCongestionWindow b + MaxPacketBufferSize K)
              then b\<lparr>bbr_exitProbeRttAt := time_Add now probeRttTime, bbr_probeRttRoundPassed := False\<rparr>
              else b)
      else
        let b = (if isRoundStart then b\<lparr>bbr_probeRttRoundPassed := True\<rparr> else b) in
        if 0 \<le> time_Sub now (bbr_exitProbeRttAt b) \<and> bbr_probeRttRoundPassed b then
          let b = b\<lparr>bbr_minRttTimestamp := now\<rparr> in
          if \<not> bbr_isAtFullBandwidth b then Some (bbr_enterStartupMode b)
          else bbr_enterProbeBandwidthMode K rnd now b
        else Some b)"

definition bbr_maybeEnterOrExitProbeRtt ::
    "congestion_consts \<Rightarrow> int \<Rightarrow> time \<Rightarrow> bool \<Rightarrow> bool \<Rightarrow> bbrSender \<Rightarrow> bbrSender option" where
  "bbr_maybeEnterOrExitProbeRtt K rnd now isRoundStart minRttExpired b =
     (let b = bbr_enterProbeRtt minRttExpired b in do {
        b \<leftarrow> (if bbr_mode b = bbrModeProbeRtt then bbr_inProbeRtt K rnd now isRoundStart b else Some b);
        Some (b\<lparr>bbr_exitingQuiescence := False\<rparr>)
      })"

definition bbr_updateRecoveryState :: "packetNumber \<Rightarrow> bool \<Rightarrow> bool \<Rightarrow> bbrSender \<Rightarrow> bbrSender" where
  "bbr_updateRecoveryState lastAcked hasLosses isRoundStart b =
     (if \<not> bbr_isAtFullBandwidth b then b
      else
        let b = (if hasLosses then b\<lparr>bbr_endRecoveryAt := bbr_lastSentPacket b\<rparr> else b);
            growth = (\<lambda>b. if \<not> hasLosses \<and> bbr_endRecoveryAt b < lastAcked
                          then b\<lparr>bbr_recoveryState := bbrRecoveryStateNotInRecovery\<rparr> else b)
        in case bbr_recoveryState b of
             bbrRecoveryStateNotInRecovery \<Rightarrow>
               if hasLosses
               then b\<lparr>bbr_recoveryState := bbrRecoveryStateConservation, bbr_recoveryWindow := 0,
                      bbr_currentRoundTripEnd := bbr_lastSentPacket b\<rparr>
               else b
           | bbrRecoveryStateConservation \<Rightarrow>
               growth (if isRoundStart then b\<lparr>bbr_recoveryState := bbrRecoveryStateGrowth\<rparr> else b)
           | bbrRecoveryStateGrowth \<Rightarrow> growth b)"

definition bbr_calculatePacingRate :: "RTTStats \<Rightarrow> byteCount \<Rightarrow> bbrSender \<Rightarrow> bbrSender option" where
  "bbr_calculatePacingRate rtt bytesLost b =
     (if bbr_bandwidthEstimate b = 0 then Some b
      else
        let targetRate = f64_to_u64 (f64_mul (bbr_pacingGain b) (f64_of_int (bbr_bandwidthEstimate b))) in
        if bbr_isAtFullBandwidth b then Some (b\<lparr>bbr_pacingRate := targetRate\<rparr>)
        else do {
          early \<leftarrow> (if bbr_pacingRate b = 0 then do {
                      m \<leftarrow> bbr_providerMinRTT rtt b;
                      Some (m \<noteq> 0)
                    } else Some False);
          if early then do {
            m \<leftarrow> bbr_providerMinRTT rtt b;
            r \<leftarrow> BandwidthFromDelta (bbr_initialCongestionWindow b) m;
            Some (b\<lparr>bbr_pacingRate := r\<rparr>)
          } else do {
            b \<leftarrow> (if bbr_detectOvershooting b then
                    let b = b\<lparr>bbr_bytesLostWhileDetectingOvershooting :=
                               i64 (bbr_bytesLostWhileDetectingOvershooting b + bytesLost)\<rparr>
                    in if targetRate < bbr_pacingRate b \<and> 0 < bbr_bytesLostWhileDetectingOvershooting b \<and>
                          (bbr_hasNoAppLimitedSample b \<or>
                           bbr_initialCongestionWindow b <
                             i64 (bbr_bytesLostWhileDetectingOvershooting b *
                                  bbr_bytesLostMultiplierWhileDetectingOvershooting b))
                       then do {
                         m \<leftarrow> bbr_providerMinRTT rtt b;
                         r \<leftarrow> BandwidthFromDelta (bbr_cwndToCalculateMinPacingRate b) m;
                         Some (b\<lparr>bbr_pacingRate := max targetRate r,
                                 bbr_bytesLostWhileDetectingOvershooting := 0,
                                 bbr_detectOvershooting := False\<rparr>)
                       } else Some b
                  else Some b);
            Some (b\<lparr>bbr_pacingRate := max (bbr_pacingRate b) targetRate\<rparr>)
          }
        })"

text \<open>The new congestion window, from the target window.\<close>

definition bbr_cwndTowards :: "byteCount \<Rightarrow> byteCount \<Rightarrow> bbrSender \<Rightarrow> byteCount" where
  "bbr_cwndTowards tgt bytesAcked b =
     (let cwnd = bbr_congestionWindow b;
          cwnd = (if bbr_isAtFullBandwidth b then min tgt (i64 (cwnd + bytesAcked))
                  else if cwnd < tgt \<or> totalBytesAcked (bbr_sampler b) < bbr_initialCongestionWindow b
                  then i64 (cwnd + bytesAcked)
                  else cwnd);
          cwnd = max cwnd (bbr_minCongestionWindow b)
      in min cwnd (bbr_maxCongestionWindow b))"

definition bbr_calculateCongestionWindow ::
    "RTTStats \<Rightarrow> byteCount \<Rightarrow> byteCount \<Rightarrow> bbrSender \<Rightarrow> bbrSender option" where
  "bbr_calculateCongestionWindow rtt bytesAcked excessAcked b =
     (if bbr_mode b = bbrModeProbeRtt then Some b
      else do {
        tgt \<leftarrow> bbr_getTargetCongestionWindow rtt (bbr_congestionWindowGain b) b;
        let tgt = (if bbr_isAtFullBandwidth b then i64 (tgt + bs_MaxAckHeight (bbr_sampler b))
                   else if bbr_enableAckAggregationDuringStartup b then i64 (tgt + excessAcked)
                   else tgt)
        in Some (b\<lparr>bbr_congestionWindow := bbr_cwndTowards tgt bytesAcked b\<rparr>)
      })"

text \<open>The new recovery window, while the sender is in recovery.\<close>

definition bbr_nextRecoveryWindow :: "byteCount \<Rightarrow> byteCount \<Rightarrow> bbrSender \<Rightarrow> byteCount" where
  "bbr_nextRecoveryWindow bytesAcked bytesLost b =
     (let w = bbr_recoveryWindow b in
      if w = 0 then
        let w = i64 (bbr_bytesInFlight b + bytesAcked) in max (bbr_minCongestionWindow b) w
      else
        let w = (if bytesLost \<le> w then i64 (w - bytesLost) else bbr_maxDatagramSize b);
            w = (if bbr_recoveryState b = bbrRecoveryStateGrowth then i64 (w + bytesAcked) else w);
            w = max w (i64 (bbr_bytesInFlight b + bytesAcked))
        in max (bbr_minCongestionWindow b) w)"

definition bbr_calculateRecoveryWindow :: "byteCount \<Rightarrow> byteCount \<Rightarrow> bbrSender \<Rightarrow> bbrSender" where
  "bbr_calculateRecoveryWindow bytesAcked bytesLost b =
     (if bbr_recoveryState b = bbrRecoveryStateNotInRecovery then b
      else b\<lparr>bbr_recoveryWindow := bbr_nextRecoveryWindow bytesAcked bytesLost b\<rparr>)"

subsection \<open>The congestion event\<close>

text \<open>\<open>OnCongestionEventEx\<close> in the order of the code; its stages first.\<close>

definition bbr_inFlightAfter ::
    "byteCount \<Rightarrow> AckedPacketInfo list \<Rightarrow> LostPacketInfo list \<Rightarrow> byteCount" where
  "bbr_inFlightAfter priorInFlight acked lost =
     foldl (\<lambda>x p. i64 (x - BytesLost p)) (foldl (\<lambda>x p. i64 (x - BytesAcked p)) priorInFlight acked) lost"

definition bbr_onAckedPackets ::
    "AckedPacketInfo list \<Rightarrow> LostPacketInfo list \<Rightarrow> bbrSender \<Rightarrow> bool \<times> bbrSender" where
  "bbr_onAckedPackets acked lost b =
     (if acked \<noteq> [] then
        let lastAcked = acked_PacketNumber (last acked);
            (isRoundStart, b) = bbr_updateRoundTripCounter lastAcked b
        in (isRoundStart, bbr_updateRecoveryState lastAcked (lost \<noteq> []) isRoundStart b)
      else (False, b))"

definition bbr_applySample ::
    "time \<Rightarrow> byteCount \<Rightarrow> congestionEventSample \<Rightarrow> bbrSender \<Rightarrow> bool \<times> bbrSender" where
  "bbr_applySample eventTime totalBytesAckedBefore smp b =
     (let b = (if isValid (lastPacketSendState smp) then
                 let b = b\<lparr>bbr_lastSampleIsAppLimited := sts_isAppLimited (lastPacketSendState smp)\<rparr>
                 in b\<lparr>bbr_hasNoAppLimitedSample :=
                        bbr_hasNoAppLimitedSample b \<or> \<not> bbr_lastSampleIsAppLimited b\<rparr>
               else b);
          b = (if totalBytesAckedBefore \<noteq> totalBytesAcked (bbr_sampler b) \<and>
                  (\<not> sampleIsAppLimited smp \<or>
                   wf_GetBest (bbr_maxBandwidth b) < sampleMaxBandwidth smp)
               then b\<lparr>bbr_maxBandwidth :=
                        wf_Update 0 (sampleMaxBandwidth smp) (bbr_roundTripCount b) (bbr_maxBandwidth b)\<rparr>
               else b)
      in if sampleRtt smp \<noteq> infRTT then bbr_maybeUpdateMinRtt eventTime (sampleRtt smp) b
         else (False, b))"

definition bbr_updateModel ::
    "time \<Rightarrow> AckedPacketInfo list \<Rightarrow> LostPacketInfo list \<Rightarrow> bbrSender \<Rightarrow>
     (congestionEventSample \<times> bool \<times> bbrSender) option" where
  "bbr_updateModel eventTime acked lost b =
     (let totalBytesAckedBefore = totalBytesAcked (bbr_sampler b) in do {
        (smp, s) \<leftarrow> bs_OnCongestionEvent eventTime acked lost (wf_GetBest (bbr_maxBandwidth b))
                      infBandwidth (bbr_roundTripCount b) (bbr_sampler b);
        Some (smp, bbr_applySample eventTime totalBytesAckedBefore smp (b\<lparr>bbr_sampler := s\<rparr>))
      })"

definition bbr_leastUnacked :: "AckedPacketInfo list \<Rightarrow> LostPacketInfo list \<Rightarrow> packetNumber option" where
  "bbr_leastUnacked acked lost =
     (if acked \<noteq> [] then Some (i64 (acked_PacketNumber (last acked) - 2))
      else if lost \<noteq> [] then Some (i64 (lost_PacketNumber (last lost) + 1))
      else None)"

definition bbr_countLosses :: "LostPacketInfo list \<Rightarrow> byteCount \<Rightarrow> bbrSender \<Rightarrow> bbrSender" where
  "bbr_countLosses lost bytesLost b =
     (if lost \<noteq> []
      then b\<lparr>bbr_numLossEventsInRound := u64 (bbr_numLossEventsInRound b + 1),
             bbr_bytesLostInRound := i64 (bbr_bytesLostInRound b + bytesLost)\<rparr>
      else b)"

definition bbr_endRound :: "bool \<Rightarrow> bbrSender \<Rightarrow> bbrSender" where
  "bbr_endRound isRoundStart b =
     (if isRoundStart then b\<lparr>bbr_numLossEventsInRound := 0, bbr_bytesLostInRound := 0\<rparr> else b)"

definition bbr_OnCongestionEventEx ::
    "congestion_consts \<Rightarrow> RTTStats \<Rightarrow> int \<Rightarrow> byteCount \<Rightarrow> time \<Rightarrow> AckedPacketInfo list \<Rightarrow>
     LostPacketInfo list \<Rightarrow> bbrSender \<Rightarrow> bbrSender option" where
  "bbr_OnCongestionEventEx K rtt rnd priorInFlight eventTime acked lost b =
     (let totalBytesAckedBefore = totalBytesAcked (bbr_sampler b);
          totalBytesLostBefore = totalBytesLost (bbr_sampler b);
          b = bbr_maybeApplimited priorInFlight b;
          b = b\<lparr>bbr_bytesInFlight := bbr_inFlightAfter priorInFlight acked lost\<rparr>;
          (isRoundStart, b) = bbr_onAckedPackets acked lost b
      in do {
        (smp, minRttExpired, b) \<leftarrow> bbr_updateModel eventTime acked lost b;
        let bytesLost = i64 (totalBytesLost (bbr_sampler b) - totalBytesLostBefore);
            b = bbr_countLosses lost bytesLost b
        in do {
          b \<leftarrow> (if bbr_mode b = bbrModeProbeBw
                then bbr_updateGainCyclePhase rtt eventTime priorInFlight (lost \<noteq> []) b else Some b);
          let b = (if isRoundStart \<and> \<not> bbr_isAtFullBandwidth b
                   then bbr_checkIfFullBandwidthReached (lastPacketSendState smp) b else b)
          in do {
            b \<leftarrow> bbr_maybeExitStartupOrDrain K rtt rnd eventTime b;
            b \<leftarrow> bbr_maybeEnterOrExitProbeRtt K rnd eventTime isRoundStart minRttExpired b;
            let bytesAcked = i64 (totalBytesAcked (bbr_sampler b) - totalBytesAckedBefore)
            in do {
              b \<leftarrow> bbr_calculatePacingRate rtt bytesLost b;
              b \<leftarrow> bbr_calculateCongestionWindow rtt bytesAcked (extraAcked smp) b;
              let b = bbr_calculateRecoveryWindow bytesAcked bytesLost b
              in do {
                leastUnacked \<leftarrow> bbr_leastUnacked acked lost;
                s \<leftarrow> bs_RemoveObsoletePackets leastUnacked (bbr_sampler b);
                Some (bbr_endRound isRoundStart (b\<lparr>bbr_sampler := s\<rparr>))
              }
            }
          }
        }
      })"

text \<open>The remaining methods of the interface do nothing.\<close>

definition bbr_MaybeExitSlowStart :: "bbrSender \<Rightarrow> bbrSender" where
  "bbr_MaybeExitSlowStart b = b"

definition bbr_OnPacketAcked :: "packetNumber \<Rightarrow> byteCount \<Rightarrow> byteCount \<Rightarrow> time \<Rightarrow> bbrSender \<Rightarrow> bbrSender" where
  "bbr_OnPacketAcked number ackedBytes priorInFlight eventTime b = b"

definition bbr_OnPacketLost :: "packetNumber \<Rightarrow> byteCount \<Rightarrow> byteCount \<Rightarrow> bbrSender \<Rightarrow> bbrSender" where
  "bbr_OnPacketLost number lostBytes priorInFlight b = b"

definition bbr_OnRetransmissionTimeout :: "bool \<Rightarrow> bbrSender \<Rightarrow> bbrSender" where
  "bbr_OnRetransmissionTimeout packetsRetransmitted b = b"

definition bbr_OnCongestionEvent :: "packetNumber \<Rightarrow> byteCount \<Rightarrow> byteCount \<Rightarrow> bbrSender \<Rightarrow> bbrSender" where
  "bbr_OnCongestionEvent number lostBytes priorInFlight b = b"

text \<open>\<open>GetInitialPacketSize\<close>: \<open>None\<close> is an address that is not a UDP address, \<open>Some v4\<close> a UDP
  address and whether its IP has a 4-byte form.\<close>

definition GetInitialPacketSize :: "congestion_consts \<Rightarrow> bool option \<Rightarrow> byteCount" where
  "GetInitialPacketSize K addr =
     (case addr of
        Some v4 \<Rightarrow> if v4 then InitialPacketSizeIPv4 K else InitialPacketSizeIPv6 K
      | None \<Rightarrow> MinInitialPacketSize K)"

end
