(* ===== verification/SendAlgorithm.thy ===== *)
theory SendAlgorithm
  imports Pacer
begin

text \<open>
  What the send loop of quic-go relies on in a congestion controller: \<open>CanSend\<close> compares with a
  positive window, and a controller that is asked again at (or after) the time \<open>TimeUntilSend\<close>
  announces has pacing budget for a datagram.  A controller that breaks the second law makes the send
  loop spin (the comment in \<open>bandwidthForPacer\<close>); one that breaks the first stops an idle connection
  as long as its window stays closed.  The condition \<open>calm\<close> is about the clock: the sender has not been idle for so long
  that its arithmetic overflows.  The senders BBR and Brutal are interpretations, and the
  learned sender is one while its window is positive.
\<close>

locale send_algorithm =
  fixes invar :: "'s \<Rightarrow> bool"
    and window :: "'s \<Rightarrow> byteCount"
    and can_send :: "byteCount \<Rightarrow> 's \<Rightarrow> bool"
    and time_until_send :: "'s \<Rightarrow> time"
    and has_pacing_budget :: "time \<Rightarrow> 's \<Rightarrow> bool"
    and calm :: "time \<Rightarrow> 's \<Rightarrow> bool"
  assumes can_send_window: "invar s \<Longrightarrow> can_send n s \<longleftrightarrow> n < window s"
    and window_pos: "invar s \<Longrightarrow> 0 < window s"
    and ready: "invar s \<Longrightarrow> calm now s \<Longrightarrow> time_until_send s \<le> now \<Longrightarrow> has_pacing_budget now s"
begin

lemma idle_sender_not_stuck:
  "invar s \<Longrightarrow> calm now s \<Longrightarrow> time_until_send s \<le> now \<Longrightarrow> can_send 0 s \<and> has_pacing_budget now s"
  by (simp add: can_send_window window_pos ready)

lemma can_send_antimono: "invar s \<Longrightarrow> can_send n s \<Longrightarrow> m \<le> n \<Longrightarrow> can_send m s"
  by (simp add: can_send_window)

text \<open>A sender that fills its window packet by packet overshoots it by less than one packet.\<close>

lemma overshoot: "invar s \<Longrightarrow> can_send n s \<Longrightarrow> sz \<le> bound \<Longrightarrow> n + sz < window s + bound"
  by (simp add: can_send_window)

end

end
