(* ===== verification/BbrInvariant.thy ===== *)
theory BbrInvariant
  imports BbrSender SendAlgorithm
begin

text \<open>
  The invariant of the BBR sender, stage by stage of \<open>OnCongestionEventEx\<close>: no stage panics, the
  congestion window stays between its bounds, the recovery window is at least the minimum window
  after every event, and the mode moves along \<open>bbr_mode_step\<close> only.
\<close>

text \<open>
  \<open>bbr_weak\<close> holds between the stages of an event, where the recovery window may still be the mark 0;
  \<open>bbr_inv\<close> holds between events.
\<close>

definition bbr_weak :: "bbrSender \<Rightarrow> bool" where
  "bbr_weak b \<longleftrightarrow>
     bbr_rttStats b \<and> bs_ok (bbr_sampler b) \<and> lastSentPacket (bbr_sampler b) = bbr_lastSentPacket b \<and>
     comparator_fn (bbr_maxBandwidth b) = MaxFilter \<and>
     0 < bbr_minCongestionWindow b \<and> bbr_minCongestionWindow b \<le> bbr_congestionWindow b \<and>
     bbr_congestionWindow b \<le> bbr_maxCongestionWindow b \<and>
     \<not> bbr_detectOvershooting b \<and> bbr_congestionWindowGain b = 2 \<and> bbr_highCwndGain b = 2 \<and>
     bbr_congestionWindowGainConstant b = 2 \<and>
     0 \<le> bbr_cycleCurrentOffset b \<and> bbr_cycleCurrentOffset b < gainCycleLength \<and>
     (bbr_mode b = bbrModeDrain \<or> bbr_mode b = bbrModeProbeBw \<longrightarrow> bbr_isAtFullBandwidth b) \<and>
     (bbr_InRecovery b \<longrightarrow> bbr_isAtFullBandwidth b \<and>
        (bbr_recoveryWindow b = 0 \<or> bbr_minCongestionWindow b \<le> bbr_recoveryWindow b))"

definition bbr_inv :: "bbrSender \<Rightarrow> bool" where
  "bbr_inv b \<longleftrightarrow>
     bbr_weak b \<and> (bbr_mode b = bbrModeStartup \<longrightarrow> \<not> bbr_isAtFullBandwidth b) \<and>
     (bbr_InRecovery b \<longrightarrow> bbr_minCongestionWindow b \<le> bbr_recoveryWindow b)"

text \<open>The parts of the state no stage of an event changes.\<close>

definition bbr_frame :: "bbrSender \<Rightarrow> bbrSender \<Rightarrow> bool" where
  "bbr_frame b b' \<longleftrightarrow>
     bbr_minCongestionWindow b' = bbr_minCongestionWindow b \<and>
     bbr_maxCongestionWindow b' = bbr_maxCongestionWindow b \<and>
     bbr_initialCongestionWindow b' = bbr_initialCongestionWindow b \<and>
     bbr_maxDatagramSize b' = bbr_maxDatagramSize b \<and> bbr_pacer b' = bbr_pacer b \<and>
     bbr_lastSentPacket b' = bbr_lastSentPacket b"

lemma bbr_frame_refl [simp]: "bbr_frame b b"
  by (simp add: bbr_frame_def)

lemma bbr_frame_trans: "bbr_frame a b \<Longrightarrow> bbr_frame b c \<Longrightarrow> bbr_frame a c"
  by (simp add: bbr_frame_def)

lemmas bbr_weak_defs = bbr_weak_def bbr_InRecovery_def bbr_frame_def

lemma bbr_weak_upd [simp]:
  "bbr_weak (b\<lparr>bbr_bytesInFlight := x\<rparr>) = bbr_weak b"
  "bbr_weak (b\<lparr>bbr_numLossEventsInRound := y\<rparr>) = bbr_weak b"
  "bbr_weak (b\<lparr>bbr_bytesLostInRound := z\<rparr>) = bbr_weak b"
  by (simp_all add: bbr_weak_def bbr_InRecovery_def)

lemma bbr_frame_upd [simp]:
  "bbr_frame a (b\<lparr>bbr_bytesInFlight := x\<rparr>) = bbr_frame a b"
  "bbr_frame a (b\<lparr>bbr_numLossEventsInRound := y\<rparr>) = bbr_frame a b"
  "bbr_frame a (b\<lparr>bbr_bytesLostInRound := z\<rparr>) = bbr_frame a b"
  by (simp_all add: bbr_frame_def)

lemma bs_ok_OnAppLimited [simp]: "bs_ok (bs_OnAppLimited s) = bs_ok s"
  "lastSentPacket (bs_OnAppLimited s) = lastSentPacket s"
  by (simp_all add: bs_ok_def bs_inv_def bs_OnAppLimited_def)

lemma bs_ok_ResetMaxAckHeightTracker [simp]: "bs_ok (bs_ResetMaxAckHeightTracker h t s) = bs_ok s"
  "lastSentPacket (bs_ResetMaxAckHeightTracker h t s) = lastSentPacket s"
  by (simp_all add: bs_ok_def bs_inv_def bs_ResetMaxAckHeightTracker_def mah_Reset_def Let_def)

lemma bbr_gain_at_Some: "0 \<le> i \<Longrightarrow> i < gainCycleLength \<Longrightarrow> bbr_gain_at i = Some (pacingGain_table ! nat i)"
  by (simp add: bbr_gain_at_def)

lemma gainCycleLength_eq [simp]: "gainCycleLength = 8"
  by (simp add: gainCycleLength_def pacingGain_table_def)

lemma bbr_getMinRtt_Some: "bbr_rttStats b \<Longrightarrow> \<exists>m. bbr_getMinRtt rtt b = Some m \<and> m \<noteq> 0"
  by (simp add: bbr_getMinRtt_def bbr_providerMinRTT_def time_Millisecond_def)

lemma bbr_getTarget_Some:
  "bbr_rttStats b \<Longrightarrow>
   \<exists>w. bbr_getTargetCongestionWindow rtt g b = Some w \<and> bbr_minCongestionWindow b \<le> w"
  using bbr_getMinRtt_Some [of b rtt] by (auto simp: bbr_getTargetCongestionWindow_def Let_def)

subsection \<open>Stages\<close>

lemma bbr_maybeApplimited_ok:
  "bbr_weak b \<Longrightarrow> bbr_weak (bbr_maybeApplimited n b) \<and> bbr_frame b (bbr_maybeApplimited n b) \<and>
   bbr_mode (bbr_maybeApplimited n b) = bbr_mode b \<and>
   bbr_isAtFullBandwidth (bbr_maybeApplimited n b) = bbr_isAtFullBandwidth b"
  by (simp add: bbr_maybeApplimited_def Let_def bbr_weak_defs)

lemma bbr_updateRoundTripCounter_ok:
  assumes "bbr_updateRoundTripCounter n b = (r, b')" "bbr_weak b"
  shows "bbr_weak b' \<and> bbr_frame b b' \<and> bbr_mode b' = bbr_mode b \<and>
    bbr_isAtFullBandwidth b' = bbr_isAtFullBandwidth b"
proof -
  have "b' = snd (bbr_updateRoundTripCounter n b)" using assms(1) by simp
  with assms(2) show ?thesis by (simp add: bbr_updateRoundTripCounter_def bbr_weak_defs)
qed

lemma bbr_updateRecoveryState_ok:
  assumes "bbr_weak b" and b'_def: "b' = bbr_updateRecoveryState n hasLosses rs b"
  shows "bbr_weak b' \<and> bbr_frame b b' \<and> bbr_mode b' = bbr_mode b \<and>
    bbr_isAtFullBandwidth b' = bbr_isAtFullBandwidth b"
  using assms(1)
  by (cases "bbr_recoveryState b")
    (auto simp: b'_def bbr_updateRecoveryState_def Let_def bbr_weak_defs)

lemma bbr_onAckedPackets_ok:
  assumes "bbr_onAckedPackets acked lost b = (r, b')" "bbr_weak b"
  shows "bbr_weak b' \<and> bbr_frame b b' \<and> bbr_mode b' = bbr_mode b \<and>
    bbr_isAtFullBandwidth b' = bbr_isAtFullBandwidth b"
proof (cases "acked = []")
  case False
  let ?n = "acked_PacketNumber (last acked)"
  obtain rs b1 where b1: "bbr_updateRoundTripCounter ?n b = (rs, b1)" by (cases "bbr_updateRoundTripCounter ?n b")
  have "b' = bbr_updateRecoveryState ?n (lost \<noteq> []) rs b1"
    using assms(1) False b1 by (auto simp: bbr_onAckedPackets_def)
  with bbr_updateRoundTripCounter_ok [OF b1 assms(2)] bbr_updateRecoveryState_ok [OF _ this]
  show ?thesis using bbr_frame_trans by metis
qed (use assms in \<open>simp add: bbr_onAckedPackets_def\<close>)

lemma bbr_applySample_ok:
  assumes "bbr_weak b"
  shows "bbr_weak (snd (bbr_applySample t n smp b)) \<and> bbr_frame b (snd (bbr_applySample t n smp b)) \<and>
    bbr_mode (snd (bbr_applySample t n smp b)) = bbr_mode b \<and>
    bbr_isAtFullBandwidth (snd (bbr_applySample t n smp b)) = bbr_isAtFullBandwidth b"
  using assms by (simp add: bbr_applySample_def bbr_maybeUpdateMinRtt_def Let_def bbr_weak_defs)

lemma bbr_updateModel_ok:
  assumes "bbr_weak b" "\<forall>p\<in>set acked. in_i64 (acked_PacketNumber p)" "\<forall>p\<in>set lost. in_i64 (lost_PacketNumber p)"
  shows "\<exists>smp e b'. bbr_updateModel t acked lost b = Some (smp, e, b') \<and> bbr_weak b' \<and> bbr_frame b b' \<and>
    bbr_mode b' = bbr_mode b \<and> bbr_isAtFullBandwidth b' = bbr_isAtFullBandwidth b"
proof -
  let ?e = "EvCongestion t acked lost (wf_GetBest (bbr_maxBandwidth b)) infBandwidth (bbr_roundTripCount b)"
  have "bs_ok (bbr_sampler b)" "ev_ok (lastSentPacket (bbr_sampler b)) ?e"
    using assms by (simp_all add: bbr_weak_def)
  from bs_step_ok [OF this] obtain smp s where s: "bs_OnCongestionEvent t acked lost
      (wf_GetBest (bbr_maxBandwidth b)) infBandwidth (bbr_roundTripCount b) (bbr_sampler b) = Some (smp, s)"
    "bs_ok s" "lastSentPacket s = lastSentPacket (bbr_sampler b)"
    by auto
  let ?b = "b\<lparr>bbr_sampler := s\<rparr>" and ?n = "totalBytesAcked (bbr_sampler b)"
  have b: "bbr_weak ?b" "bbr_frame b ?b" using assms(1) s(2,3) by (simp_all add: bbr_weak_defs)
  obtain e b' where e: "bbr_applySample t ?n smp ?b = (e, b')" by (cases "bbr_applySample t ?n smp ?b")
  have "bbr_updateModel t acked lost b = Some (smp, e, b')" using s(1) e by (simp add: bbr_updateModel_def)
  with bbr_applySample_ok [OF b(1), of t ?n smp] e bbr_frame_trans [OF b(2)] show ?thesis by simp
qed

lemma bbr_shouldAdvance_Some:
  assumes "bbr_rttStats b"
  shows "\<exists>adv. bbr_shouldAdvanceGainCycling rtt t n hl b = Some adv"
proof -
  obtain m where m: "bbr_getMinRtt rtt b = Some m" using bbr_getMinRtt_Some [OF assms] by blast
  obtain w1 where w1: "bbr_getTargetCongestionWindow rtt (bbr_pacingGain b) b = Some w1"
    using bbr_getTarget_Some [OF assms] by blast
  obtain w2 where w2: "bbr_getTargetCongestionWindow rtt 1 b = Some w2"
    using bbr_getTarget_Some [OF assms] by blast
  show ?thesis using m w1 w2 by (simp add: bbr_shouldAdvanceGainCycling_def)
qed

lemma bbr_advanceGainCycle_ok:
  assumes "bbr_weak b"
  shows "\<exists>b'. bbr_advanceGainCycle rtt t b = Some b' \<and> bbr_weak b' \<and> bbr_frame b b' \<and>
    bbr_mode b' = bbr_mode b \<and> bbr_isAtFullBandwidth b' = bbr_isAtFullBandwidth b"
proof -
  define off where "off = (bbr_cycleCurrentOffset b + 1) smod 8"
  let ?b = "b\<lparr>bbr_cycleCurrentOffset := off, bbr_lastCycleStart := t\<rparr>"
  have off: "0 \<le> off" "off < 8"
    using assms by (simp_all add: off_def bbr_weak_def smod_pos_eq)
  then obtain g where g: "bbr_gain_at off = Some g" using bbr_gain_at_Some by simp
  have r: "bbr_rttStats ?b" using assms by (simp add: bbr_weak_def)
  obtain w where w: "bbr_getTargetCongestionWindow rtt 1 ?b = Some w" using bbr_getTarget_Some [OF r] by blast
  have "\<exists>p. bbr_advanceGainCycle rtt t b = Some (?b\<lparr>bbr_pacingGain := p\<rparr>)"
  proof (cases "bbr_drainToTarget b \<and> bbr_pacingGain b < 1 \<and> g = 1 \<and> w < bbr_bytesInFlight b")
    case True
    then show ?thesis using w g
      by (intro exI [of _ "bbr_pacingGain b"])
        (simp add: bbr_advanceGainCycle_def Let_def off_def [symmetric])
  next
    case False
    then show ?thesis using w g
      by (intro exI [of _ g]) (auto simp: bbr_advanceGainCycle_def Let_def off_def [symmetric])
  qed
  with assms off show ?thesis by (auto simp: bbr_weak_defs)
qed

lemma bbr_updateGainCyclePhase_ok:
  assumes "bbr_weak b"
  shows "\<exists>b'. bbr_updateGainCyclePhase rtt t n hl b = Some b' \<and> bbr_weak b' \<and> bbr_frame b b' \<and>
    bbr_mode b' = bbr_mode b \<and> bbr_isAtFullBandwidth b' = bbr_isAtFullBandwidth b"
proof -
  have "bbr_rttStats b" using assms by (simp add: bbr_weak_def)
  then obtain adv where "bbr_shouldAdvanceGainCycling rtt t n hl b = Some adv"
    using bbr_shouldAdvance_Some by blast
  with bbr_advanceGainCycle_ok [OF assms, of rtt t] assms show ?thesis
    by (cases adv) (simp_all add: bbr_updateGainCyclePhase_def)
qed

lemma bbr_checkIfFullBandwidthReached_ok:
  assumes "bbr_weak b" and b'_def: "b' = bbr_checkIfFullBandwidthReached st b"
  shows "bbr_weak b' \<and> bbr_frame b b' \<and> bbr_mode b' = bbr_mode b \<and>
    (bbr_isAtFullBandwidth b \<longrightarrow> bbr_isAtFullBandwidth b')"
  using assms(1) by (auto simp: b'_def bbr_checkIfFullBandwidthReached_def Let_def bbr_weak_defs)

lemma bbr_enterProbeBandwidthMode_ok:
  assumes "bbr_weak b" "consts_ok K" "0 \<le> rnd" "bbr_isAtFullBandwidth b"
  shows "\<exists>b'. bbr_enterProbeBandwidthMode K rnd t b = Some b' \<and> bbr_weak b' \<and> bbr_frame b b' \<and>
    bbr_mode b' = bbrModeProbeBw \<and> bbr_isAtFullBandwidth b' \<and> bbr_cycleCurrentOffset b' \<noteq> 1 \<and>
    bbr_exitProbeRttAt b' = bbr_exitProbeRttAt b"
proof -
  have "rnd smod 7 = rnd mod 7" using assms(3) by (simp add: smod_pos_eq)
  moreover have "0 \<le> rnd mod 7" "rnd mod 7 < 7" by simp_all
  moreover have "0 < PacketsPerConnectionID K" using assms(2) by (simp add: consts_ok_def)
  ultimately show ?thesis
    using assms(1,4) by (simp add: bbr_enterProbeBandwidthMode_def Let_def bbr_gain_at_Some bbr_weak_defs)
qed

lemma bbr_maybeExitStartupOrDrain_ok:
  assumes "bbr_weak b" "consts_ok K" "0 \<le> rnd"
  shows "\<exists>b'. bbr_maybeExitStartupOrDrain K rtt rnd t b = Some b' \<and> bbr_weak b' \<and> bbr_frame b b' \<and>
    bbr_isAtFullBandwidth b' = bbr_isAtFullBandwidth b \<and>
    (bbr_mode b' = bbr_mode b \<and> \<not> (bbr_mode b = bbrModeStartup \<and> bbr_isAtFullBandwidth b) \<or>
     bbr_isAtFullBandwidth b \<and> bbr_mode b \<in> {bbrModeStartup, bbrModeDrain} \<and>
     bbr_mode b' \<in> {bbrModeDrain, bbrModeProbeBw})"
proof -
  define b1 where "b1 = (if bbr_mode b = bbrModeStartup \<and> bbr_isAtFullBandwidth b
    then b\<lparr>bbr_mode := bbrModeDrain, bbr_pacingGain := bbr_drainGain b,
           bbr_congestionWindowGain := bbr_highCwndGain b\<rparr> else b)"
  have b1: "bbr_weak b1" "bbr_frame b b1" "bbr_isAtFullBandwidth b1 = bbr_isAtFullBandwidth b"
    "bbr_mode b1 = (if bbr_mode b = bbrModeStartup \<and> bbr_isAtFullBandwidth b then bbrModeDrain else bbr_mode b)"
    using assms(1) by (simp_all add: b1_def bbr_weak_defs)
  have eq: "bbr_maybeExitStartupOrDrain K rtt rnd t b =
      (if bbr_mode b1 = bbrModeDrain then do {
         tgt \<leftarrow> bbr_getTargetCongestionWindow rtt 1 b1;
         if bbr_bytesInFlight b1 \<le> tgt then bbr_enterProbeBandwidthMode K rnd t b1 else Some b1
       } else Some b1)"
    by (simp add: bbr_maybeExitStartupOrDrain_def b1_def [symmetric] Let_def)
  show ?thesis
  proof (cases "bbr_mode b1 = bbrModeDrain")
    case True
    have full: "bbr_isAtFullBandwidth b1" and r: "bbr_rttStats b1" using b1(1) True by (simp_all add: bbr_weak_def)
    obtain w where w: "bbr_getTargetCongestionWindow rtt 1 b1 = Some w" using bbr_getTarget_Some [OF r] by blast
    obtain b2 where b2: "bbr_enterProbeBandwidthMode K rnd t b1 = Some b2" "bbr_weak b2" "bbr_frame b1 b2"
      "bbr_mode b2 = bbrModeProbeBw" "bbr_isAtFullBandwidth b2"
      using bbr_enterProbeBandwidthMode_ok [OF b1(1) assms(2,3) full] by blast
    have md: "bbr_mode b \<in> {bbrModeStartup, bbrModeDrain}" using True b1(4) by (auto split: if_splits)
    show ?thesis
    proof (cases "bbr_bytesInFlight b1 \<le> w")
      case le: True
      then have "bbr_maybeExitStartupOrDrain K rtt rnd t b = Some b2" using eq True w b2(1) by simp
      with b2 bbr_frame_trans [OF b1(2) b2(3)] full b1(3) md show ?thesis by auto
    next
      case False
      then have "bbr_maybeExitStartupOrDrain K rtt rnd t b = Some b1" using eq True w by simp
      with b1 full md True show ?thesis by auto
    qed
  next
    case False
    then have "bbr_maybeExitStartupOrDrain K rtt rnd t b = Some b1" using eq by simp
    with b1 False show ?thesis by (auto split: if_splits)
  qed
qed

lemma bbr_inProbeRtt_exits:
  assumes "bbr_weak b" "consts_ok K" "0 \<le> rnd" "bbr_exitProbeRttAt b \<noteq> 0 \<and> bbr_exitProbeRttAt b \<le> t \<and> (rs \<or> bbr_probeRttRoundPassed b)"
  shows "\<exists>b'. bbr_inProbeRtt K rnd t rs b = Some b' \<and> bbr_weak b' \<and> bbr_frame b b' \<and>
    bbr_isAtFullBandwidth b' = bbr_isAtFullBandwidth b \<and> bbr_mode b' = (if bbr_isAtFullBandwidth b then bbrModeProbeBw else bbrModeStartup)"
proof -
  let ?b = "(if rs then b\<lparr>bbr_sampler := bs_OnAppLimited (bbr_sampler b), bbr_probeRttRoundPassed := True\<rparr>
    else b\<lparr>bbr_sampler := bs_OnAppLimited (bbr_sampler b)\<rparr>)\<lparr>bbr_minRttTimestamp := t\<rparr>"
  have weak: "bbr_weak ?b" "bbr_frame b ?b" "bbr_isAtFullBandwidth ?b = bbr_isAtFullBandwidth b"
    using assms(1) by (simp_all add: bbr_weak_defs)
  have eq: "bbr_inProbeRtt K rnd t rs b = (if \<not> bbr_isAtFullBandwidth ?b then Some (bbr_enterStartupMode ?b)
      else bbr_enterProbeBandwidthMode K rnd t ?b)"
    using assms(4) by (cases rs) (simp_all add: bbr_inProbeRtt_def Let_def time_IsZero_def time_zero_def)
  show ?thesis
  proof (cases "bbr_isAtFullBandwidth b")
    case full: True
    then have f: "bbr_isAtFullBandwidth ?b" using weak(3) by simp
    obtain b2 where "bbr_enterProbeBandwidthMode K rnd t ?b = Some b2" "bbr_weak b2" "bbr_frame ?b b2"
      "bbr_mode b2 = bbrModeProbeBw" "bbr_isAtFullBandwidth b2"
      using bbr_enterProbeBandwidthMode_ok [OF weak(1) assms(2,3) f] by blast
    with full f eq bbr_frame_trans [OF weak(2)] show ?thesis by auto
  next
    case False
    then have "bbr_weak (bbr_enterStartupMode ?b)" "bbr_frame b (bbr_enterStartupMode ?b)"
      "bbr_isAtFullBandwidth (bbr_enterStartupMode ?b) = bbr_isAtFullBandwidth b"
      "bbr_mode (bbr_enterStartupMode ?b) = bbrModeStartup"
      using assms(1) by (simp_all add: bbr_enterStartupMode_def bbr_weak_defs)
    with False weak(3) eq show ?thesis by auto
  qed
qed

lemma bbr_inProbeRtt_stays:
  assumes "bbr_weak b" "bbr_mode b = bbrModeProbeRtt" "\<not> (bbr_exitProbeRttAt b \<noteq> 0 \<and> bbr_exitProbeRttAt b \<le> t \<and> (rs \<or> bbr_probeRttRoundPassed b))"
  shows "\<exists>b'. bbr_inProbeRtt K rnd t rs b = Some b' \<and> bbr_weak b' \<and> bbr_frame b b' \<and>
    bbr_isAtFullBandwidth b' = bbr_isAtFullBandwidth b \<and> bbr_mode b' = bbrModeProbeRtt"
proof -
  show ?thesis
  proof (cases "bbr_exitProbeRttAt b = 0")
    case True
    with assms(1,2) show ?thesis
      by (simp add: bbr_inProbeRtt_def Let_def time_IsZero_def time_zero_def bbr_weak_defs)
  next
    case wait: False
    let ?b = "b\<lparr>bbr_sampler := bs_OnAppLimited (bbr_sampler b)\<rparr>"
    have "bbr_inProbeRtt K rnd t rs b = Some (if rs then ?b\<lparr>bbr_probeRttRoundPassed := True\<rparr> else ?b)"
      using assms(3) wait
      by (cases rs; cases "bbr_exitProbeRttAt b \<le> t")
        (simp_all add: bbr_inProbeRtt_def Let_def time_IsZero_def time_zero_def)
    with assms(1,2) show ?thesis by (auto simp: bbr_weak_defs)
  qed
qed

lemma bbr_inProbeRtt_ok:
  assumes "bbr_weak b" "consts_ok K" "0 \<le> rnd" "bbr_mode b = bbrModeProbeRtt"
  shows "\<exists>b'. bbr_inProbeRtt K rnd t rs b = Some b' \<and> bbr_weak b' \<and> bbr_frame b b' \<and>
    bbr_isAtFullBandwidth b' = bbr_isAtFullBandwidth b \<and>
    bbr_mode b' =
      (if bbr_exitProbeRttAt b \<noteq> 0 \<and> bbr_exitProbeRttAt b \<le> t \<and> (rs \<or> bbr_probeRttRoundPassed b)
       then if bbr_isAtFullBandwidth b then bbrModeProbeBw else bbrModeStartup
       else bbrModeProbeRtt)"
proof (cases "bbr_exitProbeRttAt b \<noteq> 0 \<and> bbr_exitProbeRttAt b \<le> t \<and> (rs \<or> bbr_probeRttRoundPassed b)")
  case True
  show ?thesis unfolding if_P [OF True] using bbr_inProbeRtt_exits [OF assms(1-3) True] .
next
  case False
  show ?thesis unfolding if_not_P [OF False] using bbr_inProbeRtt_stays [OF assms(1,4) False] .
qed

lemma bbr_maybeEnterOrExitProbeRtt_ok:
  assumes "bbr_weak b" "consts_ok K" "0 \<le> rnd"
  shows "\<exists>b'. bbr_maybeEnterOrExitProbeRtt K rnd t rs ex b = Some b' \<and> bbr_weak b' \<and> bbr_frame b b' \<and>
    bbr_isAtFullBandwidth b' = bbr_isAtFullBandwidth b \<and>
    bbr_mode b' =
      (if bbr_mode b = bbrModeProbeRtt
       then if bbr_exitProbeRttAt b \<noteq> 0 \<and> bbr_exitProbeRttAt b \<le> t \<and> (rs \<or> bbr_probeRttRoundPassed b)
            then if bbr_isAtFullBandwidth b then bbrModeProbeBw else bbrModeStartup
            else bbrModeProbeRtt
       else if ex \<and> \<not> bbr_exitingQuiescence b then bbrModeProbeRtt else bbr_mode b)"
proof -
  let ?b = "bbr_enterProbeRtt ex b"
  have b: "bbr_weak ?b" "bbr_frame b ?b" "bbr_isAtFullBandwidth ?b = bbr_isAtFullBandwidth b"
    "bbr_mode ?b = (if ex \<and> \<not> bbr_exitingQuiescence b then bbrModeProbeRtt else bbr_mode b)"
    "bbr_mode b = bbrModeProbeRtt \<Longrightarrow> ?b = b"
    "bbr_mode b \<noteq> bbrModeProbeRtt \<Longrightarrow> bbr_mode ?b = bbrModeProbeRtt \<Longrightarrow> bbr_exitProbeRttAt ?b = 0"
    using assms(1) by (simp_all add: bbr_enterProbeRtt_def bbr_weak_defs time_zero_def split: if_splits)
  have fin: "bbr_weak (x\<lparr>bbr_exitingQuiescence := False\<rparr>) = bbr_weak x"
    "bbr_frame b (x\<lparr>bbr_exitingQuiescence := False\<rparr>) = bbr_frame b x" for x
    by (simp_all add: bbr_weak_defs)
  show ?thesis
  proof (cases "bbr_mode ?b = bbrModeProbeRtt")
    case True
    obtain b2 where b2: "bbr_inProbeRtt K rnd t rs ?b = Some b2" "bbr_weak b2" "bbr_frame ?b b2"
      "bbr_isAtFullBandwidth b2 = bbr_isAtFullBandwidth ?b"
      "bbr_mode b2 = (if bbr_exitProbeRttAt ?b \<noteq> 0 \<and> bbr_exitProbeRttAt ?b \<le> t \<and> (rs \<or> bbr_probeRttRoundPassed ?b)
         then if bbr_isAtFullBandwidth ?b then bbrModeProbeBw else bbrModeStartup else bbrModeProbeRtt)"
      using bbr_inProbeRtt_ok [OF b(1) assms(2,3) True] by blast
    have ev: "bbr_maybeEnterOrExitProbeRtt K rnd t rs ex b = Some (b2\<lparr>bbr_exitingQuiescence := False\<rparr>)"
      using True b2(1) by (simp add: bbr_maybeEnterOrExitProbeRtt_def Let_def)
    have fr: "bbr_frame b b2" using bbr_frame_trans [OF b(2) b2(3)] .
    show ?thesis
    proof (cases "bbr_mode b = bbrModeProbeRtt")
      case old: True
      with ev fr b2(2,4,5) b(5) fin show ?thesis by simp
    next
      case False
      with b(4) True have "ex \<and> \<not> bbr_exitingQuiescence b" by (simp split: if_splits)
      with ev fr b2(2,4,5) b(3) b(6) [OF False True] fin False show ?thesis by simp
    qed
  next
    case False
    then have "bbr_maybeEnterOrExitProbeRtt K rnd t rs ex b = Some (?b\<lparr>bbr_exitingQuiescence := False\<rparr>)"
      by (simp add: bbr_maybeEnterOrExitProbeRtt_def Let_def)
    moreover have "bbr_mode b \<noteq> bbrModeProbeRtt" using False b(5) by auto
    ultimately show ?thesis using b(1-4) False fin by simp
  qed
qed

text \<open>What the last stages keep besides the frame.\<close>

definition bbr_same_mode :: "bbrSender \<Rightarrow> bbrSender \<Rightarrow> bool" where
  "bbr_same_mode b b' \<longleftrightarrow> bbr_mode b' = bbr_mode b \<and> bbr_isAtFullBandwidth b' = bbr_isAtFullBandwidth b"

lemma BandwidthFromDelta_in_i64: "in_i64 m \<Longrightarrow> m \<noteq> 0 \<Longrightarrow> \<exists>r. BandwidthFromDelta n m = Some r"
proof (rule BandwidthFromDelta_Some)
  assume "in_i64 m" "m \<noteq> 0"
  then show "u64 m \<noteq> 0" by (cases "0 \<le> m") (auto simp: u64_def mod_eq_0_iff_dvd zdvd_imp_le elim!: dvdE)
qed

lemma bbr_calculatePacingRate_ok:
  assumes "bbr_weak b" "in_i64 (MinRTT rtt)"
  shows "\<exists>r. bbr_calculatePacingRate rtt n b = Some (b\<lparr>bbr_pacingRate := r\<rparr>)"
proof -
  have b: "bbr_rttStats b" "\<not> bbr_detectOvershooting b" using assms(1) by (simp_all add: bbr_weak_def)
  show ?thesis
  proof (cases "bbr_bandwidthEstimate b = 0")
    case True
    then show ?thesis
      by (intro exI [of _ "bbr_pacingRate b"]) (simp add: bbr_calculatePacingRate_def)
  next
    case ne: False
    show ?thesis
    proof (cases "\<not> bbr_isAtFullBandwidth b \<and> bbr_pacingRate b = 0 \<and> MinRTT rtt \<noteq> 0")
      case True
      then obtain r where "BandwidthFromDelta (bbr_initialCongestionWindow b) (MinRTT rtt) = Some r"
        using BandwidthFromDelta_in_i64 [OF assms(2)] by blast
      with True ne b show ?thesis
        by (intro exI [of _ r]) (simp add: bbr_calculatePacingRate_def bbr_providerMinRTT_def Let_def)
    next
      case False
      let ?r = "f64_to_u64 (f64_mul (bbr_pacingGain b) (f64_of_int (bbr_bandwidthEstimate b)))"
      from False ne b show ?thesis
        by (intro exI [of _ "if bbr_isAtFullBandwidth b then ?r else max (bbr_pacingRate b) ?r"])
          (cases "bbr_pacingRate b = 0"; cases "bbr_isAtFullBandwidth b";
           simp add: bbr_calculatePacingRate_def bbr_providerMinRTT_def Let_def)
    qed
  qed
qed

lemma bbr_cwndTowards_bounds:
  "bbr_minCongestionWindow b \<le> bbr_maxCongestionWindow b \<Longrightarrow>
   bbr_minCongestionWindow b \<le> bbr_cwndTowards tgt n b \<and> bbr_cwndTowards tgt n b \<le> bbr_maxCongestionWindow b"
  by (simp add: bbr_cwndTowards_def Let_def)

lemma bbr_calculateCongestionWindow_ok:
  assumes "bbr_weak b"
  shows "\<exists>w. bbr_calculateCongestionWindow rtt n e b = Some (b\<lparr>bbr_congestionWindow := w\<rparr>) \<and>
    bbr_minCongestionWindow b \<le> w \<and> w \<le> bbr_maxCongestionWindow b"
proof (cases "bbr_mode b = bbrModeProbeRtt")
  case True
  with assms show ?thesis
    by (intro exI [of _ "bbr_congestionWindow b"]) (simp add: bbr_calculateCongestionWindow_def bbr_weak_def)
next
  case False
  have r: "bbr_rttStats b" and mm: "bbr_minCongestionWindow b \<le> bbr_maxCongestionWindow b"
    using assms by (simp_all add: bbr_weak_def)
  obtain w where w: "bbr_getTargetCongestionWindow rtt (bbr_congestionWindowGain b) b = Some w"
    using bbr_getTarget_Some [OF r] by blast
  define tgt where "tgt = (if bbr_isAtFullBandwidth b then i64 (w + bs_MaxAckHeight (bbr_sampler b))
    else if bbr_enableAckAggregationDuringStartup b then i64 (w + e) else w)"
  have "bbr_calculateCongestionWindow rtt n e b = Some (b\<lparr>bbr_congestionWindow := bbr_cwndTowards tgt n b\<rparr>)"
    using False w by (simp add: bbr_calculateCongestionWindow_def Let_def tgt_def)
  with bbr_cwndTowards_bounds [OF mm] show ?thesis by blast
qed

lemma bbr_nextRecoveryWindow_ge: "bbr_minCongestionWindow b \<le> bbr_nextRecoveryWindow n l b"
  by (simp add: bbr_nextRecoveryWindow_def Let_def)

lemma bbr_calculateRecoveryWindow_ok:
  assumes "bbr_weak b" "b' = bbr_calculateRecoveryWindow n l b"
  shows "bbr_weak b' \<and> bbr_frame b b' \<and> bbr_same_mode b b' \<and>
    (bbr_InRecovery b' \<longrightarrow> bbr_minCongestionWindow b' \<le> bbr_recoveryWindow b')"
  using assms(1) bbr_nextRecoveryWindow_ge [of b n l]
  by (simp add: assms(2) bbr_calculateRecoveryWindow_def bbr_weak_defs bbr_same_mode_def)

subsection \<open>The whole event\<close>

text \<open>
  The moves of the mode in one event; the flag tells whether full bandwidth has been reached by its
  end.
\<close>

inductive bbr_mode_step :: "bool \<Rightarrow> bbrMode \<Rightarrow> bbrMode \<Rightarrow> bool" where
  stay: "\<not> (f \<and> m = bbrModeStartup) \<Longrightarrow> bbr_mode_step f m m"
| drain: "bbr_mode_step True bbrModeStartup bbrModeDrain"
| drained: "m = bbrModeStartup \<or> m = bbrModeDrain \<Longrightarrow> bbr_mode_step True m bbrModeProbeBw"
| probe_rtt: "m \<noteq> bbrModeProbeRtt \<Longrightarrow> bbr_mode_step f m bbrModeProbeRtt"
| back_to_startup: "bbr_mode_step False bbrModeProbeRtt bbrModeStartup"
| back_to_probe_bw: "bbr_mode_step True bbrModeProbeRtt bbrModeProbeBw"

lemmas bbr_mode_step_intros = bbr_mode_step.intros

inductive_cases bbr_mode_step_from_drainE: "bbr_mode_step f bbrModeDrain m"
inductive_cases bbr_mode_step_from_probe_bwE: "bbr_mode_step f bbrModeProbeBw m"
inductive_cases bbr_mode_step_to_startupE: "bbr_mode_step f m bbrModeStartup"

code_pred bbr_mode_step .

lemma bbr_leastUnacked_Some:
  "acked \<noteq> [] \<or> lost \<noteq> [] \<Longrightarrow> \<exists>n. bbr_leastUnacked acked lost = Some n"
  by (auto simp: bbr_leastUnacked_def)

text \<open>The first half of the event, up to the update of the path model.\<close>

lemma bbr_event_front:
  assumes "bbr_weak b" "\<forall>p\<in>set acked. in_i64 (acked_PacketNumber p)" "\<forall>p\<in>set lost. in_i64 (lost_PacketNumber p)"
    and ack: "bbr_onAckedPackets acked lost
      ((bbr_maybeApplimited n b)\<lparr>bbr_bytesInFlight := x\<rparr>) = (rs, b2)"
  shows "\<exists>smp e b3. bbr_updateModel t acked lost b2 = Some (smp, e, b3) \<and> bbr_weak b3 \<and> bbr_frame b b3 \<and>
    bbr_same_mode b b3"
proof -
  let ?b1 = "(bbr_maybeApplimited n b)\<lparr>bbr_bytesInFlight := x\<rparr>"
  have b1: "bbr_weak ?b1" "bbr_frame b ?b1" "bbr_same_mode b ?b1"
    using bbr_maybeApplimited_ok [OF assms(1), of n] by (simp_all add: bbr_same_mode_def)
  have b2: "bbr_weak b2" "bbr_frame ?b1 b2" "bbr_same_mode ?b1 b2"
    using bbr_onAckedPackets_ok [OF ack b1(1)] by (simp_all add: bbr_same_mode_def)
  obtain smp e b3 where b3: "bbr_updateModel t acked lost b2 = Some (smp, e, b3)" "bbr_weak b3" "bbr_frame b2 b3"
    "bbr_same_mode b2 b3"
    using bbr_updateModel_ok [OF b2(1) assms(2,3)] unfolding bbr_same_mode_def by blast
  have "bbr_frame b b3" using b1(2) b2(2) b3(3) bbr_frame_trans by blast
  moreover have "bbr_same_mode b b3" using b1(3) b2(3) b3(4) by (simp add: bbr_same_mode_def)
  ultimately show ?thesis using b3 by blast
qed

text \<open>The mode logic: the gain cycle, full bandwidth, DRAIN and PROBE_RTT.\<close>

lemma bbr_event_modes:
  assumes "bbr_weak b" "consts_ok K" "0 \<le> rnd"
    "b5 = (if rs \<and> \<not> bbr_isAtFullBandwidth b then bbr_checkIfFullBandwidthReached st b else b)"
  shows "\<exists>b6 b7. bbr_maybeExitStartupOrDrain K rtt rnd t b5 = Some b6 \<and>
    bbr_maybeEnterOrExitProbeRtt K rnd t rs ex b6 = Some b7 \<and> bbr_weak b7 \<and> bbr_frame b b7 \<and>
    (bbr_isAtFullBandwidth b \<longrightarrow> bbr_isAtFullBandwidth b7) \<and>
    bbr_mode_step (bbr_isAtFullBandwidth b7) (bbr_mode b) (bbr_mode b7)"
proof -
  have b5: "bbr_weak b5" "bbr_frame b b5" "bbr_mode b5 = bbr_mode b"
    "bbr_isAtFullBandwidth b \<longrightarrow> bbr_isAtFullBandwidth b5"
    using bbr_checkIfFullBandwidthReached_ok [OF assms(1) refl, of st] assms(1,4) by (simp_all split: if_splits)
  obtain b6 where b6: "bbr_maybeExitStartupOrDrain K rtt rnd t b5 = Some b6" "bbr_weak b6" "bbr_frame b5 b6"
    "bbr_isAtFullBandwidth b6 = bbr_isAtFullBandwidth b5"
    "bbr_mode b6 = bbr_mode b5 \<and> \<not> (bbr_mode b5 = bbrModeStartup \<and> bbr_isAtFullBandwidth b5) \<or>
     bbr_isAtFullBandwidth b5 \<and> bbr_mode b5 \<in> {bbrModeStartup, bbrModeDrain} \<and>
     bbr_mode b6 \<in> {bbrModeDrain, bbrModeProbeBw}"
    using bbr_maybeExitStartupOrDrain_ok [OF b5(1) assms(2,3), of rtt t] by blast
  obtain b7 where b7: "bbr_maybeEnterOrExitProbeRtt K rnd t rs ex b6 = Some b7" "bbr_weak b7" "bbr_frame b6 b7"
    "bbr_isAtFullBandwidth b7 = bbr_isAtFullBandwidth b6"
    "bbr_mode b7 =
      (if bbr_mode b6 = bbrModeProbeRtt
       then if bbr_exitProbeRttAt b6 \<noteq> 0 \<and> bbr_exitProbeRttAt b6 \<le> t \<and> (rs \<or> bbr_probeRttRoundPassed b6)
            then if bbr_isAtFullBandwidth b6 then bbrModeProbeBw else bbrModeStartup
            else bbrModeProbeRtt
       else if ex \<and> \<not> bbr_exitingQuiescence b6 then bbrModeProbeRtt else bbr_mode b6)"
    using bbr_maybeEnterOrExitProbeRtt_ok [OF b6(2) assms(2,3), of t rs ex] by blast
  have "bbr_mode_step (bbr_isAtFullBandwidth b7) (bbr_mode b) (bbr_mode b7)"
    using b5(3) b6(4,5) b7(4,5)
    by (cases "bbr_mode b"; cases "bbr_isAtFullBandwidth b5")
      (auto intro: bbr_mode_step_intros split: if_splits)
  with b5 b6 b7 bbr_frame_trans [OF b5(2) bbr_frame_trans [OF b6(3) b7(3)]] show ?thesis by auto
qed

text \<open>The end of the event: pacing rate, windows and the removal of obsolete packets.\<close>

lemma bbr_event_back:
  assumes "bbr_weak b" "in_i64 (MinRTT rtt)"
  shows "\<exists>b8 b9 s. bbr_calculatePacingRate rtt l b = Some b8 \<and>
    bbr_calculateCongestionWindow rtt n e b8 = Some b9 \<and>
    bs_RemoveObsoletePackets k (bbr_sampler (bbr_calculateRecoveryWindow n l b9)) = Some s \<and>
    bbr_frame b ((bbr_calculateRecoveryWindow n l b9)\<lparr>bbr_sampler := s\<rparr>) \<and>
    bbr_same_mode b ((bbr_calculateRecoveryWindow n l b9)\<lparr>bbr_sampler := s\<rparr>) \<and>
    bbr_weak ((bbr_calculateRecoveryWindow n l b9)\<lparr>bbr_sampler := s\<rparr>) \<and>
    (bbr_InRecovery b9 \<longrightarrow> bbr_minCongestionWindow b9 \<le> bbr_recoveryWindow (bbr_calculateRecoveryWindow n l b9)) \<and>
    bbr_InRecovery (bbr_calculateRecoveryWindow n l b9) = bbr_InRecovery b9 \<and>
    (\<forall>j<k. tracked s j = None)"
proof -
  obtain r where r: "bbr_calculatePacingRate rtt l b = Some (b\<lparr>bbr_pacingRate := r\<rparr>)"
    using bbr_calculatePacingRate_ok [OF assms] by blast
  let ?b8 = "b\<lparr>bbr_pacingRate := r\<rparr>"
  have b8: "bbr_weak ?b8" using assms(1) by (simp add: bbr_weak_defs)
  obtain w where w: "bbr_calculateCongestionWindow rtt n e ?b8 = Some (?b8\<lparr>bbr_congestionWindow := w\<rparr>)"
    "bbr_minCongestionWindow ?b8 \<le> w" "w \<le> bbr_maxCongestionWindow ?b8"
    using bbr_calculateCongestionWindow_ok [OF b8] by blast
  let ?b9 = "?b8\<lparr>bbr_congestionWindow := w\<rparr>"
  have b9: "bbr_weak ?b9" "bbr_frame b ?b9" "bbr_same_mode b ?b9"
    using assms(1) w by (simp_all add: bbr_weak_defs bbr_same_mode_def)
  let ?c = "bbr_calculateRecoveryWindow n l ?b9"
  have c: "bbr_weak ?c" "bbr_frame ?b9 ?c" "bbr_same_mode ?b9 ?c"
    "bbr_InRecovery ?c \<longrightarrow> bbr_minCongestionWindow ?c \<le> bbr_recoveryWindow ?c"
    using bbr_calculateRecoveryWindow_ok [OF b9(1) refl, of n l] by simp_all
  have "bs_ok (bbr_sampler ?c)" using c(1) by (simp add: bbr_weak_def)
  from bs_step_ok [OF this, of "EvObsolete k"] obtain s where
    s: "bs_RemoveObsoletePackets k (bbr_sampler ?c) = Some s" "bs_ok s"
       "lastSentPacket s = lastSentPacket (bbr_sampler ?c)" by auto
  have gone: "\<forall>j<k. tracked s j = None"
    using bs_RemoveObsoletePackets_ok [of "bbr_sampler ?c" k] s(1) \<open>bs_ok (bbr_sampler ?c)\<close>
    by (auto simp: bs_ok_def tracked_def)
  have "bbr_weak (?c\<lparr>bbr_sampler := s\<rparr>)" using c(1) s by (simp add: bbr_weak_defs)
  moreover have "bbr_InRecovery ?c = bbr_InRecovery ?b9"
    by (simp add: bbr_calculateRecoveryWindow_def bbr_InRecovery_def)
  ultimately show ?thesis
    using r w(1) s(1) b9(2,3) c gone by (auto simp: bbr_frame_def bbr_same_mode_def)
qed


lemma bbr_event_ok:
  assumes "bbr_inv b" "consts_ok K" "0 \<le> rnd" "in_i64 (MinRTT rtt)" "acked \<noteq> [] \<or> lost \<noteq> []"
    "\<forall>p\<in>set acked. in_i64 (acked_PacketNumber p)" "\<forall>p\<in>set lost. in_i64 (lost_PacketNumber p)"
  shows "\<exists>b'. bbr_OnCongestionEventEx K rtt rnd n t acked lost b = Some b' \<and> bbr_inv b' \<and> bbr_frame b b' \<and>
    (bbr_isAtFullBandwidth b \<longrightarrow> bbr_isAtFullBandwidth b') \<and>
    bbr_mode_step (bbr_isAtFullBandwidth b') (bbr_mode b) (bbr_mode b') \<and>
    (\<forall>k j. bbr_leastUnacked acked lost = Some k \<longrightarrow> j < k \<longrightarrow> tracked (bbr_sampler b') j = None)"
proof -
  have w: "bbr_weak b" using assms(1) by (simp add: bbr_inv_def)
  obtain rs b2 where ack: "bbr_onAckedPackets acked lost ((bbr_maybeApplimited n b)
      \<lparr>bbr_bytesInFlight := bbr_inFlightAfter n acked lost\<rparr>) = (rs, b2)"
    by (cases "bbr_onAckedPackets acked lost ((bbr_maybeApplimited n b)
      \<lparr>bbr_bytesInFlight := bbr_inFlightAfter n acked lost\<rparr>)")
  obtain smp e b3 where b3: "bbr_updateModel t acked lost b2 = Some (smp, e, b3)" "bbr_weak b3" "bbr_frame b b3"
    "bbr_same_mode b b3" using bbr_event_front [OF w assms(6,7) ack] by blast
  define l where "l = i64 (totalBytesLost (bbr_sampler b3) - totalBytesLost (bbr_sampler b))"
  define b4 where "b4 = bbr_countLosses lost l b3"
  have b4: "bbr_weak b4" "bbr_frame b b4" "bbr_same_mode b b4"
    using b3 by (simp_all add: b4_def bbr_countLosses_def bbr_same_mode_def)
  obtain b5 where b5: "(if bbr_mode b4 = bbrModeProbeBw
      then bbr_updateGainCyclePhase rtt t n (lost \<noteq> []) b4 else Some b4) = Some b5"
    "bbr_weak b5" "bbr_frame b4 b5" "bbr_same_mode b4 b5"
    using bbr_updateGainCyclePhase_ok [OF b4(1), of rtt t n "lost \<noteq> []"] b4(1)
    unfolding bbr_same_mode_def by (cases "bbr_mode b4 = bbrModeProbeBw") auto
  define b6 where "b6 = (if rs \<and> \<not> bbr_isAtFullBandwidth b5
    then bbr_checkIfFullBandwidthReached (lastPacketSendState smp) b5 else b5)"
  obtain b7 b8 where b8: "bbr_maybeExitStartupOrDrain K rtt rnd t b6 = Some b7"
    "bbr_maybeEnterOrExitProbeRtt K rnd t rs e b7 = Some b8" "bbr_weak b8" "bbr_frame b5 b8"
    "bbr_isAtFullBandwidth b5 \<longrightarrow> bbr_isAtFullBandwidth b8"
    "bbr_mode_step (bbr_isAtFullBandwidth b8) (bbr_mode b5) (bbr_mode b8)"
    using bbr_event_modes [OF b5(2) assms(2,3) b6_def, of rtt t e] by blast
  define a where "a = i64 (totalBytesAcked (bbr_sampler b8) - totalBytesAcked (bbr_sampler b))"
  obtain k where k: "bbr_leastUnacked acked lost = Some k" using bbr_leastUnacked_Some [OF assms(5)] by blast
  from bbr_event_back [OF b8(3) assms(4), of l a "extraAcked smp" k] obtain b9 b10 s where
    b10: "bbr_calculatePacingRate rtt l b8 = Some b9"
      "bbr_calculateCongestionWindow rtt a (extraAcked smp) b9 = Some b10"
      "bs_RemoveObsoletePackets k (bbr_sampler (bbr_calculateRecoveryWindow a l b10)) = Some s"
    and c: "bbr_frame b8 ((bbr_calculateRecoveryWindow a l b10)\<lparr>bbr_sampler := s\<rparr>)"
      "bbr_same_mode b8 ((bbr_calculateRecoveryWindow a l b10)\<lparr>bbr_sampler := s\<rparr>)"
      "bbr_weak ((bbr_calculateRecoveryWindow a l b10)\<lparr>bbr_sampler := s\<rparr>)"
      "bbr_InRecovery ((bbr_calculateRecoveryWindow a l b10)\<lparr>bbr_sampler := s\<rparr>) \<longrightarrow>
         bbr_minCongestionWindow ((bbr_calculateRecoveryWindow a l b10)\<lparr>bbr_sampler := s\<rparr>) \<le>
         bbr_recoveryWindow ((bbr_calculateRecoveryWindow a l b10)\<lparr>bbr_sampler := s\<rparr>)"
    and gone: "\<forall>j<k. tracked s j = None"
    by (auto simp: bbr_InRecovery_def bbr_calculateRecoveryWindow_def)
  define c' where "c' = (bbr_calculateRecoveryWindow a l b10)\<lparr>bbr_sampler := s\<rparr>"
  define d where "d = bbr_endRound rs c'"
  have ev: "bbr_OnCongestionEventEx K rtt rnd n t acked lost b = Some d"
    using ack b3(1) b5(1) b8(1,2) k b10
    by (simp add: bbr_OnCongestionEventEx_def Let_def l_def [symmetric] b4_def [symmetric]
        b6_def [symmetric] a_def [symmetric] c'_def [symmetric] d_def split del: if_split cong del: if_weak_cong)
  have d: "bbr_weak d" "bbr_frame b8 d" "bbr_same_mode b8 d"
    "bbr_InRecovery d \<longrightarrow> bbr_minCongestionWindow d \<le> bbr_recoveryWindow d"
    using c unfolding c'_def [symmetric] d_def
    by (simp_all add: bbr_endRound_def bbr_same_mode_def bbr_InRecovery_def)
  have modes: "bbr_mode_step (bbr_isAtFullBandwidth d) (bbr_mode b) (bbr_mode d)"
    "bbr_isAtFullBandwidth b \<longrightarrow> bbr_isAtFullBandwidth d"
    using b4(3) b5(4) b8(5,6) d(3) by (auto simp: bbr_same_mode_def)
  have "bbr_frame b d" using b4(2) b5(3) b8(4) d(2) bbr_frame_trans by blast
  moreover have "bbr_mode d = bbrModeStartup \<longrightarrow> \<not> bbr_isAtFullBandwidth d"
    using modes(1) by (auto elim: bbr_mode_step_to_startupE)
  moreover have "bbr_sampler d = s" by (simp add: d_def c'_def bbr_endRound_def)
  ultimately show ?thesis using ev d modes gone k by (auto simp: bbr_inv_def)
qed

end
