(* ===== verification/BbrRuns.thy ===== *)
theory BbrRuns
  imports BbrInvariant
begin

text \<open>
  The BBR sender over whole connections: the constructor establishes \<open>bbr_inv\<close>, every call of the
  congestion-control interface keeps it (\<open>bbr_run\<close>), the pacer runs at twice the bandwidth estimate,
  and the sender implements \<open>send_algorithm\<close>.
\<close>

subsection \<open>Construction and sending\<close>

lemma newBbrSender_inv:
  assumes "consts_ok K" "4 * InitialPacketSizeIPv4 K \<le> cwnd" "cwnd \<le> maxCwnd"
  shows "bbr_inv (bbr_SetRTTStatsProvider (newBbrSender K mds cwnd maxCwnd))"
  using assms
  by (simp add: bbr_inv_def bbr_weak_def bbr_SetRTTStatsProvider_def newBbrSender_def bbrSender_init_def
      bbr_enterStartupMode_def bbr_setHighCwndGain_def Let_def derivedHighCWNDGain_def bbr_InRecovery_def
      defaultMinimumCongestionWindow_def consts_ok_def NewWindowedFilter_def)
    (simp add: newBandwidthSampler_def)

lemma NewBbrSender_inv:
  assumes "consts_ok K" "InitialPacketSizeIPv4 K \<le> 8 * mds" "mds < 2 ^ 16"
  shows "bbr_inv (bbr_SetRTTStatsProvider (NewBbrSender K mds))"
proof -
  have K: "1 \<le> InitialPacketSizeIPv4 K" "32 \<le> MaxCongestionWindowPackets K" "MaxCongestionWindowPackets K < 2 ^ 20"
    using assms(1) by (simp_all add: consts_ok_def)
  have mds: "1 \<le> mds" using K assms(2) by linarith
  have "MaxCongestionWindowPackets K * mds \<le> 2 ^ 20 * 2 ^ 16" using K mds assms(3) by (intro mult_mono) auto
  moreover have m: "32 * mds \<le> MaxCongestionWindowPackets K * mds" using K mds by (intro mult_right_mono) auto
  ultimately have "i64 (MaxCongestionWindowPackets K * mds) = MaxCongestionWindowPackets K * mds"
    using mds by (intro i64_id_le [of _ "2 ^ 20 * 2 ^ 16"]) simp_all
  moreover have "i64 (32 * mds) = 32 * mds" using mds assms(3) by simp
  ultimately show ?thesis
    using assms m by (simp add: NewBbrSender_def initialCongestionWindowPackets_def newBbrSender_inv)
qed

lemma bbr_OnPacketSent_ok:
  assumes "bbr_inv b" "valid_pn n" "bbr_lastSentPacket b < n"
  shows "\<exists>b'. bbr_OnPacketSent K t infl n bytes rt b = Some b' \<and> bbr_inv b' \<and> bbr_lastSentPacket b' = n \<and>
    bbr_bytesInFlight b' = infl \<and> bbr_GetCongestionWindow b' = bbr_GetCongestionWindow b"
proof -
  let ?s = "bbr_sampler b"
  have s: "bs_ok ?s" "lastSentPacket ?s = bbr_lastSentPacket b" using assms(1) by (simp_all add: bbr_inv_def bbr_weak_def)
  have "ev_ok (lastSentPacket ?s) (EvSent t n bytes infl rt)" using s assms by simp
  from bs_step_ok [OF s(1) this] obtain s' where
    s': "bs_OnPacketSent t n bytes infl rt ?s = Some s'" "bs_ok s'" "lastSentPacket s' = n" by auto
  let ?p = "pacer_SentPacket K (bbr_bandwidthForPacer b) t bytes (bbr_pacer b)"
  have "bbr_OnPacketSent K t infl n bytes rt b =
      Some (b\<lparr>bbr_pacer := ?p, bbr_lastSentPacket := n, bbr_bytesInFlight := infl,
              bbr_exitingQuiescence := infl = 0 \<or> bbr_exitingQuiescence b, bbr_sampler := s'\<rparr>)"
    using s'(1) by (cases "infl = 0") (simp_all add: bbr_OnPacketSent_def Let_def)
  with s' assms(1) show ?thesis
    by (simp add: bbr_inv_def bbr_weak_def bbr_InRecovery_def bbr_GetCongestionWindow_def
        bbr_probeRttCongestionWindow_def)
qed

lemma bbr_SetMaxDatagramSize_ok:
  "bbr_SetMaxDatagramSize s b =
     (if s < bbr_maxDatagramSize b then None
      else Some (b\<lparr>bbr_maxDatagramSize := s, bbr_pacer := pacer_SetMaxDatagramSize s (bbr_pacer b)\<rparr>))"
  by (simp add: bbr_SetMaxDatagramSize_def Let_def)

subsection \<open>Runs\<close>

datatype bbr_call =
    CallSent time byteCount packetNumber byteCount bool
  | CallEvent RTTStats int byteCount time "AckedPacketInfo list" "LostPacketInfo list"
  | CallSetMax byteCount

fun bbr_step :: "congestion_consts \<Rightarrow> bbr_call \<Rightarrow> bbrSender \<Rightarrow> bbrSender option" where
  "bbr_step K (CallSent t infl n bytes rt) b = bbr_OnPacketSent K t infl n bytes rt b"
| "bbr_step K (CallEvent rtt rnd prior t acked lost) b =
     bbr_OnCongestionEventEx K rtt rnd prior t acked lost b"
| "bbr_step K (CallSetMax s) b = bbr_SetMaxDatagramSize s b"

fun bbr_run :: "congestion_consts \<Rightarrow> bbr_call list \<Rightarrow> bbrSender \<Rightarrow> bbrSender option" where
  "bbr_run K [] b = Some b"
| "bbr_run K (c # cs) b = Option.bind (bbr_step K c b) (bbr_run K cs)"

text \<open>
  The calls quic-go makes: packet numbers increase, a congestion event reports a packet, the maximal
  datagram size does not shrink.
\<close>

fun call_ok :: "packetNumber \<Rightarrow> byteCount \<Rightarrow> bbr_call \<Rightarrow> bool" where
  "call_ok n s (CallSent t infl m bytes rt) \<longleftrightarrow> n < m \<and> valid_pn m"
| "call_ok n s (CallEvent rtt rnd prior t acked lost) \<longleftrightarrow>
     0 \<le> rnd \<and> in_i64 (MinRTT rtt) \<and> (acked \<noteq> [] \<or> lost \<noteq> []) \<and>
     (\<forall>p\<in>set acked. in_i64 (acked_PacketNumber p)) \<and> (\<forall>p\<in>set lost. in_i64 (lost_PacketNumber p))"
| "call_ok n s (CallSetMax s') \<longleftrightarrow> s \<le> s'"

fun calls_ok :: "packetNumber \<Rightarrow> byteCount \<Rightarrow> bbr_call list \<Rightarrow> bool" where
  "calls_ok n s [] \<longleftrightarrow> True"
| "calls_ok n s (c # cs) \<longleftrightarrow> call_ok n s c \<and>
     calls_ok (case c of CallSent t infl m bytes rt \<Rightarrow> m | _ \<Rightarrow> n) (case c of CallSetMax s' \<Rightarrow> s' | _ \<Rightarrow> s) cs"

lemma bbr_step_ok:
  assumes "consts_ok K" "bbr_inv b" "call_ok (bbr_lastSentPacket b) (bbr_maxDatagramSize b) c"
  shows "\<exists>b'. bbr_step K c b = Some b' \<and> bbr_inv b' \<and>
    bbr_minCongestionWindow b' = bbr_minCongestionWindow b \<and>
    bbr_maxCongestionWindow b' = bbr_maxCongestionWindow b \<and>
    (bbr_isAtFullBandwidth b \<longrightarrow> bbr_isAtFullBandwidth b') \<and>
    bbr_lastSentPacket b' = (case c of CallSent t infl m bytes rt \<Rightarrow> m | _ \<Rightarrow> bbr_lastSentPacket b) \<and>
    bbr_maxDatagramSize b' = (case c of CallSetMax s \<Rightarrow> s | _ \<Rightarrow> bbr_maxDatagramSize b)"
proof (cases c)
  case (CallSent t infl n bytes rt)
  with assms(3) have "valid_pn n" "bbr_lastSentPacket b < n" by simp_all
  from bbr_OnPacketSent_ok [OF assms(2) this] obtain b' where
    b': "bbr_OnPacketSent K t infl n bytes rt b = Some b'" "bbr_inv b'" "bbr_lastSentPacket b' = n" by blast
  have "bbr_minCongestionWindow b' = bbr_minCongestionWindow b \<and>
    bbr_maxCongestionWindow b' = bbr_maxCongestionWindow b \<and>
    bbr_isAtFullBandwidth b' = bbr_isAtFullBandwidth b \<and> bbr_maxDatagramSize b' = bbr_maxDatagramSize b"
    using b'(1) by (auto simp: bbr_OnPacketSent_def Let_def elim!: bind_eq_SomeE split: if_splits)
  with CallSent b' show ?thesis by simp
next
  case (CallEvent rtt rnd prior t acked lost)
  with assms(3) have "0 \<le> rnd" "in_i64 (MinRTT rtt)" "acked \<noteq> [] \<or> lost \<noteq> []"
    "\<forall>p\<in>set acked. in_i64 (acked_PacketNumber p)" "\<forall>p\<in>set lost. in_i64 (lost_PacketNumber p)" by simp_all
  from bbr_event_ok [OF assms(2,1) this, of prior t] obtain b' where
    "bbr_OnCongestionEventEx K rtt rnd prior t acked lost b = Some b'" "bbr_inv b'" "bbr_frame b b'"
    "bbr_isAtFullBandwidth b \<longrightarrow> bbr_isAtFullBandwidth b'" by blast
  with CallEvent show ?thesis by (simp add: bbr_frame_def)
next
  case (CallSetMax s)
  with assms show ?thesis
    by (simp add: bbr_SetMaxDatagramSize_ok bbr_inv_def bbr_weak_def bbr_InRecovery_def)
qed

lemma bbr_run_ok:
  assumes "consts_ok K"
  shows "bbr_inv b \<Longrightarrow> calls_ok (bbr_lastSentPacket b) (bbr_maxDatagramSize b) cs \<Longrightarrow>
    \<exists>b'. bbr_run K cs b = Some b' \<and> bbr_inv b' \<and>
      bbr_minCongestionWindow b' = bbr_minCongestionWindow b \<and>
      bbr_maxCongestionWindow b' = bbr_maxCongestionWindow b \<and>
      (bbr_isAtFullBandwidth b \<longrightarrow> bbr_isAtFullBandwidth b')"
proof (induction cs arbitrary: b)
  case (Cons c cs)
  have c: "call_ok (bbr_lastSentPacket b) (bbr_maxDatagramSize b) c" using Cons.prems by simp
  obtain b1 where b1: "bbr_step K c b = Some b1" "bbr_inv b1"
    "bbr_minCongestionWindow b1 = bbr_minCongestionWindow b"
    "bbr_maxCongestionWindow b1 = bbr_maxCongestionWindow b"
    "bbr_isAtFullBandwidth b \<longrightarrow> bbr_isAtFullBandwidth b1"
    "bbr_lastSentPacket b1 = (case c of CallSent t infl m bytes rt \<Rightarrow> m | _ \<Rightarrow> bbr_lastSentPacket b)"
    "bbr_maxDatagramSize b1 = (case c of CallSetMax s \<Rightarrow> s | _ \<Rightarrow> bbr_maxDatagramSize b)"
    using bbr_step_ok [OF assms Cons.prems(1) c] by blast
  have "calls_ok (bbr_lastSentPacket b1) (bbr_maxDatagramSize b1) cs"
    using Cons.prems(2) by (simp add: b1(6,7))
  from Cons.IH [OF b1(2) this] b1(1,3-5) show ?case by auto
qed simp

subsection \<open>Windows and pacing\<close>

lemma bbr_window_bounds:
  assumes "bbr_inv b"
  shows "0 < bbr_minCongestionWindow b" "bbr_minCongestionWindow b \<le> bbr_GetCongestionWindow b"
    "bbr_GetCongestionWindow b \<le> bbr_maxCongestionWindow b"
  using assms by (auto simp: bbr_inv_def bbr_weak_def bbr_GetCongestionWindow_def bbr_probeRttCongestionWindow_def)

lemma fl64_quarter:
  assumes "0 \<le> n" "n \<le> 2 ^ 53"
  shows "fl64 (of_int n / 4) = of_int n / 4"
proof -
  have "fl64 (of_int n * 2 powi (- 2)) = fl64 (of_int n) * 2 powi (- 2)" by (rule fl_scale)
  moreover have "(2 powi (- 2) :: rat) = 1 / 4" by (simp add: power_int_def power2_eq_square)
  ultimately show ?thesis using assms by (simp add: fl_of_int)
qed

text \<open>The pacer runs at twice the estimate (which is in bits per second), whatever the mode and the pacing gain.\<close>

lemma bbr_bandwidthForPacer_eq:
  assumes "bbr_inv b" "0 \<le> bbr_bandwidthEstimate b" "bbr_bandwidthEstimate b \<le> 2 ^ 51"
  shows "bbr_bandwidthForPacer b = max minBps (bbr_bandwidthEstimate b div 4)"
proof -
  let ?e = "bbr_bandwidthEstimate b"
  have g: "bbr_congestionWindowGain b = 2" using assms(1) by (simp add: bbr_inv_def bbr_weak_def)
  have "fl64 (of_int (?e * 2)) = of_int (?e * 2)" using assms(2,3) by (intro fl_of_int) simp_all
  then have m: "f64_mul (f64_of_int ?e) 2 = of_int ?e * 2"
    using assms(2,3) by (simp add: f64_mul_def f64_of_int_exact)
  have q: "f64_div (of_int ?e * 2) (f64_of_int BytesPerSecond) = of_int ?e / 4"
    using fl64_quarter [of ?e] assms(2,3)
    by (simp add: f64_div_def BytesPerSecond_def f64_of_int_exact)
  have "rat_trunc (of_int ?e / 4) = ?e div 4"
    using assms(2) floor_divide_of_int_eq [of ?e 4, where ?'a = rat] by (simp add: rat_trunc_def)
  moreover have "0 \<le> ?e div 4" "?e div 4 \<le> 2 ^ 51"
    using assms(2,3) zdiv_mono2 [of ?e 1 4] by (simp_all add: pos_imp_zdiv_nonneg_iff)
  ultimately have "f64_to_i64 (f64_div (f64_mul (f64_of_int ?e) 2) (f64_of_int BytesPerSecond)) = ?e div 4"
    unfolding m q by (simp add: f64_to_i64_def)
  then show ?thesis by (simp add: bbr_bandwidthForPacer_def g Let_def max_def)
qed

text \<open>The states in which the pacer computes without overflow.\<close>

definition bbr_paced :: "congestion_consts \<Rightarrow> bbrSender \<Rightarrow> bool" where
  "bbr_paced K b \<longleftrightarrow>
     consts_ok K \<and> bbr_inv b \<and> pacer_ok (bbr_bandwidthForPacer b) (bbr_pacer b) \<and>
     budgetAtLastSent (bbr_pacer b) < 2 ^ 61 \<and> bbr_maxDatagramSize b \<le> p_maxDatagramSize (bbr_pacer b)"

interpretation bbr_sender: send_algorithm "bbr_paced K" bbr_GetCongestionWindow bbr_CanSend
  "bbr_TimeUntilSend K" "bbr_HasPacingBudget K"
  "\<lambda>now b. pacer_calm (bbr_bandwidthForPacer b) now (bbr_pacer b)" for K
proof unfold_locales
  show "bbr_CanSend n s = (n < bbr_GetCongestionWindow s)" for n s by (simp add: bbr_CanSend_def)
  show "0 < bbr_GetCongestionWindow s" if "bbr_paced K s" for s
    using that bbr_window_bounds [of s] by (auto simp: bbr_paced_def)
  show "bbr_HasPacingBudget K now s" if "bbr_paced K s"
    "pacer_calm (bbr_bandwidthForPacer s) now (bbr_pacer s)" "bbr_TimeUntilSend K s \<le> now" for s now
    using that pacer_ready_after [of K "bbr_bandwidthForPacer s" "bbr_pacer s" now]
    by (auto simp: bbr_paced_def bbr_HasPacingBudget_def bbr_TimeUntilSend_def)
qed

subsection \<open>The pacer over a run\<close>

definition bbr_pacer_ok :: "bbrSender \<Rightarrow> bool" where
  "bbr_pacer_ok b \<longleftrightarrow>
     0 < p_maxDatagramSize (bbr_pacer b) \<and> p_maxDatagramSize (bbr_pacer b) < 2 ^ 16 \<and>
     0 \<le> budgetAtLastSent (bbr_pacer b) \<and> budgetAtLastSent (bbr_pacer b) < 2 ^ 61 \<and>
     0 \<le> p_lastSentTime (bbr_pacer b) \<and> bbr_maxDatagramSize b \<le> p_maxDatagramSize (bbr_pacer b)"

fun call_paced :: "bbr_call \<Rightarrow> bool" where
  "call_paced (CallSent t infl n bytes rt) \<longleftrightarrow> 0 \<le> t \<and> 0 \<le> bytes"
| "call_paced (CallEvent rtt rnd prior t acked lost) \<longleftrightarrow> True"
| "call_paced (CallSetMax s) \<longleftrightarrow> 0 < s \<and> s < 2 ^ 16"

lemma bbr_OnPacketSent_pacer:
  assumes "bbr_OnPacketSent K t infl n bytes rt b = Some b'"
  shows "bbr_pacer b' = pacer_SentPacket K (bbr_bandwidthForPacer b) t bytes (bbr_pacer b)"
    "bbr_maxDatagramSize b' = bbr_maxDatagramSize b"
  using assms by (auto simp: bbr_OnPacketSent_def Let_def elim!: bind_eq_SomeE split: if_splits)

lemma bbr_step_pacer:
  assumes "consts_ok K" "bbr_inv b" "call_ok (bbr_lastSentPacket b) (bbr_maxDatagramSize b) c"
    and "call_paced c" "bbr_pacer_ok b" "bbr_step K c b = Some b'"
  shows "bbr_pacer_ok b'"
proof (cases c)
  case (CallSent t infl n bytes rt)
  with assms(6) bbr_OnPacketSent_pacer [of K t infl n bytes rt b b'] assms(4,5)
    pacer_SentPacket_range [of "bbr_pacer b" bytes K "bbr_bandwidthForPacer b" t]
  show ?thesis by (simp add: bbr_pacer_ok_def)
next
  case (CallEvent rtt rnd prior t acked lost)
  with assms(3) have "0 \<le> rnd" "in_i64 (MinRTT rtt)" "acked \<noteq> [] \<or> lost \<noteq> []"
    "\<forall>p\<in>set acked. in_i64 (acked_PacketNumber p)" "\<forall>p\<in>set lost. in_i64 (lost_PacketNumber p)" by simp_all
  from bbr_event_ok [OF assms(2,1) this, of prior t] CallEvent assms(6) have "bbr_frame b b'" by auto
  with assms(5) show ?thesis by (simp add: bbr_pacer_ok_def bbr_frame_def)
next
  case (CallSetMax s)
  with assms(4-6) show ?thesis
    by (auto simp: bbr_SetMaxDatagramSize_ok bbr_pacer_ok_def pacer_SetMaxDatagramSize_def split: if_splits)
qed

lemma bbr_run_pacer:
  assumes "consts_ok K"
  shows "bbr_inv b \<Longrightarrow> calls_ok (bbr_lastSentPacket b) (bbr_maxDatagramSize b) cs \<Longrightarrow> list_all call_paced cs \<Longrightarrow>
    bbr_pacer_ok b \<Longrightarrow> bbr_run K cs b = Some b' \<Longrightarrow> bbr_inv b' \<and> bbr_pacer_ok b'"
proof (induction cs arbitrary: b)
  case (Cons c cs)
  have c: "call_ok (bbr_lastSentPacket b) (bbr_maxDatagramSize b) c" using Cons.prems(2) by simp
  obtain b1 where b1: "bbr_step K c b = Some b1" "bbr_inv b1"
    "bbr_lastSentPacket b1 = (case c of CallSent t infl m bytes rt \<Rightarrow> m | _ \<Rightarrow> bbr_lastSentPacket b)"
    "bbr_maxDatagramSize b1 = (case c of CallSetMax s \<Rightarrow> s | _ \<Rightarrow> bbr_maxDatagramSize b)"
    using bbr_step_ok [OF assms Cons.prems(1) c] by blast
  have "bbr_pacer_ok b1" using bbr_step_pacer [OF assms Cons.prems(1) c _ Cons.prems(4) b1(1)] Cons.prems(3) by simp
  moreover have "calls_ok (bbr_lastSentPacket b1) (bbr_maxDatagramSize b1) cs"
    using Cons.prems(2) by (simp add: b1(3,4))
  ultimately show ?case using Cons.IH [OF b1(2)] Cons.prems(3,5) b1(1) by simp
qed simp

lemma bbr_paced_intro:
  assumes "consts_ok K" "bbr_inv b" "bbr_pacer_ok b" "bbr_bandwidthForPacer b \<le> 2 ^ 40"
  shows "bbr_paced K b"
proof -
  have "0 < bbr_bandwidthForPacer b" by (simp add: bbr_bandwidthForPacer_def minBps_def Let_def)
  with assms show ?thesis by (simp add: bbr_paced_def bbr_pacer_ok_def pacer_ok_def)
qed

subsection \<open>Properties\<close>

lemma NewBbrSender_start:
  assumes "consts_ok K" "0 \<le> mds" "mds < 2 ^ 16"
  shows "bbr_lastSentPacket (bbr_SetRTTStatsProvider (NewBbrSender K mds)) = - 1"
    "bbr_maxDatagramSize (bbr_SetRTTStatsProvider (NewBbrSender K mds)) = mds"
    "bbr_minCongestionWindow (bbr_SetRTTStatsProvider (NewBbrSender K mds)) = 4 * InitialPacketSizeIPv4 K"
    "bbr_maxCongestionWindow (bbr_SetRTTStatsProvider (NewBbrSender K mds)) = MaxCongestionWindowPackets K * mds"
proof -
  have "MaxCongestionWindowPackets K * mds \<le> 2 ^ 20 * 2 ^ 16"
    using assms by (intro mult_mono) (auto simp: consts_ok_def)
  then have "i64 (MaxCongestionWindowPackets K * mds) = MaxCongestionWindowPackets K * mds"
    using assms by (intro i64_id_le [of _ "2 ^ 20 * 2 ^ 16"]) (simp_all add: consts_ok_def)
  then show "bbr_lastSentPacket (bbr_SetRTTStatsProvider (NewBbrSender K mds)) = - 1"
    "bbr_maxDatagramSize (bbr_SetRTTStatsProvider (NewBbrSender K mds)) = mds"
    "bbr_minCongestionWindow (bbr_SetRTTStatsProvider (NewBbrSender K mds)) = 4 * InitialPacketSizeIPv4 K"
    "bbr_maxCongestionWindow (bbr_SetRTTStatsProvider (NewBbrSender K mds)) = MaxCongestionWindowPackets K * mds"
    by (simp_all add: bbr_SetRTTStatsProvider_def NewBbrSender_def newBbrSender_def bbrSender_init_def
        bbr_enterStartupMode_def bbr_setHighCwndGain_def Let_def invalidPacketNumber_def
        defaultMinimumCongestionWindow_def)
qed

text \<open>
  C1: safety of a whole connection: from the constructor, under every sequence of sent packets with
  increasing numbers, congestion events that report a packet, and growing datagram sizes, no call panics, the
  congestion window stays between four initial packets and the maximal number of packets, and an
  idle connection may always send.
\<close>

theorem bbr_connection_safe:
  assumes "consts_ok K" "InitialPacketSizeIPv4 K \<le> 8 * mds" "mds < 2 ^ 16" "calls_ok (- 1) mds cs"
  shows "\<exists>b. bbr_run K cs (bbr_SetRTTStatsProvider (NewBbrSender K mds)) = Some b \<and>
    4 * InitialPacketSizeIPv4 K \<le> bbr_GetCongestionWindow b \<and>
    bbr_GetCongestionWindow b \<le> MaxCongestionWindowPackets K * mds \<and> bbr_CanSend 0 b"
proof -
  let ?b = "bbr_SetRTTStatsProvider (NewBbrSender K mds)"
  have mds: "0 \<le> mds" using assms(1,2) by (simp add: consts_ok_def)
  note st = NewBbrSender_start [OF assms(1) mds assms(3)]
  have "calls_ok (bbr_lastSentPacket ?b) (bbr_maxDatagramSize ?b) cs" using st assms(4) by simp
  from bbr_run_ok [OF assms(1) NewBbrSender_inv [OF assms(1-3)] this] obtain b where
    "bbr_run K cs ?b = Some b" "bbr_inv b" "bbr_minCongestionWindow b = 4 * InitialPacketSizeIPv4 K"
    "bbr_maxCongestionWindow b = MaxCongestionWindowPackets K * mds"
    unfolding st(3,4) by blast
  with bbr_window_bounds [of b] show ?thesis by (auto simp: bbr_CanSend_def)
qed

lemma bbr_connection_safe_witness:
  "\<exists>b. bbr_run quic_go_consts [CallSent 5000000 0 0 1252 True, CallSent 6000000 1252 1 1252 True,
       CallEvent \<lparr>MinRTT = 30000000, SmoothedRTT = 31000000\<rparr> 12345 2504 36000000
         [\<lparr>acked_PacketNumber = 1, BytesAcked = 1252\<rparr>] [\<lparr>lost_PacketNumber = 0, BytesLost = 1252\<rparr>],
       CallSetMax 1400]
      (bbr_SetRTTStatsProvider (NewBbrSender quic_go_consts 1252)) = Some b \<and>
    4 * InitialPacketSizeIPv4 quic_go_consts \<le> bbr_GetCongestionWindow b \<and>
    bbr_GetCongestionWindow b \<le> MaxCongestionWindowPackets quic_go_consts * 1252 \<and> bbr_CanSend 0 b"
  by (rule bbr_connection_safe) (simp_all add: quic_go_consts_def [THEN arg_cong [of _ _ InitialPacketSizeIPv4]] valid_pn_def)

text \<open>
  C2: the mode machine: in one congestion event of a sender that satisfies its invariant, the mode
  moves along the edges STARTUP, DRAIN, PROBE\_BW, any mode to PROBE\_RTT and back only (\<open>bbr_mode_step\<close>);
  the mark of full bandwidth is never cleared, and a sender in STARTUP after the event does not carry it.
\<close>

theorem bbr_event_modes_ok:
  assumes "bbr_inv b" "consts_ok K" "call_ok (bbr_lastSentPacket b) (bbr_maxDatagramSize b) (CallEvent rtt rnd n t acked lost)"
  shows "\<exists>b'. bbr_OnCongestionEventEx K rtt rnd n t acked lost b = Some b' \<and>
    bbr_mode_step (bbr_isAtFullBandwidth b') (bbr_mode b) (bbr_mode b') \<and>
    (bbr_isAtFullBandwidth b \<longrightarrow> bbr_isAtFullBandwidth b') \<and>
    (bbr_InSlowStart b' \<longrightarrow> \<not> bbr_isAtFullBandwidth b')"
proof -
  have "0 \<le> rnd" "in_i64 (MinRTT rtt)" "acked \<noteq> [] \<or> lost \<noteq> []"
    "\<forall>p\<in>set acked. in_i64 (acked_PacketNumber p)" "\<forall>p\<in>set lost. in_i64 (lost_PacketNumber p)"
    using assms(3) by simp_all
  from bbr_event_ok [OF assms(1,2) this, of n t] show ?thesis
    unfolding bbr_inv_def bbr_InSlowStart_def by blast
qed

lemma bbr_event_modes_ok_witness:
  "\<exists>b'. bbr_OnCongestionEventEx quic_go_consts \<lparr>MinRTT = 30000000, SmoothedRTT = 31000000\<rparr> 12345 2504 36000000
       [\<lparr>acked_PacketNumber = 1, BytesAcked = 1252\<rparr>] [\<lparr>lost_PacketNumber = 0, BytesLost = 1252\<rparr>]
       (bbr_SetRTTStatsProvider (NewBbrSender quic_go_consts 1252)) = Some b' \<and>
    bbr_mode_step (bbr_isAtFullBandwidth b')
      (bbr_mode (bbr_SetRTTStatsProvider (NewBbrSender quic_go_consts 1252))) (bbr_mode b') \<and>
    (bbr_isAtFullBandwidth (bbr_SetRTTStatsProvider (NewBbrSender quic_go_consts 1252)) \<longrightarrow> bbr_isAtFullBandwidth b') \<and>
    (bbr_InSlowStart b' \<longrightarrow> \<not> bbr_isAtFullBandwidth b')"
proof (rule bbr_event_modes_ok)
  show "bbr_inv (bbr_SetRTTStatsProvider (NewBbrSender quic_go_consts 1252))"
    by (rule NewBbrSender_inv) (simp_all add: quic_go_consts_def [THEN arg_cong [of _ _ InitialPacketSizeIPv4]])
qed simp_all

text \<open>
  C30: after a congestion event the sampler has forgotten every packet more than two below the last
  acknowledged one, so the state kept per packet is bounded by the packets in flight.
\<close>

theorem bbr_event_forgets:
  assumes "bbr_inv b" "consts_ok K" "call_ok (bbr_lastSentPacket b) (bbr_maxDatagramSize b) (CallEvent rtt rnd n t acked lost)"
    "acked \<noteq> []" "0 \<le> acked_PacketNumber (last acked)"
  shows "\<exists>b'. bbr_OnCongestionEventEx K rtt rnd n t acked lost b = Some b' \<and>
    (\<forall>j < acked_PacketNumber (last acked) - 2. tracked (bbr_sampler b') j = None)"
proof -
  have c: "0 \<le> rnd" "in_i64 (MinRTT rtt)" "acked \<noteq> [] \<or> lost \<noteq> []"
    "\<forall>p\<in>set acked. in_i64 (acked_PacketNumber p)" "\<forall>p\<in>set lost. in_i64 (lost_PacketNumber p)"
    using assms(3) by simp_all
  have "acked_PacketNumber (last acked) < 2 ^ 63" using c(4) assms(4) by simp
  then have "bbr_leastUnacked acked lost = Some (acked_PacketNumber (last acked) - 2)"
    using assms(4,5) by (simp add: bbr_leastUnacked_def)
  with bbr_event_ok [OF assms(1,2) c, of n t] show ?thesis by blast
qed

lemma bbr_event_forgets_witness:
  "\<exists>b'. bbr_OnCongestionEventEx quic_go_consts \<lparr>MinRTT = 30000000, SmoothedRTT = 31000000\<rparr> 12345 2504 36000000
       [\<lparr>acked_PacketNumber = 5, BytesAcked = 1252\<rparr>] []
       (bbr_SetRTTStatsProvider (NewBbrSender quic_go_consts 1252)) = Some b' \<and>
    (\<forall>j < acked_PacketNumber (last [\<lparr>acked_PacketNumber = 5, BytesAcked = 1252\<rparr>]) - 2.
       tracked (bbr_sampler b') j = None)"
proof (rule bbr_event_forgets)
  show "bbr_inv (bbr_SetRTTStatsProvider (NewBbrSender quic_go_consts 1252))"
    by (rule NewBbrSender_inv) (simp_all add: quic_go_consts_def [THEN arg_cong [of _ _ InitialPacketSizeIPv4]])
qed simp_all

text \<open>A single state: a sender within the pacer's range that is asked at or after \<open>TimeUntilSend\<close>.\<close>

lemma bbr_not_stuck:
  assumes "bbr_paced K b" "pacer_calm (bbr_bandwidthForPacer b) now (bbr_pacer b)" "bbr_TimeUntilSend K b \<le> now"
  shows "bbr_CanSend 0 b \<and> bbr_HasPacingBudget K now b"
  using assms by (rule bbr_sender.idle_sender_not_stuck)

lemma NewBbrSender_quic_inv: "bbr_inv (bbr_SetRTTStatsProvider (NewBbrSender quic_go_consts 1252))"
  by (rule NewBbrSender_inv) (simp_all add: quic_go_consts_def [THEN arg_cong [of _ _ InitialPacketSizeIPv4]])

lemma NewBbrSender_quic_pacer:
  "bbr_pacer (bbr_SetRTTStatsProvider (NewBbrSender quic_go_consts 1252)) =
     \<lparr>budgetAtLastSent = 12520, p_maxDatagramSize = 1252, p_lastSentTime = 0\<rparr>"
  "bbr_bandwidthForPacer (bbr_SetRTTStatsProvider (NewBbrSender quic_go_consts 1252)) = 65536"
  "bbr_maxDatagramSize (bbr_SetRTTStatsProvider (NewBbrSender quic_go_consts 1252)) = 1252"
  by code_simp+

lemma bbr_not_stuck_witness:
  "bbr_CanSend 0 (bbr_SetRTTStatsProvider (NewBbrSender quic_go_consts 1252)) \<and>
   bbr_HasPacingBudget quic_go_consts 7 (bbr_SetRTTStatsProvider (NewBbrSender quic_go_consts 1252))"
proof (rule bbr_not_stuck)
  show "bbr_paced quic_go_consts (bbr_SetRTTStatsProvider (NewBbrSender quic_go_consts 1252))"
    by (simp add: bbr_paced_def NewBbrSender_quic_inv NewBbrSender_quic_pacer pacer_ok_def)
qed (simp_all add: bbr_TimeUntilSend_def NewBbrSender_quic_pacer pacer_calm_def pacer_TimeUntilSend_def time_zero_def)

text \<open>
  C7: when the sender does not stall: after every run of calls from the constructor (created with datagrams of between
  an eighth of the initial packet size and that size; increasing packet numbers, no negative sizes or times, datagram sizes that do not shrink and stay
  below 64 KiB), with nothing in flight, a sender whose
  pacing rate is at most \<open>2 ^ 40\<close> bytes per second and that is asked at or after \<open>TimeUntilSend\<close> may send and has the
  pacing budget for a datagram, provided that the pacer has not been idle for so long that its budget overflows
  (\<open>pacer_calm\<close>: nothing has been sent yet; or the last packet was not sent in the future, and the time since is below
  \<open>2 ^ 63\<close> nanoseconds and, multiplied by the rate, below \<open>2 ^ 62\<close>).
\<close>

theorem bbr_run_not_stuck:
  assumes "consts_ok K" "InitialPacketSizeIPv4 K \<le> 8 * mds" "mds \<le> InitialPacketSizeIPv4 K"
    and "calls_ok (- 1) mds cs" "list_all call_paced cs"
    and "bbr_run K cs (bbr_SetRTTStatsProvider (NewBbrSender K mds)) = Some b"
    and "bbr_bandwidthForPacer b \<le> 2 ^ 40"
    and "pacer_calm (bbr_bandwidthForPacer b) now (bbr_pacer b)" "bbr_TimeUntilSend K b \<le> now"
  shows "bbr_CanSend 0 b \<and> bbr_HasPacingBudget K now b"
proof (rule bbr_sender.idle_sender_not_stuck [OF _ assms(8,9)])
  let ?b = "bbr_SetRTTStatsProvider (NewBbrSender K mds)"
  have K: "0 \<le> mds" "mds < 2 ^ 16" "1 \<le> InitialPacketSizeIPv4 K" "InitialPacketSizeIPv4 K < 2 ^ 16"
    using assms(1-3) by (simp_all add: consts_ok_def)
  note st = NewBbrSender_start [OF assms(1) K(1,2)]
  have "bbr_pacer ?b = NewPacer K"
    by (simp add: bbr_SetRTTStatsProvider_def NewBbrSender_def newBbrSender_def bbrSender_init_def
        bbr_enterStartupMode_def bbr_setHighCwndGain_def Let_def)
  then have "bbr_pacer_ok ?b"
    using K assms(3) st(2) by (simp add: bbr_pacer_ok_def NewPacer_def pacer_maxBurstPackets_def time_zero_def)
  moreover have "calls_ok (bbr_lastSentPacket ?b) (bbr_maxDatagramSize ?b) cs" using assms(4) st(1,2) by simp
  ultimately show "bbr_paced K b"
    using bbr_run_pacer [OF assms(1) NewBbrSender_inv [OF assms(1,2) K(2)] _ assms(5) _ assms(6)] assms(1,7)
    by (simp add: bbr_paced_intro)
qed

lemma bbr_run_not_stuck_witness:
  "\<exists>b. bbr_run quic_go_consts [CallSent 5000000 0 0 1252 True, CallSetMax 1400]
      (bbr_SetRTTStatsProvider (NewBbrSender quic_go_consts 1252)) = Some b \<and>
    bbr_CanSend 0 b \<and> bbr_HasPacingBudget quic_go_consts 5000007 b"
proof -
  let ?run = "bbr_run quic_go_consts [CallSent 5000000 0 0 1252 True, CallSetMax 1400]
      (bbr_SetRTTStatsProvider (NewBbrSender quic_go_consts 1252))"
  have "?run \<noteq> None" by code_simp
  then obtain b where b: "?run = Some b" by blast
  then have e: "b = the ?run" by simp
  have "bbr_CanSend 0 b \<and> bbr_HasPacingBudget quic_go_consts 5000007 b"
  proof (rule bbr_run_not_stuck [OF _ _ _ _ _ b])
    show "bbr_bandwidthForPacer b \<le> 2 ^ 40" "bbr_TimeUntilSend quic_go_consts b \<le> 5000007"
      "pacer_calm (bbr_bandwidthForPacer b) 5000007 (bbr_pacer b)" unfolding e by code_simp+
  qed (simp_all add: quic_go_consts_def [THEN arg_cong [of _ _ InitialPacketSizeIPv4]] valid_pn_def)
  with b show ?thesis by blast
qed

text \<open>
  C27: the rate of the pacer: twice the bandwidth estimate (bits per second, so a quarter of it in bytes),
  at least 64 KiB per second, in every mode: the pacing gains of DRAIN and of the PROBE\_BW cycle do not enter it.
\<close>

theorem bbr_pacer_rate:
  assumes "bbr_inv b" "0 \<le> bbr_bandwidthEstimate b" "bbr_bandwidthEstimate b \<le> 2 ^ 51"
  shows "bbr_bandwidthForPacer (b\<lparr>bbr_mode := m, bbr_pacingGain := g, bbr_pacingRate := r\<rparr>) =
    max 65536 (bbr_bandwidthEstimate b div 4)"
proof -
  have "bbr_bandwidthForPacer (b\<lparr>bbr_mode := m, bbr_pacingGain := g, bbr_pacingRate := r\<rparr>) = bbr_bandwidthForPacer b"
    by (simp add: bbr_bandwidthForPacer_def bbr_bandwidthEstimate_def)
  with bbr_bandwidthForPacer_eq [OF assms] show ?thesis by (simp add: minBps_def)
qed

lemma bbr_pacer_rate_witness:
  "bbr_bandwidthForPacer ((bbr_SetRTTStatsProvider (NewBbrSender quic_go_consts 1252))
      \<lparr>bbr_mode := bbrModeDrain, bbr_pacingGain := 1 / 3, bbr_pacingRate := 5\<rparr>) =
    max 65536 (bbr_bandwidthEstimate (bbr_SetRTTStatsProvider (NewBbrSender quic_go_consts 1252)) div 4)"
proof (rule bbr_pacer_rate [OF NewBbrSender_quic_inv])
  have "bbr_bandwidthEstimate (bbr_SetRTTStatsProvider (NewBbrSender quic_go_consts 1252)) = 0" by code_simp
  then show "0 \<le> bbr_bandwidthEstimate (bbr_SetRTTStatsProvider (NewBbrSender quic_go_consts 1252))"
    "bbr_bandwidthEstimate (bbr_SetRTTStatsProvider (NewBbrSender quic_go_consts 1252)) \<le> 2 ^ 51" by simp_all
qed

text \<open>
  An event that reports neither acknowledged nor lost packets panics in every state: the last lost
  packet is read from an empty slice.
\<close>

lemma bbr_empty_event_panics: "bbr_OnCongestionEventEx K rtt rnd n t [] [] b = None"
proof -
  have none: "Option.bind m (\<lambda>_. None) = None" for m :: "'x option" by (cases m) simp_all
  show ?thesis
    by (simp add: bbr_OnCongestionEventEx_def bbr_leastUnacked_def Let_def split_def none)
qed

text \<open>
  C28: the recovery window: while in recovery it is at least the minimal window and at least the bytes in
  flight plus the bytes just acknowledged, so recovery never blocks the sender from replacing what was
  delivered; during the conservation phase it does not grow beyond that.
\<close>

theorem bbr_recovery_window:
  assumes "bbr_InRecovery b" "in_i64 (bbr_bytesInFlight b + acked)" "0 \<le> lost"
    "in_i64 (bbr_recoveryWindow b)" "0 \<le> bbr_recoveryWindow b" "bbr_maxDatagramSize b \<le> bbr_minCongestionWindow b"
    and b': "b' = bbr_calculateRecoveryWindow acked lost b"
  shows "bbr_minCongestionWindow b \<le> bbr_recoveryWindow b' \<and>
    bbr_bytesInFlight b + acked \<le> bbr_recoveryWindow b' \<and>
    (bbr_recoveryState b = bbrRecoveryStateConservation \<longrightarrow>
       bbr_recoveryWindow b' \<le> max (bbr_recoveryWindow b) (max (bbr_minCongestionWindow b) (bbr_bytesInFlight b + acked)))"
proof -
  have "i64 (bbr_bytesInFlight b + acked) = bbr_bytesInFlight b + acked" using assms(2) by (rule i64_id)
  moreover have "i64 (bbr_recoveryWindow b - lost) = bbr_recoveryWindow b - lost" if "lost \<le> bbr_recoveryWindow b"
    using that assms(3-5) by simp
  moreover have "bbr_recoveryWindow b' = bbr_nextRecoveryWindow acked lost b"
    using assms(1) by (simp add: b' bbr_calculateRecoveryWindow_def bbr_InRecovery_def)
  ultimately show ?thesis
    using assms(3,5,6) by (auto simp: bbr_nextRecoveryWindow_def Let_def le_max_iff_disj)
qed

lemma bbr_recovery_window_witness:
  "bbr_minCongestionWindow ((NewBbrSender quic_go_consts 1252)\<lparr>bbr_recoveryState := bbrRecoveryStateConservation,
       bbr_recoveryWindow := 10000\<rparr>) \<le>
     bbr_recoveryWindow (bbr_calculateRecoveryWindow 1252 2504
       ((NewBbrSender quic_go_consts 1252)\<lparr>bbr_recoveryState := bbrRecoveryStateConservation, bbr_recoveryWindow := 10000\<rparr>))"
  by (rule conjunct1 [OF bbr_recovery_window [OF _ _ _ _ _ _ refl]]) code_simp+



text \<open>
  C26: PROBE\_RTT: it is entered exactly when the minimal RTT expired and the connection is not leaving
  quiescence; once the exit time is set and has passed, and a round has passed since, it is left for
  PROBE\_BW or, before full bandwidth was reached, for STARTUP; otherwise the sender stays in it.
\<close>

theorem bbr_probe_rtt_transitions:
  assumes "bbr_inv b" "consts_ok K" "0 \<le> rnd"
  shows "\<exists>b'. bbr_maybeEnterOrExitProbeRtt K rnd t isRoundStart expired b = Some b' \<and>
    bbr_mode b' =
      (if bbr_mode b \<noteq> bbrModeProbeRtt
       then if expired \<and> \<not> bbr_exitingQuiescence b then bbrModeProbeRtt else bbr_mode b
       else if bbr_exitProbeRttAt b \<noteq> time_zero \<and> bbr_exitProbeRttAt b \<le> t \<and>
               (isRoundStart \<or> bbr_probeRttRoundPassed b)
       then if bbr_isAtFullBandwidth b then bbrModeProbeBw else bbrModeStartup
       else bbrModeProbeRtt)"
proof -
  have "bbr_weak b" using assms(1) by (simp add: bbr_inv_def)
  from bbr_maybeEnterOrExitProbeRtt_ok [OF this assms(2,3), of t isRoundStart expired] obtain b' where
    "bbr_maybeEnterOrExitProbeRtt K rnd t isRoundStart expired b = Some b'"
    "bbr_mode b' =
      (if bbr_mode b = bbrModeProbeRtt
       then if bbr_exitProbeRttAt b \<noteq> 0 \<and> bbr_exitProbeRttAt b \<le> t \<and> (isRoundStart \<or> bbr_probeRttRoundPassed b)
            then if bbr_isAtFullBandwidth b then bbrModeProbeBw else bbrModeStartup
            else bbrModeProbeRtt
       else if expired \<and> \<not> bbr_exitingQuiescence b then bbrModeProbeRtt else bbr_mode b)" by blast
  then show ?thesis by (intro exI [of _ b']) (simp add: time_zero_def)
qed

lemma bbr_probe_rtt_transitions_witness:
  "\<exists>b'. bbr_maybeEnterOrExitProbeRtt quic_go_consts 5 36000000 True True
      (bbr_SetRTTStatsProvider (NewBbrSender quic_go_consts 1252)) = Some b' \<and> bbr_mode b' = bbrModeProbeRtt"
proof -
  have "bbr_mode (bbr_SetRTTStatsProvider (NewBbrSender quic_go_consts 1252)) = bbrModeStartup"
    "\<not> bbr_exitingQuiescence (bbr_SetRTTStatsProvider (NewBbrSender quic_go_consts 1252))" by code_simp+
  with bbr_probe_rtt_transitions [OF NewBbrSender_quic_inv quic_go_consts_ok, of 5 36000000 True True] show ?thesis by simp
qed

text \<open>
  Entering PROBE\_BW never starts the gain cycle in its draining phase: whatever number is drawn, the
  cycle offset is one of the eight but not the second, and the pacing gain is not 3/4.
\<close>

lemma bbr_probe_bw_entry:
  assumes "bbr_inv b" "consts_ok K" "0 \<le> rnd"
  shows "\<exists>b'. bbr_enterProbeBandwidthMode K rnd t b = Some b' \<and> bbr_mode b' = bbrModeProbeBw \<and>
    bbr_cycleCurrentOffset b' \<in> {0, 2, 3, 4, 5, 6, 7} \<and> bbr_pacingGain b' \<in> {5 / 4, 1}"
proof -
  have K: "0 < PacketsPerConnectionID K" using assms(2) by (simp add: consts_ok_def)
  have r: "rnd smod 7 = rnd mod 7" using assms(3) by (simp add: smod_pos_eq)
  have "0 \<le> rnd mod 7" "rnd mod 7 < 7" by simp_all
  then consider "rnd mod 7 = 0" | "rnd mod 7 = 1" | "rnd mod 7 = 2" | "rnd mod 7 = 3" | "rnd mod 7 = 4" |
    "rnd mod 7 = 5" | "rnd mod 7 = 6" by linarith
  then show ?thesis
    by cases (use K r in \<open>simp_all add: bbr_enterProbeBandwidthMode_def Let_def bbr_gain_at_def pacingGain_table_def\<close>)
qed

lemma bbr_probe_bw_entry_witness:
  "\<exists>b'. bbr_enterProbeBandwidthMode quic_go_consts 8 36000000
      (bbr_SetRTTStatsProvider (NewBbrSender quic_go_consts 1252)) = Some b' \<and> bbr_mode b' = bbrModeProbeBw \<and>
    bbr_cycleCurrentOffset b' \<in> {0, 2, 3, 4, 5, 6, 7} \<and> bbr_pacingGain b' \<in> {5 / 4, 1}"
  by (rule bbr_probe_bw_entry [OF NewBbrSender_quic_inv]) simp_all

end
