(* ===== verification/Brutal.thy ===== *)
theory Brutal
  imports SendAlgorithm
begin

text \<open>
  The fixed-rate sender of \<open>src/internal/congestion/brutal/brutal.go\<close>: a ring of five one-second
  slots counts acknowledged and lost packets, and the pacer and the window are scaled by the inverse
  of the ack rate.  \<open>rtt\<close> is what the \<open>RTTStatsProvider\<close> answers; the environment variable read by
  the constructor is the argument \<open>debug\<close>.  Printing has no effect on the state but for the timestamp
  of the last print, and for the panic when it reads the RTT of a sender without provider.
  \<open>brutal_counts\<close> refines the slots to the history of events.
\<close>

definition pktInfoSlotCount :: int where "pktInfoSlotCount = 5"
definition minSampleCount :: int where "minSampleCount = 50"
definition minAckRate :: f64 where "minAckRate = fl64 (8/10)"
definition congestionWindowMultiplier :: f64 where "congestionWindowMultiplier = 2"
definition debugPrintInterval :: int where "debugPrintInterval = 2"

record pktInfo =
  Timestamp :: int
  AckCount :: int
  LossCount :: int

record BrutalSender =
  br_rttStats :: bool
  bps :: byteCount
  br_maxDatagramSize :: byteCount
  br_pacer :: Pacer
  pktInfoSlots :: "pktInfo list"
  ackRate :: f64
  br_debug :: bool
  lastAckPrintTimestamp :: int

definition pktInfo_zero :: pktInfo where
  "pktInfo_zero = \<lparr>Timestamp = 0, AckCount = 0, LossCount = 0\<rparr>"

definition NewBrutalSender :: "congestion_consts \<Rightarrow> bool \<Rightarrow> int \<Rightarrow> BrutalSender" where
  "NewBrutalSender K debug rate =
     \<lparr>br_rttStats = False, bps = i64 rate, br_maxDatagramSize = InitialPacketSizeIPv4 K,
      br_pacer = NewPacer K, pktInfoSlots = replicate (nat pktInfoSlotCount) pktInfo_zero,
      ackRate = 1, br_debug = debug, lastAckPrintTimestamp = 0\<rparr>"

text \<open>The closure the constructor gives to the pacer.\<close>

definition brutal_bandwidth :: "BrutalSender \<Rightarrow> byteCount" where
  "brutal_bandwidth b = f64_to_i64 (f64_div (f64_of_int (bps b)) (ackRate b))"

definition brutal_SetRTTStatsProvider :: "BrutalSender \<Rightarrow> BrutalSender" where
  "brutal_SetRTTStatsProvider b = b\<lparr>br_rttStats := True\<rparr>"

definition brutal_TimeUntilSend :: "congestion_consts \<Rightarrow> BrutalSender \<Rightarrow> time" where
  "brutal_TimeUntilSend K b = pacer_TimeUntilSend K (brutal_bandwidth b) (br_pacer b)"

definition brutal_HasPacingBudget :: "congestion_consts \<Rightarrow> time \<Rightarrow> BrutalSender \<Rightarrow> bool" where
  "brutal_HasPacingBudget K now b \<longleftrightarrow>
     br_maxDatagramSize b \<le> pacer_Budget K (brutal_bandwidth b) now (br_pacer b)"

text \<open>\<open>Time.Unix\<close> of the standard library.\<close>

definition time_Unix :: "time \<Rightarrow> int" where
  "time_Unix t = t div time_Second - 62135596800"

definition brutal_SmoothedRTT :: "RTTStats \<Rightarrow> BrutalSender \<Rightarrow> duration option" where
  "brutal_SmoothedRTT rtt b = (if br_rttStats b then Some (SmoothedRTT rtt) else None)"

definition brutal_GetCongestionWindow :: "RTTStats \<Rightarrow> BrutalSender \<Rightarrow> byteCount option" where
  "brutal_GetCongestionWindow rtt b = do {
     r \<leftarrow> brutal_SmoothedRTT rtt b;
     Some (if r \<le> 0 then 10240
           else f64_to_i64 (f64_div (f64_mul (f64_mul (f64_of_int (bps b)) (duration_Seconds r))
                  congestionWindowMultiplier) (ackRate b)))
   }"

definition brutal_CanSend :: "RTTStats \<Rightarrow> byteCount \<Rightarrow> BrutalSender \<Rightarrow> bool option" where
  "brutal_CanSend rtt bytesInFlight b =
     map_option (\<lambda>w. bytesInFlight < w) (brutal_GetCongestionWindow rtt b)"

definition brutal_OnPacketSent ::
    "congestion_consts \<Rightarrow> time \<Rightarrow> byteCount \<Rightarrow> packetNumber \<Rightarrow> byteCount \<Rightarrow> bool \<Rightarrow> BrutalSender \<Rightarrow> BrutalSender" where
  "brutal_OnPacketSent K sentTime bytesInFlight packetNumber bytes isRetransmittable b =
     b\<lparr>br_pacer := pacer_SentPacket K (brutal_bandwidth b) sentTime bytes (br_pacer b)\<rparr>"

definition brutal_canPrintAckRate :: "int \<Rightarrow> BrutalSender \<Rightarrow> bool" where
  "brutal_canPrintAckRate currentTimestamp b \<longleftrightarrow>
     br_debug b \<and> debugPrintInterval \<le> i64 (currentTimestamp - lastAckPrintTimestamp b)"

text \<open>The \<open>if b.canPrintAckRate(...)\<close> block at the end of each branch of \<open>updateAckRate\<close>.\<close>

definition brutal_print :: "RTTStats \<Rightarrow> int \<Rightarrow> BrutalSender \<Rightarrow> BrutalSender option" where
  "brutal_print rtt currentTimestamp b =
     (if brutal_canPrintAckRate currentTimestamp b then do {
        _ \<leftarrow> brutal_SmoothedRTT rtt b;
        Some (b\<lparr>lastAckPrintTimestamp := currentTimestamp\<rparr>)
      } else Some b)"

text \<open>The counting loop, and the rate computed from the counts.\<close>

definition brutal_counts :: "int \<Rightarrow> pktInfo list \<Rightarrow> int \<times> int" where
  "brutal_counts currentTimestamp slots =
     (let minTimestamp = i64 (currentTimestamp - pktInfoSlotCount) in
      foldl (\<lambda>(a, l) info. if Timestamp info < minTimestamp then (a, l)
                           else (u64 (a + AckCount info), u64 (l + LossCount info))) (0, 0) slots)"

definition brutal_rate :: "int \<Rightarrow> int \<Rightarrow> f64" where
  "brutal_rate ackCount lossCount =
     (if u64 (ackCount + lossCount) < minSampleCount then 1
      else let rate = f64_div (f64_of_int ackCount) (f64_of_int (u64 (ackCount + lossCount))) in
        if rate < minAckRate then minAckRate else rate)"

definition brutal_updateAckRate :: "RTTStats \<Rightarrow> int \<Rightarrow> BrutalSender \<Rightarrow> BrutalSender option" where
  "brutal_updateAckRate rtt currentTimestamp b =
     (let (ackCount, lossCount) = brutal_counts currentTimestamp (pktInfoSlots b)
      in brutal_print rtt currentTimestamp (b\<lparr>ackRate := brutal_rate ackCount lossCount\<rparr>))"

definition brutal_countEvent :: "int \<Rightarrow> nat \<Rightarrow> nat \<Rightarrow> pktInfo \<Rightarrow> pktInfo" where
  "brutal_countEvent currentTimestamp nAcked nLost info =
     (if Timestamp info = currentTimestamp
      then info\<lparr>LossCount := u64 (LossCount info + int nLost), AckCount := u64 (AckCount info + int nAcked)\<rparr>
      else \<lparr>Timestamp = currentTimestamp, AckCount = int nAcked, LossCount = int nLost\<rparr>)"

definition brutal_OnCongestionEventEx ::
    "RTTStats \<Rightarrow> byteCount \<Rightarrow> time \<Rightarrow> AckedPacketInfo list \<Rightarrow> LostPacketInfo list \<Rightarrow> BrutalSender \<Rightarrow>
     BrutalSender option" where
  "brutal_OnCongestionEventEx rtt priorInFlight eventTime acked lost b =
     (let currentTimestamp = time_Unix eventTime;
          slot = currentTimestamp smod pktInfoSlotCount
      in if slot < 0 \<or> int (length (pktInfoSlots b)) \<le> slot then None
         else
           let b = b\<lparr>pktInfoSlots := (pktInfoSlots b)[nat slot :=
                       brutal_countEvent currentTimestamp (length acked) (length lost)
                         (pktInfoSlots b ! nat slot)]\<rparr>
           in brutal_updateAckRate rtt currentTimestamp b)"

definition brutal_SetMaxDatagramSize :: "byteCount \<Rightarrow> BrutalSender \<Rightarrow> BrutalSender" where
  "brutal_SetMaxDatagramSize sz b =
     b\<lparr>br_maxDatagramSize := sz, br_pacer := pacer_SetMaxDatagramSize sz (br_pacer b)\<rparr>"

definition brutal_InSlowStart :: "BrutalSender \<Rightarrow> bool" where "brutal_InSlowStart b = False"
definition brutal_InRecovery :: "BrutalSender \<Rightarrow> bool" where "brutal_InRecovery b = False"

definition brutal_OnPacketAcked :: "packetNumber \<Rightarrow> byteCount \<Rightarrow> byteCount \<Rightarrow> time \<Rightarrow> BrutalSender \<Rightarrow> BrutalSender" where
  "brutal_OnPacketAcked number ackedBytes priorInFlight eventTime b = b"

definition brutal_OnCongestionEvent :: "packetNumber \<Rightarrow> byteCount \<Rightarrow> byteCount \<Rightarrow> BrutalSender \<Rightarrow> BrutalSender" where
  "brutal_OnCongestionEvent number lostBytes priorInFlight b = b"

definition brutal_MaybeExitSlowStart :: "BrutalSender \<Rightarrow> BrutalSender" where "brutal_MaybeExitSlowStart b = b"

definition brutal_OnRetransmissionTimeout :: "bool \<Rightarrow> BrutalSender \<Rightarrow> BrutalSender" where
  "brutal_OnRetransmissionTimeout packetsRetransmitted b = b"

subsection \<open>The ack rate\<close>

lemma fl64_1: "fl64 1 = 1"
  using fl_of_int [of 1 53] by simp

lemma f64_of_int_mono: "0 \<le> a \<Longrightarrow> a \<le> b \<Longrightarrow> f64_of_int a \<le> f64_of_int b"
  by (simp add: f64_of_int_def fl_mono)

lemma f64_of_int_nonneg: "0 \<le> a \<Longrightarrow> 0 \<le> f64_of_int a"
  by (simp add: f64_of_int_def fl_nonneg)

lemma minAckRate_bounds: "minAckRate \<le> 1" "1 / 2 < minAckRate"
  by code_simp+

lemma brutal_rate_bounds:
  assumes "0 \<le> a" "0 \<le> l" "a + l < 2 ^ 64"
  shows "minAckRate \<le> brutal_rate a l" "brutal_rate a l \<le> 1"
proof -
  have t: "u64 (a + l) = a + l" using assms by simp
  have "f64_of_int a / f64_of_int (a + l) \<le> 1"
    using f64_of_int_mono [of a "a + l"] f64_of_int_nonneg [of "a + l"] assms
    by (cases "f64_of_int (a + l) = 0") (simp_all add: divide_le_eq_1)
  moreover have "0 \<le> f64_of_int a / f64_of_int (a + l)"
    using f64_of_int_nonneg [of a] f64_of_int_nonneg [of "a + l"] assms by simp
  ultimately have "f64_div (f64_of_int a) (f64_of_int (a + l)) \<le> 1"
    using fl_mono [of "f64_of_int a / f64_of_int (a + l)" 1 53] by (simp add: f64_div_def fl64_1)
  then show "brutal_rate a l \<le> 1" "minAckRate \<le> brutal_rate a l"
    using minAckRate_bounds by (simp_all add: brutal_rate_def t Let_def)
qed

subsection \<open>The slots and the history of events\<close>

text \<open>
  A history lists the congestion events, oldest first: the second of the event, and the numbers of
  packets acknowledged and lost.  \<open>sel\<close> chooses one of the two counts.
\<close>

type_synonym history = "(int \<times> nat \<times> nat) list"

definition at_second :: "(nat \<times> nat \<Rightarrow> nat) \<Rightarrow> int \<Rightarrow> history \<Rightarrow> int" where
  "at_second sel ts h = sum_list (map (\<lambda>e. if fst e = ts then int (sel (snd e)) else 0) h)"

definition last_five :: "(nat \<times> nat \<Rightarrow> nat) \<Rightarrow> int \<Rightarrow> history \<Rightarrow> int" where
  "last_five sel now h = sum_list (map (\<lambda>e. if now - 5 < fst e then int (sel (snd e)) else 0) h)"

definition hist_ok :: "int \<Rightarrow> history \<Rightarrow> bool" where
  "hist_ok now h \<longleftrightarrow> (\<forall>e\<in>set h. 0 < fst e \<and> fst e \<le> now) \<and>
     sum_list (map (\<lambda>e. int (fst (snd e)) + int (snd (snd e))) h) < 2 ^ 62"

definition slot_repr :: "history \<Rightarrow> int \<Rightarrow> pktInfo \<Rightarrow> bool" where
  "slot_repr h i s \<longleftrightarrow>
     AckCount s = at_second fst (Timestamp s) h \<and> LossCount s = at_second snd (Timestamp s) h \<and>
     (Timestamp s = 0 \<or> Timestamp s \<in> fst ` set h \<and> Timestamp s mod 5 = i) \<and>
     (\<forall>e\<in>set h. fst e mod 5 = i \<longrightarrow> fst e \<le> Timestamp s)"

definition slots_repr :: "history \<Rightarrow> pktInfo list \<Rightarrow> bool" where
  "slots_repr h slots \<longleftrightarrow> length slots = 5 \<and> (\<forall>i<5. slot_repr h (int i) (slots ! i))"

lemma at_second_append [simp]: "at_second sel ts (h @ [(t, c)]) =
    at_second sel ts h + (if t = ts then int (sel c) else 0)"
  by (simp add: at_second_def)

lemma at_second_none: "ts \<notin> fst ` set h \<Longrightarrow> at_second sel ts h = 0"
  unfolding at_second_def by (induction h) auto

lemma sum_list_if_le:
  "(\<And>x. x \<in> set xs \<Longrightarrow> 0 \<le> f x) \<Longrightarrow> 0 \<le> sum_list (map (\<lambda>x. if P x then f x else 0) xs) \<and>
   sum_list (map (\<lambda>x. if P x then f x else 0) xs) \<le> sum_list (map f xs)" for f :: "'a \<Rightarrow> int"
  by (induction xs) force+

lemma hist_counts_le:
  assumes "hist_ok now h"
  shows "0 \<le> sum_list (map (\<lambda>e. if P e then int (fst (snd e)) else 0) h)"
    "0 \<le> sum_list (map (\<lambda>e. if P e then int (snd (snd e)) else 0) h)"
    "sum_list (map (\<lambda>e. if P e then int (fst (snd e)) else 0) h) +
     sum_list (map (\<lambda>e. if P e then int (snd (snd e)) else 0) h) < 2 ^ 62"
proof -
  have "sum_list (map (\<lambda>e. int (fst (snd e))) h) + sum_list (map (\<lambda>e. int (snd (snd e))) h) < 2 ^ 62"
    using assms unfolding hist_ok_def sum_list_addf by simp
  then show "0 \<le> sum_list (map (\<lambda>e. if P e then int (fst (snd e)) else 0) h)"
    "0 \<le> sum_list (map (\<lambda>e. if P e then int (snd (snd e)) else 0) h)"
    "sum_list (map (\<lambda>e. if P e then int (fst (snd e)) else 0) h) +
     sum_list (map (\<lambda>e. if P e then int (snd (snd e)) else 0) h) < 2 ^ 62"
    using sum_list_if_le [of h "\<lambda>e. int (fst (snd e))" P] sum_list_if_le [of h "\<lambda>e. int (snd (snd e))" P]
    by simp_all
qed

lemma hist_ok_prefix: "hist_ok now (h @ [e]) \<Longrightarrow> hist_ok now h"
  by (auto simp: hist_ok_def)

lemma slot_repr_event:
  assumes "slot_repr h (now mod 5) s" "hist_ok now (h @ [(now, a, l)])"
  shows "slot_repr (h @ [(now, a, l)]) (now mod 5) (brutal_countEvent now a l s)"
proof -
  have b: "0 \<le> at_second fst now (h @ [(now, a, l)])" "0 \<le> at_second snd now (h @ [(now, a, l)])"
    "at_second fst now (h @ [(now, a, l)]) + at_second snd now (h @ [(now, a, l)]) < 2 ^ 62"
    using hist_counts_le [OF assms(2), of "\<lambda>e. fst e = now"] unfolding at_second_def by blast+
  have now: "0 < now" "\<forall>e\<in>set h. fst e \<le> now" using assms(2) by (auto simp: hist_ok_def)
  show ?thesis
  proof (cases "Timestamp s = now")
    case True
    have u: "u64 (at_second fst now h + int a) = at_second fst now h + int a"
      "u64 (at_second snd now h + int l) = at_second snd now h + int l"
      using b by (simp_all del: of_nat_add)
    show ?thesis
      using assms(1) True now u by (auto simp: slot_repr_def brutal_countEvent_def)
  next
    case False
    have "now \<notin> fst ` set h"
    proof
      assume "now \<in> fst ` set h"
      then have "now \<le> Timestamp s" using assms(1) by (auto simp: slot_repr_def)
      moreover have "Timestamp s \<le> now" using assms(1) now by (auto simp: slot_repr_def)
      ultimately show False using False by simp
    qed
    with False now show ?thesis
      by (auto simp: slot_repr_def brutal_countEvent_def at_second_none)
  qed
qed

lemma slot_repr_other:
  assumes "slot_repr h i s" "i \<noteq> now mod 5" "0 < now"
  shows "slot_repr (h @ [(now, a, l)]) i s"
proof -
  have "Timestamp s \<noteq> now" using assms by (auto simp: slot_repr_def)
  with assms show ?thesis by (auto simp: slot_repr_def)
qed

lemma slots_repr_event:
  assumes "slots_repr h slots" "hist_ok now (h @ [(now, a, l)])"
  shows "slots_repr (h @ [(now, a, l)])
    (slots[nat (now mod 5) := brutal_countEvent now a l (slots ! nat (now mod 5))])"
proof -
  have now: "0 < now" using assms(2) by (simp add: hist_ok_def)
  have len: "length slots = 5" and r: "\<And>i. i < 5 \<Longrightarrow> slot_repr h (int i) (slots ! i)"
    using assms(1) by (auto simp: slots_repr_def)
  have k: "nat (now mod 5) < 5" "int (nat (now mod 5)) = now mod 5" by simp_all
  have "slot_repr (h @ [(now, a, l)]) (int i)
      (slots[nat (now mod 5) := brutal_countEvent now a l (slots ! nat (now mod 5))] ! i)" if "i < 5" for i
  proof (cases "i = nat (now mod 5)")
    case True
    with r [OF k(1)] k(2) slot_repr_event [OF _ assms(2)] len that show ?thesis by simp
  next
    case False
    then have "int i \<noteq> now mod 5" by auto
    with False r [OF that] slot_repr_other now show ?thesis by simp
  qed
  with len show ?thesis by (simp add: slots_repr_def)
qed

lemma slots_repr_zero: "slots_repr [] (replicate 5 pktInfo_zero)"
  by (simp add: slots_repr_def slot_repr_def pktInfo_zero_def at_second_def)

text \<open>Counting over the slots is counting over the last five seconds of the history.\<close>

definition residue_count :: "(nat \<times> nat \<Rightarrow> nat) \<Rightarrow> int \<Rightarrow> history \<Rightarrow> int \<Rightarrow> int" where
  "residue_count sel now h i =
     sum_list (map (\<lambda>e. if now - 5 < fst e \<and> fst e mod 5 = i then int (sel (snd e)) else 0) h)"

lemma residues_sum: "(\<Sum>i<5. residue_count sel now h (int i)) = last_five sel now h"
proof (induction h)
  case (Cons e h)
  have "(\<Sum>i<5. if fst e mod 5 = int i then x else 0) = x" for x :: int
  proof -
    have "(\<Sum>i<5. if fst e mod 5 = int i then x else 0) = (\<Sum>i<5. if i = nat (fst e mod 5) then x else 0)"
      by (intro sum.cong) auto
    moreover have "nat (fst e mod 5) < 5" by simp
    ultimately show ?thesis by (simp del: nat_less_eq_zless)
  qed
  then have "(\<Sum>i<5. if now - 5 < fst e \<and> fst e mod 5 = int i then int (sel (snd e)) else 0) =
      (if now - 5 < fst e then int (sel (snd e)) else 0)"
    by simp
  with Cons show ?case by (simp add: residue_count_def last_five_def sum.distrib)
qed (simp add: residue_count_def last_five_def)

lemma mod5_window:
  assumes "a mod 5 = b mod (5 :: int)" "now - 5 < a" "a \<le> now" "now - 5 < b" "b \<le> now"
  shows "a = b"
proof -
  have "5 dvd a - b" using assms(1) by (simp add: mod_eq_dvd_iff)
  then obtain k where "a - b = 5 * k" by (elim dvdE)
  with assms have "- 1 < k" "k < 1" by linarith+
  then have "k = 0" by simp
  with \<open>a - b = 5 * k\<close> show ?thesis by simp
qed

lemma slot_count:
  assumes "slot_repr h i s" "hist_ok now h" "i = now mod 5 \<longrightarrow> Timestamp s = now"
  shows "(if Timestamp s < now - 5 then 0 else at_second sel (Timestamp s) h) = residue_count sel now h i"
proof (cases "now - 5 < Timestamp s \<and> Timestamp s \<in> fst ` set h")
  case True
  then obtain e where e: "e \<in> set h" "Timestamp s = fst e" by auto
  have "0 < fst e \<and> fst e \<le> now" using assms(2) e(1) unfolding hist_ok_def by blast
  then have "0 < Timestamp s" "Timestamp s \<le> now" using e(2) by simp_all
  with assms(1) have ts: "Timestamp s mod 5 = i" "Timestamp s \<le> now" by (simp_all add: slot_repr_def)
  have "(fst e = Timestamp s) = (now - 5 < fst e \<and> fst e mod 5 = i)" if "e \<in> set h" for e
  proof
    show "now - 5 < fst e \<and> fst e mod 5 = i" if "fst e = Timestamp s" using that True ts by simp
    assume e: "now - 5 < fst e \<and> fst e mod 5 = i"
    have "fst e \<le> now" using assms(2) \<open>e \<in> set h\<close> by (simp add: hist_ok_def)
    then show "fst e = Timestamp s" using e True ts mod5_window [of "fst e" "Timestamp s" now] by simp
  qed
  then have "map (\<lambda>e. if fst e = Timestamp s then int (sel (snd e)) else 0) h =
      map (\<lambda>e. if now - 5 < fst e \<and> fst e mod 5 = i then int (sel (snd e)) else 0) h" by simp
  then have "at_second sel (Timestamp s) h = residue_count sel now h i"
    unfolding at_second_def residue_count_def by (rule arg_cong)
  with True show ?thesis by simp
next
  case False
  have old: "\<not> now - 5 < fst e" if "e \<in> set h" "fst e mod 5 = i" for e
  proof
    assume "now - 5 < fst e"
    moreover have "fst e \<le> Timestamp s" "0 < fst e" using assms(1,2) that by (auto simp: slot_repr_def hist_ok_def)
    ultimately show False using False assms(1) by (auto simp: slot_repr_def)
  qed
  then have "map (\<lambda>e. if now - 5 < fst e \<and> fst e mod 5 = i then int (sel (snd e)) else 0) h = map (\<lambda>e. 0) h"
    by auto
  then have "residue_count sel now h i = sum_list (map (\<lambda>e. 0) h)"
    unfolding residue_count_def by (rule arg_cong)
  then have z: "residue_count sel now h i = 0" by simp
  show ?thesis
  proof (cases "Timestamp s < now - 5 \<or> Timestamp s \<notin> fst ` set h")
    case True
    with z show ?thesis by (auto simp: at_second_none)
  next
    case in_h: False
    then have "Timestamp s = now - 5" "Timestamp s mod 5 = i"
      using False assms(1,2) by (auto simp: slot_repr_def hist_ok_def)
    moreover have "(now - 5) mod 5 = now mod 5" by presburger
    ultimately have "i = now mod 5" by simp
    with assms(3) \<open>Timestamp s = now - 5\<close> show ?thesis by simp
  qed
qed

lemma counts_fold:
  "foldl (\<lambda>(a, l) info. if Timestamp info < m then (a, l)
       else (u64 (a + AckCount info), u64 (l + LossCount info))) (u64 x, u64 y) slots =
   (u64 (x + sum_list (map (\<lambda>s. if Timestamp s < m then 0 else AckCount s) slots)),
    u64 (y + sum_list (map (\<lambda>s. if Timestamp s < m then 0 else LossCount s) slots)))"
  by (induction slots arbitrary: x y) (simp_all add: add.assoc)

lemma brutal_counts_history:
  assumes "slots_repr h slots" "hist_ok now h" "now < 2 ^ 62" "0 < now"
    "Timestamp (slots ! nat (now mod 5)) = now"
  shows "brutal_counts now slots = (last_five fst now h, last_five snd now h)"
proof -
  have len: "length slots = 5" and r: "\<And>i. i < 5 \<Longrightarrow> slot_repr h (int i) (slots ! i)"
    using assms(1) by (auto simp: slots_repr_def)
  have i: "int i = now mod 5 \<longrightarrow> Timestamp (slots ! i) = now" for i
  proof
    assume "int i = now mod 5"
    then have "i = nat (now mod 5)" by simp
    then show "Timestamp (slots ! i) = now" using assms(5) by simp
  qed
  have m: "i64 (now - 5) = now - 5" using assms(3,4) by simp
  have a: "(if Timestamp (slots ! i) < now - 5 then 0 else AckCount (slots ! i)) = residue_count fst now h (int i)"
    "(if Timestamp (slots ! i) < now - 5 then 0 else LossCount (slots ! i)) = residue_count snd now h (int i)"
    if "i < 5" for i
  proof -
    have "AckCount (slots ! i) = at_second fst (Timestamp (slots ! i)) h"
      "LossCount (slots ! i) = at_second snd (Timestamp (slots ! i)) h"
      using r [OF that] by (simp_all add: slot_repr_def)
    then show "(if Timestamp (slots ! i) < now - 5 then 0 else AckCount (slots ! i)) = residue_count fst now h (int i)"
      "(if Timestamp (slots ! i) < now - 5 then 0 else LossCount (slots ! i)) = residue_count snd now h (int i)"
      using slot_count [OF r [OF that] assms(2) i, of fst] slot_count [OF r [OF that] assms(2) i, of snd]
      by (simp_all only:)
  qed
  have A: "sum_list (map (\<lambda>s. if Timestamp s < now - 5 then 0 else AckCount s) slots) = last_five fst now h"
    unfolding residues_sum [symmetric] sum_list_sum_nth length_map len atLeast0LessThan
    by (intro sum.cong) (simp_all only: lessThan_iff len nth_map a)
  have L: "sum_list (map (\<lambda>s. if Timestamp s < now - 5 then 0 else LossCount s) slots) = last_five snd now h"
    unfolding residues_sum [symmetric] sum_list_sum_nth length_map len atLeast0LessThan
    by (intro sum.cong) (simp_all only: lessThan_iff len nth_map a)
  have b: "0 \<le> last_five fst now h" "0 \<le> last_five snd now h" "last_five fst now h + last_five snd now h < 2 ^ 62"
    using hist_counts_le [OF assms(2), of "\<lambda>e. now - 5 < fst e"] unfolding last_five_def by blast+
  have "brutal_counts now slots = (u64 (0 + last_five fst now h), u64 (0 + last_five snd now h))"
    using counts_fold [of "now - 5" 0 0 slots] A L by (simp add: brutal_counts_def pktInfoSlotCount_def m)
  with b show ?thesis by simp
qed


subsection \<open>Runs of congestion events\<close>

text \<open>A run of events: time of the event, acknowledged and lost packets.\<close>

fun brutal_run ::
    "RTTStats \<Rightarrow> (time \<times> AckedPacketInfo list \<times> LostPacketInfo list) list \<Rightarrow> BrutalSender \<Rightarrow> BrutalSender option" where
  "brutal_run rtt [] b = Some b"
| "brutal_run rtt ((t, acked, lost) # es) b =
     Option.bind (brutal_OnCongestionEventEx rtt 0 t acked lost b) (brutal_run rtt es)"

definition event_counts :: "time \<times> AckedPacketInfo list \<times> LostPacketInfo list \<Rightarrow> int \<times> nat \<times> nat" where
  "event_counts e = (time_Unix (fst e), length (fst (snd e)), length (snd (snd e)))"

definition brutal_repr :: "history \<Rightarrow> BrutalSender \<Rightarrow> bool" where
  "brutal_repr h b \<longleftrightarrow> slots_repr h (pktInfoSlots b) \<and> (br_debug b \<longrightarrow> br_rttStats b)"

lemma brutal_event:
  assumes "brutal_repr h b" "hist_ok now (h @ [(now, length acked, length lost)])" "now < 2 ^ 62"
    "now = time_Unix t"
  shows "\<exists>b'. brutal_OnCongestionEventEx rtt infl t acked lost b = Some b' \<and>
    brutal_repr (h @ [(now, length acked, length lost)]) b' \<and> bps b' = bps b \<and>
    br_pacer b' = br_pacer b \<and> br_maxDatagramSize b' = br_maxDatagramSize b \<and>
    br_rttStats b' = br_rttStats b \<and>
    ackRate b' = brutal_rate (last_five fst now (h @ [(now, length acked, length lost)]))
                   (last_five snd now (h @ [(now, length acked, length lost)]))"
proof -
  let ?h = "h @ [(now, length acked, length lost)]"
  have now: "0 < now" using assms(2) by (simp add: hist_ok_def)
  have slot: "now smod 5 = now mod 5" using now by (simp add: smod_pos_eq)
  let ?slots = "(pktInfoSlots b)[nat (now mod 5) :=
    brutal_countEvent now (length acked) (length lost) (pktInfoSlots b ! nat (now mod 5))]"
  have r: "slots_repr h (pktInfoSlots b)" and len: "length (pktInfoSlots b) = 5"
    using assms(1) by (simp_all add: brutal_repr_def slots_repr_def)
  have k: "\<not> now mod 5 < 0" "\<not> 5 \<le> now mod 5" by (simp_all add: not_less not_le)
  have r': "slots_repr ?h ?slots" using slots_repr_event [OF r assms(2)] .
  have "Timestamp (?slots ! nat (now mod 5)) = now"
    using len k by (simp add: brutal_countEvent_def)
  from brutal_counts_history [OF r' assms(2,3) now this]
  have c: "brutal_counts now ?slots = (last_five fst now ?h, last_five snd now ?h)" .
  let ?b = "b\<lparr>pktInfoSlots := ?slots, ackRate := brutal_rate (last_five fst now ?h) (last_five snd now ?h)\<rparr>"
  have "brutal_OnCongestionEventEx rtt infl t acked lost b = brutal_print rtt now ?b"
    using len k c assms(4) [symmetric]
    by (simp add: brutal_OnCongestionEventEx_def pktInfoSlotCount_def slot brutal_updateAckRate_def Let_def)
  moreover have "brutal_print rtt now ?b = Some ?b \<or>
      brutal_print rtt now ?b = Some (?b\<lparr>lastAckPrintTimestamp := now\<rparr>)"
    using assms(1) by (auto simp: brutal_print_def brutal_SmoothedRTT_def brutal_canPrintAckRate_def brutal_repr_def)
  ultimately show ?thesis using assms(1) r' by (auto simp: brutal_repr_def)
qed

lemma brutal_run_history:
  assumes "brutal_repr h b" "sorted (map (\<lambda>e. time_Unix (fst e)) es)"
    "\<forall>e\<in>set es. time_Unix (fst e) < 2 ^ 62 \<and> (\<forall>x\<in>set h. fst x \<le> time_Unix (fst e))"
    "\<forall>e\<in>set es. 0 < time_Unix (fst e)" "\<forall>x\<in>set h. 0 < fst x"
    "sum_list (map (\<lambda>e. int (fst (snd e)) + int (snd (snd e))) (h @ map event_counts es)) < 2 ^ 62"
    "es \<noteq> []"
  shows "\<exists>b'. brutal_run rtt es b = Some b' \<and> brutal_repr (h @ map event_counts es) b' \<and> bps b' = bps b \<and>
    br_pacer b' = br_pacer b \<and> br_maxDatagramSize b' = br_maxDatagramSize b \<and> br_rttStats b' = br_rttStats b \<and>
    ackRate b' = brutal_rate
      (last_five fst (time_Unix (fst (last es))) (h @ map event_counts es))
      (last_five snd (time_Unix (fst (last es))) (h @ map event_counts es))"
  using assms
proof (induction es arbitrary: h b)
  case (Cons e es)
  obtain t acked lost where e: "e = (t, acked, lost)" by (cases e) auto
  let ?c = "event_counts e" and ?now = "time_Unix t"
  have c: "?c = (?now, length acked, length lost)" by (simp add: event_counts_def e)
  have nonneg: "0 \<le> sum_list (map (\<lambda>e. int (fst (snd e)) + int (snd (snd e))) (map event_counts es))"
    by (intro sum_list_nonneg) auto
  have ok: "hist_ok ?now (h @ [?c])"
    using Cons.prems(3-6) nonneg by (auto simp: hist_ok_def c [unfolded e] e)
  have lt: "?now < 2 ^ 62" using Cons.prems(3) e by simp
  obtain b1 where b1: "brutal_OnCongestionEventEx rtt 0 t acked lost b = Some b1" "brutal_repr (h @ [?c]) b1"
    "bps b1 = bps b" "br_pacer b1 = br_pacer b" "br_maxDatagramSize b1 = br_maxDatagramSize b"
    "br_rttStats b1 = br_rttStats b"
    "ackRate b1 = brutal_rate (last_five fst ?now (h @ [?c])) (last_five snd ?now (h @ [?c]))"
    using brutal_event [OF Cons.prems(1) ok [unfolded c] lt refl, of rtt 0] unfolding c by blast
  show ?case
  proof (cases "es = []")
    case True
    with b1 e show ?thesis by simp
  next
    case False
    have "\<exists>b'. brutal_run rtt es b1 = Some b' \<and> brutal_repr ((h @ [?c]) @ map event_counts es) b' \<and>
      bps b' = bps b1 \<and> br_pacer b' = br_pacer b1 \<and> br_maxDatagramSize b' = br_maxDatagramSize b1 \<and>
      br_rttStats b' = br_rttStats b1 \<and> ackRate b' = brutal_rate
      (last_five fst (time_Unix (fst (last es))) ((h @ [?c]) @ map event_counts es))
      (last_five snd (time_Unix (fst (last es))) ((h @ [?c]) @ map event_counts es))"
      using Cons.prems False by (intro Cons.IH b1(2)) (auto simp: c [unfolded e] e)
    with b1 False e show ?thesis by simp
  qed
qed simp

subsection \<open>Pacing rate and window\<close>

lemma f64_div_by_rate:
  assumes "0 \<le> x" "x \<le> 2 powi k" "1 / 2 < r" "r \<le> 1"
  shows "0 \<le> f64_div x r" "f64_div x r \<le> 2 powi (k + 1)" "2 powi j \<le> x \<Longrightarrow> 2 powi j \<le> f64_div x r"
proof -
  have "x / r \<le> x / (1 / 2)" using assms by (intro divide_left_mono) auto
  then have "x / r \<le> 2 powi (k + 1)" using assms(2) by (simp add: power_int_add)
  with assms show "f64_div x r \<le> 2 powi (k + 1)" unfolding f64_div_def by (intro fl_le_powi) auto
  show "0 \<le> f64_div x r" using assms by (simp add: f64_div_def fl_nonneg)
  show "2 powi j \<le> f64_div x r" if "2 powi j \<le> x"
  proof -
    have "x / 1 \<le> x / r" using assms by (intro divide_left_mono) auto
    with that show ?thesis unfolding f64_div_def by (intro fl_ge_powi) auto
  qed
qed

lemma rat_trunc_bounds:
  assumes "0 \<le> x" "x \<le> of_int n"
  shows "0 \<le> rat_trunc x" "rat_trunc x \<le> n" "of_int m \<le> x \<Longrightarrow> m \<le> rat_trunc x"
proof -
  show "0 \<le> rat_trunc x" "of_int m \<le> x \<Longrightarrow> m \<le> rat_trunc x"
    using assms by (simp_all add: rat_trunc_def le_floor_iff)
  have "\<lfloor>x\<rfloor> \<le> \<lfloor>of_int n :: rat\<rfloor>" using assms(2) by (rule floor_mono)
  then show "rat_trunc x \<le> n" using assms(1) by (simp add: rat_trunc_def)
qed

definition brutal_rate_ok :: "BrutalSender \<Rightarrow> bool" where
  "brutal_rate_ok b \<longleftrightarrow> 65536 \<le> bps b \<and> bps b \<le> 2 ^ 39 \<and> minAckRate \<le> ackRate b \<and> ackRate b \<le> 1"

lemma brutal_bandwidth_bounds:
  assumes "brutal_rate_ok b"
  shows "0 < brutal_bandwidth b" "brutal_bandwidth b \<le> 2 ^ 40"
proof -
  have r: "1 / 2 < ackRate b" "ackRate b \<le> 1" "65536 \<le> bps b" "bps b \<le> 2 ^ 39"
    using assms minAckRate_bounds by (auto simp: brutal_rate_ok_def)
  have e: "f64_of_int (bps b) = of_int (bps b)" using r by (simp add: f64_of_int_exact)
  have le: "(of_int (bps b) :: rat) \<le> 2 powi 39" "2 powi 16 \<le> (of_int (bps b) :: rat)"
    using r(3,4) by (simp_all add: power_int_def)
  have "0 \<le> (of_int (bps b) :: rat)" using r by simp
  note q = f64_div_by_rate [OF this le(1) r(1,2)]
  have up: "f64_div (of_int (bps b)) (ackRate b) \<le> of_int (2 ^ 40)" using q(2) by (simp add: power_int_def)
  have lo: "of_int 65536 \<le> f64_div (of_int (bps b)) (ackRate b)"
    using q(3) [OF le(2)] by (simp add: power_int_def)
  note t = rat_trunc_bounds [OF q(1) up] rat_trunc_bounds(3) [OF q(1) up lo]
  then have "brutal_bandwidth b = rat_trunc (f64_div (of_int (bps b)) (ackRate b))"
    by (simp add: brutal_bandwidth_def e f64_to_i64_def)
  with t show "0 < brutal_bandwidth b" "brutal_bandwidth b \<le> 2 ^ 40" by simp_all
qed

text \<open>\<open>Seconds\<close> of a duration between a millisecond and \<open>2 ^ 40\<close> nanoseconds (18 minutes).\<close>

lemma duration_Seconds_bounds:
  assumes "1000000 \<le> d" "d \<le> 2 ^ 40"
  shows "2 powi (- 10) \<le> duration_Seconds d" "duration_Seconds d \<le> 2 powi 11"
proof -
  let ?q = "d div 1000000000" and ?r = "d mod 1000000000"
  have q: "0 \<le> ?q" "?q \<le> 1100" "0 \<le> ?r" "?r < 1000000000"
    using assms zdiv_mono1 [of d "2 ^ 40" 1000000000] by (simp_all add: pos_imp_zdiv_nonneg_iff)
  have s: "duration_Seconds d = fl64 (of_int ?q + fl64 (of_int ?r / 1000000000))"
    using assms q by (simp add: duration_Seconds_def f64_add_def f64_div_def time_Second_def sdiv_pos_eq
        smod_pos_eq f64_of_int_exact)
  have r0: "0 \<le> fl64 (of_int ?r / 1000000000)" using q by (intro fl_nonneg) simp
  have "of_int ?r / 1000000000 \<le> (2 powi 0 :: rat)" using q by simp
  then have r1: "fl64 (of_int ?r / 1000000000) \<le> 2 powi 0" using q by (intro fl_le_powi) auto
  have "(of_int ?q :: rat) \<le> of_int 1100" using q(2) by (simp only: of_int_le_iff)
  then have "of_int ?q + fl64 (of_int ?r / 1000000000) \<le> 1100 + 1" using r1 by simp
  then have "of_int ?q + fl64 (of_int ?r / 1000000000) \<le> 2 powi 11" by (simp add: power_int_def)
  then show "duration_Seconds d \<le> 2 powi 11" unfolding s using q r0 by (intro fl_le_powi) auto
  have "2 powi (- 10) \<le> of_int ?q + fl64 (of_int ?r / 1000000000)"
  proof (cases "?q = 0")
    case True
    then have "?r = d" by (simp add: div_eq_0_iff) 
    then have "2 powi (- 10) \<le> (of_int ?r / 1000000000 :: rat)" using assms(1) by (simp add: power_int_def power_divide)
    then have "2 powi (- 10) \<le> fl64 (of_int ?r / 1000000000)" by (intro fl_ge_powi) auto
    with q show ?thesis by (simp add: True)
  next
    case False
    then have "1 \<le> ?q" using q by linarith
    then have "1 \<le> (of_int ?q :: rat)" by (simp del: of_int_div)
    moreover have "2 powi (- 10) \<le> (1 :: rat)" by (simp add: power_int_def power_divide)
    ultimately show ?thesis using r0 by linarith
  qed
  then show "2 powi (- 10) \<le> duration_Seconds d" unfolding s by (intro fl_ge_powi) auto
qed


lemma brutal_window_bounds:
  assumes "brutal_rate_ok b" "br_rttStats b" "1000000 \<le> SmoothedRTT rtt" "SmoothedRTT rtt \<le> 2 ^ 40"
  shows "\<exists>w. brutal_GetCongestionWindow rtt b = Some w \<and> 128 \<le> w \<and> w \<le> 2 ^ 52"
proof -
  let ?s = "duration_Seconds (SmoothedRTT rtt)" and ?x = "of_int (bps b) :: rat"
  have r: "1 / 2 < ackRate b" "ackRate b \<le> 1" "65536 \<le> bps b" "bps b \<le> 2 ^ 39"
    using assms(1) minAckRate_bounds by (auto simp: brutal_rate_ok_def)
  have e: "f64_of_int (bps b) = ?x" using r by (simp add: f64_of_int_exact)
  have x: "2 powi 16 \<le> ?x" "?x \<le> 2 powi 39" using r(3,4) by (simp_all add: power_int_def)
  note s = duration_Seconds_bounds [OF assms(3,4)]
  have s0: "0 < ?s" using s(1) by (rule less_le_trans [rotated]) simp
  have "2 powi 16 * 2 powi (- 10) \<le> ?x * ?s" using x s s0 by (intro mult_mono) auto
  then have a: "2 powi 6 \<le> f64_mul ?x ?s"
    unfolding f64_mul_def by (intro fl_ge_powi) (simp_all add: power_int_def power_divide)
  have "?x * ?s \<le> 2 powi 39 * 2 powi 11" using x s s0 r by (intro mult_mono) auto
  then have "f64_mul ?x ?s \<le> 2 powi 50"
    unfolding f64_mul_def using r s0 by (intro fl_le_powi) (simp_all add: power_int_def)
  moreover define y where "y = f64_mul (f64_mul ?x ?s) 2"
  ultimately have y: "2 powi 7 \<le> y" "y \<le> 2 powi 51"
    unfolding y_def f64_mul_def [of "f64_mul ?x ?s" 2] using a
    by (intro fl_ge_powi fl_le_powi; simp add: power_int_def)+
  have y0: "0 \<le> y" using y(1) by (rule order_trans [rotated]) simp
  note q = f64_div_by_rate [OF y0 y(2) r(1,2)]
  have up: "f64_div y (ackRate b) \<le> of_int (2 ^ 52)" using q(2) by (simp add: power_int_def)
  have lo: "of_int 128 \<le> f64_div y (ackRate b)" using q(3) [OF y(1)] by (simp add: power_int_def)
  note t = rat_trunc_bounds [OF q(1) up] rat_trunc_bounds(3) [OF q(1) up lo]
  have "brutal_GetCongestionWindow rtt b = Some (rat_trunc (f64_div y (ackRate b)))"
    using assms(2,3) t by (simp add: brutal_GetCongestionWindow_def brutal_SmoothedRTT_def e
        congestionWindowMultiplier_def f64_to_i64_def flip: y_def)
  with t show ?thesis by simp
qed

definition brutal_paced :: "congestion_consts \<Rightarrow> RTTStats \<Rightarrow> BrutalSender \<Rightarrow> bool" where
  "brutal_paced K rtt b \<longleftrightarrow>
     consts_ok K \<and> brutal_rate_ok b \<and> br_rttStats b \<and>
     (SmoothedRTT rtt \<le> 0 \<or> 1000000 \<le> SmoothedRTT rtt \<and> SmoothedRTT rtt \<le> 2 ^ 40) \<and>
     0 < br_maxDatagramSize b \<and> br_maxDatagramSize b < 2 ^ 16 \<and>
     p_maxDatagramSize (br_pacer b) = br_maxDatagramSize b \<and>
     0 \<le> budgetAtLastSent (br_pacer b) \<and> budgetAtLastSent (br_pacer b) < 2 ^ 61 \<and>
     0 \<le> p_lastSentTime (br_pacer b)"

lemma brutal_window_pos:
  assumes "brutal_paced K rtt b"
  shows "\<exists>w. brutal_GetCongestionWindow rtt b = Some w \<and> 0 < w"
proof (cases "SmoothedRTT rtt \<le> 0")
  case True
  with assms show ?thesis
    by (simp add: brutal_paced_def brutal_GetCongestionWindow_def brutal_SmoothedRTT_def)
next
  case False
  with assms brutal_window_bounds [of b rtt] show ?thesis by (auto simp: brutal_paced_def)
qed

interpretation brutal_sender: send_algorithm "brutal_paced K rtt" "\<lambda>b. the (brutal_GetCongestionWindow rtt b)"
  "\<lambda>n b. brutal_CanSend rtt n b = Some True" "brutal_TimeUntilSend K" "brutal_HasPacingBudget K"
  "\<lambda>now b. pacer_calm (brutal_bandwidth b) now (br_pacer b)" for K rtt
proof unfold_locales
  fix s now n
  assume s: "brutal_paced K rtt s"
  then obtain w where w: "brutal_GetCongestionWindow rtt s = Some w" "0 < w" using brutal_window_pos by blast
  then show "(brutal_CanSend rtt n s = Some True) = (n < the (brutal_GetCongestionWindow rtt s))"
    "0 < the (brutal_GetCongestionWindow rtt s)" by (simp_all add: brutal_CanSend_def)
  assume now: "pacer_calm (brutal_bandwidth s) now (br_pacer s)" "brutal_TimeUntilSend K s \<le> now"
  have "pacer_ok (brutal_bandwidth s) (br_pacer s)"
    using s brutal_bandwidth_bounds [of s] by (simp add: pacer_ok_def brutal_paced_def)
  with s now show "brutal_HasPacingBudget K now s"
    using pacer_ready_after [of K "brutal_bandwidth s" "br_pacer s" now]
    by (simp add: brutal_HasPacingBudget_def brutal_TimeUntilSend_def brutal_paced_def)
qed

subsection \<open>Properties\<close>

lemma brutal_repr_new: "brutal_repr [] (brutal_SetRTTStatsProvider (NewBrutalSender K debug rate))"
  using slots_repr_zero
  by (simp add: brutal_repr_def brutal_SetRTTStatsProvider_def NewBrutalSender_def pktInfoSlotCount_def)

text \<open>
  C8: the ack rate refines the history: after any run of congestion events in the order of time, none
  of which panics, the rate of the sender is the one computed from the packets acknowledged and lost in the five
  seconds up to the last event, although the sender keeps five counters only.
\<close>

theorem brutal_rate_is_history:
  assumes "es \<noteq> []" "sorted (map (\<lambda>e. time_Unix (fst e)) es)" "\<forall>e\<in>set es. 0 < time_Unix (fst e) \<and> time_Unix (fst e) < 2 ^ 62"
    "(\<Sum>e\<leftarrow>es. int (length (fst (snd e))) + int (length (snd (snd e)))) < 2 ^ 62"
  shows "\<exists>b. brutal_run rtt es (brutal_SetRTTStatsProvider (NewBrutalSender K debug rate)) = Some b \<and>
    ackRate b = brutal_rate
      (\<Sum>e\<leftarrow>es. if time_Unix (fst (last es)) - 5 < time_Unix (fst e) then int (length (fst (snd e))) else 0)
      (\<Sum>e\<leftarrow>es. if time_Unix (fst (last es)) - 5 < time_Unix (fst e) then int (length (snd (snd e))) else 0)"
proof -
  have sum: "sum_list (map (\<lambda>e. int (fst (snd e)) + int (snd (snd e))) ([] @ map event_counts es)) < 2 ^ 62"
    using assms(4) by (simp add: comp_def event_counts_def)
  obtain b where "brutal_run rtt es (brutal_SetRTTStatsProvider (NewBrutalSender K debug rate)) = Some b"
    "ackRate b = brutal_rate
      (last_five fst (time_Unix (fst (last es))) ([] @ map event_counts es))
      (last_five snd (time_Unix (fst (last es))) ([] @ map event_counts es))"
    using brutal_run_history [OF brutal_repr_new assms(2) _ _ _ sum assms(1), of rtt K debug rate] assms(3)
    by auto
  then show ?thesis by (simp add: last_five_def comp_def event_counts_def cong del: if_weak_cong)
qed

lemma brutal_rate_is_history_witness:
  "\<exists>b. brutal_run \<lparr>MinRTT = 1, SmoothedRTT = 1\<rparr>
      [(62135596801000000000, [\<lparr>acked_PacketNumber = 1, BytesAcked = 1200\<rparr>], []),
       (62135596809000000000, [], [\<lparr>lost_PacketNumber = 2, BytesLost = 1200\<rparr>])]
      (brutal_SetRTTStatsProvider (NewBrutalSender quic_go_consts True 1000000)) = Some b \<and> ackRate b = brutal_rate 0 1"
  using brutal_rate_is_history [of "[(62135596801000000000, [\<lparr>acked_PacketNumber = 1, BytesAcked = 1200\<rparr>], []),
       (62135596809000000000, [], [\<lparr>lost_PacketNumber = 2, BytesLost = 1200\<rparr>])]"
      "\<lparr>MinRTT = 1, SmoothedRTT = 1\<rparr>" quic_go_consts True 1000000]
  by (simp add: time_Unix_def time_Second_def)

text \<open>
  The ack rate, and with it the compensation for losses, is bounded: whatever the counts, as long as
  they do not overflow together, the rate is at least the minimal rate 0.8 and at most 1; with fewer than 50
  samples, or with no losses, it is 1.
\<close>

lemma brutal_rate_range:
  assumes "0 \<le> a" "0 \<le> l" "a + l < 2 ^ 64"
  shows "minAckRate \<le> brutal_rate a l \<and> brutal_rate a l \<le> 1 \<and> (a + l < 50 \<longrightarrow> brutal_rate a l = 1) \<and>
    (l = 0 \<longrightarrow> brutal_rate a l = 1)"
proof -
  have "f64_div (f64_of_int a) (f64_of_int a) = 1" if "50 \<le> a"
  proof -
    have "(2 :: rat) powi 5 \<le> of_int a" using that by (simp add: power_int_def)
    then have "2 powi 5 \<le> f64_of_int a" unfolding f64_of_int_def by (rule fl_ge_powi) simp
    then have "f64_of_int a \<noteq> 0" by (auto simp: power_int_def)
    then show ?thesis by (simp add: f64_div_def fl64_1)
  qed
  then have "brutal_rate a l = 1" if "l = 0"
    using that assms minAckRate_bounds(1) by (simp add: brutal_rate_def minSampleCount_def Let_def)
  moreover have "brutal_rate a l = 1" if "a + l < 50"
    using that assms by (simp add: brutal_rate_def minSampleCount_def)
  ultimately show ?thesis using brutal_rate_bounds [OF assms] by simp
qed

lemma brutal_rate_range_witness: "minAckRate \<le> brutal_rate 70 30 \<and> brutal_rate 70 30 \<le> 1 \<and> brutal_rate 90 0 = 1"
  using brutal_rate_range [of 70 30] brutal_rate_range [of 90 0] by simp

text \<open>
  The Brutal sender does not stall: with nothing in flight, and a rate between 64 KiB and 512 GiB per
  second, it may send and has the pacing budget for a datagram when asked at or after \<open>TimeUntilSend\<close>.
\<close>

lemma brutal_not_stuck:
  assumes "brutal_paced K rtt b" "pacer_calm (brutal_bandwidth b) now (br_pacer b)" "brutal_TimeUntilSend K b \<le> now"
  shows "brutal_CanSend rtt 0 b = Some True \<and> brutal_HasPacingBudget K now b"
  using assms by (rule brutal_sender.idle_sender_not_stuck)

lemma brutal_not_stuck_witness:
  "brutal_CanSend \<lparr>MinRTT = 20000000, SmoothedRTT = 30000000\<rparr> 0
      (brutal_SetRTTStatsProvider (NewBrutalSender quic_go_consts False 1000000)) = Some True \<and>
   brutal_HasPacingBudget quic_go_consts 7 (brutal_SetRTTStatsProvider (NewBrutalSender quic_go_consts False 1000000))"
proof (rule brutal_not_stuck)
  show "brutal_paced quic_go_consts \<lparr>MinRTT = 20000000, SmoothedRTT = 30000000\<rparr>
      (brutal_SetRTTStatsProvider (NewBrutalSender quic_go_consts False 1000000))"
    using minAckRate_bounds(1)
    by (simp add: brutal_paced_def brutal_rate_ok_def brutal_SetRTTStatsProvider_def NewBrutalSender_def NewPacer_def
        quic_go_consts_def [THEN arg_cong [of _ _ InitialPacketSizeIPv4]] pacer_maxBurstPackets_def time_zero_def)
qed code_simp+

text \<open>
  An event stamped before 1970, at a second that is not a multiple of five, panics: Go's remainder is
  negative and indexes the slots out of range.
\<close>

lemma brutal_pre_epoch_panics:
  assumes "time_Unix t < 0" "\<not> 5 dvd time_Unix t"
  shows "brutal_OnCongestionEventEx rtt n t acked lost b = None"
proof -
  have "- time_Unix t mod 5 \<noteq> 0" using assms(2) by (simp add: mod_eq_0_iff_dvd)
  moreover have "0 \<le> - time_Unix t mod 5" by simp
  ultimately have "time_Unix t smod 5 < 0"
    using assms(1) by (simp add: signed_modulo_int_def)
  then show ?thesis by (simp add: brutal_OnCongestionEventEx_def pktInfoSlotCount_def Let_def)
qed

end
