(* ===== verification/RL.thy ===== *)
theory RL
  imports SendAlgorithm
begin

text \<open>
  The learned sender of \<open>src/internal/congestion/rl/\<close>: \<open>rl.go\<close> and the message-queue manager of
  \<open>mq.go\<close>.  Three goroutines share the sender: one listens for actions and puts them into a channel of
  capacity one, one applies actions to the window, one publishes the state every second.  The step
  relation \<open>rl_step\<close> interleaves them with the calls of the connection, all without a lock: applying an action is three steps (the
  receive, the store to the window, the guard), publishing two (reading the fields, handing the message over), and
  a call of the connection is one.  A goroutine that would block has
  no step.  The connection to Redis is not part of the repository: an arriving message is a label of
  the step, \<open>decode\<close> stands for \<open>json.Unmarshal\<close> on its payload (\<open>None\<close> is an error), and publishing
  appends to a log.
\<close>

definition initialCongestionWindow_rl :: int where "initialCongestionWindow_rl = 20"

record StateMsg =
  sm_Seq :: int
  sm_Cwnd :: byteCount
  sm_Rtt :: int
  sm_FIN :: bool

record ActionMsg =
  am_Seq :: int
  am_Action :: int

record QuicMqManager =
  pubChannel :: string
  subChannel :: string
  actionCh :: "ActionMsg list"
  mq_seq :: int

record RLSender =
  rl_rttStats :: bool
  rl_maxDatagramSize :: byteCount
  rl_pacer :: Pacer
  mqManager :: QuicMqManager
  rl_cwnd :: byteCount

definition NewQuicMqManager :: "string \<Rightarrow> int \<Rightarrow> QuicMqManager" where
  "NewQuicMqManager connectionID rnd =
     \<lparr>pubChannel = ''/'' @ connectionID @ ''/state'', subChannel = ''/'' @ connectionID @ ''/action'',
      actionCh = [], mq_seq = rnd\<rparr>"

text \<open>\<open>actionMap\<close>; a missing key reads as zero.\<close>

definition actionMap :: "int \<Rightarrow> int" where
  "actionMap a = (case map_of [(0, - 3), (1, - 1), (2, 0), (3, 1), (4, 3)] a of Some d \<Rightarrow> d | None \<Rightarrow> 0)"

text \<open>The sender as \<open>NewRLSender\<close> returns it, once the connection to Redis is up.\<close>

definition NewRLSender :: "congestion_consts \<Rightarrow> int \<Rightarrow> RLSender" where
  "NewRLSender K rnd =
     \<lparr>rl_rttStats = False, rl_maxDatagramSize = InitialPacketSizeIPv4 K, rl_pacer = NewPacer K,
      mqManager = NewQuicMqManager ''test1234'' rnd,
      rl_cwnd = initialCongestionWindow_rl * InitialPacketSizeIPv4 K\<rparr>"

definition rl_bandwidth :: "RLSender \<Rightarrow> byteCount" where
  "rl_bandwidth b = rl_cwnd b"

definition rl_SetRTTStatsProvider :: "RLSender \<Rightarrow> RLSender" where
  "rl_SetRTTStatsProvider b = b\<lparr>rl_rttStats := True\<rparr>"

definition rl_TimeUntilSend :: "congestion_consts \<Rightarrow> RLSender \<Rightarrow> time" where
  "rl_TimeUntilSend K b = pacer_TimeUntilSend K (rl_bandwidth b) (rl_pacer b)"

definition rl_HasPacingBudget :: "congestion_consts \<Rightarrow> time \<Rightarrow> RLSender \<Rightarrow> bool" where
  "rl_HasPacingBudget K now b \<longleftrightarrow> rl_maxDatagramSize b \<le> pacer_Budget K (rl_bandwidth b) now (rl_pacer b)"

definition rl_GetCongestionWindow :: "RLSender \<Rightarrow> byteCount" where
  "rl_GetCongestionWindow b = rl_cwnd b"

definition rl_CanSend :: "byteCount \<Rightarrow> RLSender \<Rightarrow> bool" where
  "rl_CanSend bytesInFlight b \<longleftrightarrow> bytesInFlight < rl_GetCongestionWindow b"

definition rl_OnPacketSent ::
    "congestion_consts \<Rightarrow> time \<Rightarrow> byteCount \<Rightarrow> packetNumber \<Rightarrow> byteCount \<Rightarrow> bool \<Rightarrow> RLSender \<Rightarrow> RLSender" where
  "rl_OnPacketSent K sentTime bytesInFlight packetNumber bytes isRetransmittable b =
     b\<lparr>rl_pacer := pacer_SentPacket K (rl_bandwidth b) sentTime bytes (rl_pacer b)\<rparr>"

definition rl_OnCongestionEventEx ::
    "byteCount \<Rightarrow> time \<Rightarrow> AckedPacketInfo list \<Rightarrow> LostPacketInfo list \<Rightarrow> RLSender \<Rightarrow> RLSender" where
  "rl_OnCongestionEventEx priorInFlight eventTime acked lost b = b"

definition rl_SetMaxDatagramSize :: "byteCount \<Rightarrow> RLSender \<Rightarrow> RLSender" where
  "rl_SetMaxDatagramSize sz b =
     b\<lparr>rl_maxDatagramSize := sz, rl_pacer := pacer_SetMaxDatagramSize sz (rl_pacer b)\<rparr>"

definition rl_OnPacketAcked :: "packetNumber \<Rightarrow> byteCount \<Rightarrow> byteCount \<Rightarrow> time \<Rightarrow> RLSender \<Rightarrow> RLSender" where
  "rl_OnPacketAcked number ackedBytes priorInFlight eventTime b = b"

definition rl_OnCongestionEvent :: "packetNumber \<Rightarrow> byteCount \<Rightarrow> byteCount \<Rightarrow> RLSender \<Rightarrow> RLSender" where
  "rl_OnCongestionEvent number lostBytes priorInFlight b = b"

definition rl_InSlowStart :: "RLSender \<Rightarrow> bool" where "rl_InSlowStart b = False"
definition rl_InRecovery :: "RLSender \<Rightarrow> bool" where "rl_InRecovery b = False"
definition rl_MaybeExitSlowStart :: "RLSender \<Rightarrow> RLSender" where "rl_MaybeExitSlowStart b = b"

definition rl_OnRetransmissionTimeout :: "bool \<Rightarrow> RLSender \<Rightarrow> RLSender" where
  "rl_OnRetransmissionTimeout packetsRetransmitted b = b"

subsection \<open>The goroutines\<close>

text \<open>
  The body of the loop over the action channel: the store to the window, and then the guard.  Between the two the
  stored value is visible to the other goroutines.
\<close>

definition rl_storeAction :: "ActionMsg \<Rightarrow> RLSender \<Rightarrow> RLSender" where
  "rl_storeAction a b = b\<lparr>rl_cwnd := i64 (rl_cwnd b + i64 (actionMap (am_Action a) * rl_maxDatagramSize b))\<rparr>"

definition rl_guardCwnd :: "RLSender \<Rightarrow> RLSender" where
  "rl_guardCwnd b = (if rl_cwnd b < 0 then b\<lparr>rl_cwnd := 10240\<rparr> else b)"

text \<open>Where the goroutine that applies actions is: at the channel, with an action in hand, or between store and guard.\<close>

datatype apply_pc = AtChannel | Received ActionMsg | Stored

definition mq_readAction :: "(string \<Rightarrow> ActionMsg option) \<Rightarrow> string \<Rightarrow> ActionMsg option" where
  "mq_readAction decode payload = decode payload"

text \<open>
  The channel has room for one action; an action that finds it full blocks the listener, which then
  holds it (the second component) until there is room.
\<close>

definition mq_put :: "ActionMsg \<Rightarrow> QuicMqManager \<Rightarrow> QuicMqManager \<times> ActionMsg option" where
  "mq_put a q =
     (if length (actionCh q) < 1 then (q\<lparr>actionCh := actionCh q @ [a]\<rparr>, None) else (q, Some a))"

definition mq_sendAction :: "ActionMsg \<Rightarrow> QuicMqManager \<Rightarrow> QuicMqManager \<times> ActionMsg option" where
  "mq_sendAction a q = (if am_Seq a < mq_seq q then (q, None) else mq_put a q)"

text \<open>
  One turn of the loop of \<open>ListenAction\<close>, at the end of the context (which closes the channel) or at a message:
  whether the loop goes on, the manager, and the action the listener is left holding.
\<close>

datatype mq_event = CtxDone | RedisMessage string

definition mq_ListenAction ::
    "(string \<Rightarrow> ActionMsg option) \<Rightarrow> mq_event \<Rightarrow> QuicMqManager \<Rightarrow> bool \<times> QuicMqManager \<times> ActionMsg option" where
  "mq_ListenAction decode ev q =
     (case ev of
        CtxDone \<Rightarrow> (False, q, None)
      | RedisMessage payload \<Rightarrow>
          (case mq_readAction decode payload of
             None \<Rightarrow> (True, q, None)
           | Some a \<Rightarrow> (let (q, held) = mq_sendAction a q in (True, q, held))))"

definition mq_GetActionCh :: "QuicMqManager \<Rightarrow> ActionMsg list" where
  "mq_GetActionCh q = actionCh q"

definition mq_nextSeq :: "QuicMqManager \<Rightarrow> int \<times> QuicMqManager" where
  "mq_nextSeq q = (let q = q\<lparr>mq_seq := i64 (mq_seq q + 1)\<rparr> in (mq_seq q, q))"

text \<open>\<open>PublishState\<close>: the message with its sequence number; \<open>json.Marshal\<close> cannot fail on it.\<close>

definition mq_PublishState :: "StateMsg \<Rightarrow> QuicMqManager \<Rightarrow> StateMsg \<times> QuicMqManager" where
  "mq_PublishState msg q = (let (n, q) = mq_nextSeq q in (msg\<lparr>sm_Seq := n\<rparr>, q))"

definition rl_stateMsg :: "RTTStats \<Rightarrow> RLSender \<Rightarrow> StateMsg" where
  "rl_stateMsg rtt b =
     \<lparr>sm_Seq = 0, sm_Cwnd = i64 (rl_cwnd b * rl_maxDatagramSize b),
      sm_Rtt = SmoothedRTT rtt sdiv time_Microsecond, sm_FIN = False\<rparr>"

definition rl_finMsg :: StateMsg where
  "rl_finMsg = \<lparr>sm_Seq = 0, sm_Cwnd = 0, sm_Rtt = 0, sm_FIN = True\<rparr>"

record rl_system =
  rl_sender :: RLSender
  rl_published :: "StateMsg list"
  rl_listening :: bool
  rl_blocked :: "ActionMsg option"
  rl_applier :: apply_pc
  rl_publishing :: bool
  rl_outgoing :: "StateMsg option"

definition rl_start :: "congestion_consts \<Rightarrow> int \<Rightarrow> rl_system" where
  "rl_start K rnd =
     \<lparr>rl_sender = NewRLSender K rnd, rl_published = [], rl_listening = True, rl_blocked = None,
      rl_applier = AtChannel, rl_publishing = True, rl_outgoing = None\<rparr>"

definition rl_publish :: "StateMsg \<Rightarrow> rl_system \<Rightarrow> rl_system" where
  "rl_publish msg s =
     (let (m, q) = mq_PublishState msg (mqManager (rl_sender s))
      in s\<lparr>rl_sender := (rl_sender s)\<lparr>mqManager := q\<rparr>, rl_published := rl_published s @ [m], rl_outgoing := None\<rparr>)"

inductive rl_step :: "(string \<Rightarrow> ActionMsg option) \<Rightarrow> rl_system \<Rightarrow> rl_system \<Rightarrow> bool" for decode where
  listen: "rl_listening s \<Longrightarrow> rl_blocked s = None \<Longrightarrow>
    mq_ListenAction decode ev (mqManager (rl_sender s)) = (goes, q, held) \<Longrightarrow>
    rl_step decode s (s\<lparr>rl_sender := (rl_sender s)\<lparr>mqManager := q\<rparr>, rl_blocked := held, rl_listening := goes\<rparr>)"
| unblock: "rl_blocked s = Some a \<Longrightarrow> mq_put a (mqManager (rl_sender s)) = (q, None) \<Longrightarrow>
    rl_step decode s (s\<lparr>rl_sender := (rl_sender s)\<lparr>mqManager := q\<rparr>, rl_blocked := None\<rparr>)"
| receive: "rl_applier s = AtChannel \<Longrightarrow> mq_GetActionCh (mqManager (rl_sender s)) = a # as \<Longrightarrow>
    rl_step decode s (s\<lparr>rl_sender := (rl_sender s)\<lparr>mqManager := (mqManager (rl_sender s))\<lparr>actionCh := as\<rparr>\<rparr>,
      rl_applier := Received a\<rparr>)"
| store: "rl_applier s = Received a \<Longrightarrow>
    rl_step decode s (s\<lparr>rl_sender := rl_storeAction a (rl_sender s), rl_applier := Stored\<rparr>)"
| guard: "rl_applier s = Stored \<Longrightarrow>
    rl_step decode s (s\<lparr>rl_sender := rl_guardCwnd (rl_sender s), rl_applier := AtChannel\<rparr>)"
| read_state: "rl_publishing s \<Longrightarrow> rl_outgoing s = None \<Longrightarrow> rl_rttStats (rl_sender s) \<Longrightarrow>
    rl_step decode s (s\<lparr>rl_outgoing := Some (rl_stateMsg rtt (rl_sender s))\<rparr>)"
| read_fin: "rl_publishing s \<Longrightarrow> rl_outgoing s = None \<Longrightarrow>
    rl_step decode s (s\<lparr>rl_outgoing := Some rl_finMsg, rl_publishing := False\<rparr>)"
| publish: "rl_outgoing s = Some msg \<Longrightarrow> rl_step decode s (rl_publish msg s)"
| set_rtt: "rl_step decode s (s\<lparr>rl_sender := rl_SetRTTStatsProvider (rl_sender s)\<rparr>)"
| set_size: "0 < sz \<Longrightarrow> sz < 2 ^ 16 \<Longrightarrow>
    rl_step decode s (s\<lparr>rl_sender := rl_SetMaxDatagramSize sz (rl_sender s)\<rparr>)"
| sent: "0 \<le> t \<Longrightarrow> 0 \<le> bytes \<Longrightarrow>
    rl_step decode s (s\<lparr>rl_sender := rl_OnPacketSent K t infl n bytes rt (rl_sender s)\<rparr>)"

lemmas mq_defs = mq_ListenAction_def mq_sendAction_def mq_put_def mq_readAction_def mq_GetActionCh_def

subsection \<open>Invariants of the reachable states\<close>

definition rl_inv :: "rl_system \<Rightarrow> bool" where
  "rl_inv s \<longleftrightarrow>
     (rl_cwnd (rl_sender s) < 0 \<longrightarrow> rl_applier s = Stored) \<and> length (actionCh (mqManager (rl_sender s))) \<le> 1 \<and>
     0 < rl_maxDatagramSize (rl_sender s) \<and> rl_maxDatagramSize (rl_sender s) < 2 ^ 16 \<and>
     p_maxDatagramSize (rl_pacer (rl_sender s)) = rl_maxDatagramSize (rl_sender s) \<and>
     0 \<le> budgetAtLastSent (rl_pacer (rl_sender s)) \<and> budgetAtLastSent (rl_pacer (rl_sender s)) < 2 ^ 61 \<and>
     0 \<le> p_lastSentTime (rl_pacer (rl_sender s))"

lemma rl_start_inv: "consts_ok K \<Longrightarrow> rl_inv (rl_start K rnd)"
  by (simp add: rl_inv_def rl_start_def NewRLSender_def NewQuicMqManager_def NewPacer_def
      initialCongestionWindow_rl_def consts_ok_def pacer_maxBurstPackets_def time_zero_def)

lemma rl_storeAction_keeps [simp]:
  "mqManager (rl_storeAction a b) = mqManager b" "rl_pacer (rl_storeAction a b) = rl_pacer b"
  "rl_maxDatagramSize (rl_storeAction a b) = rl_maxDatagramSize b"
  by (simp_all add: rl_storeAction_def)

lemma rl_guardCwnd_keeps [simp]:
  "mqManager (rl_guardCwnd b) = mqManager b" "rl_pacer (rl_guardCwnd b) = rl_pacer b"
  "rl_maxDatagramSize (rl_guardCwnd b) = rl_maxDatagramSize b" "\<not> rl_cwnd (rl_guardCwnd b) < 0"
  by (simp_all add: rl_guardCwnd_def)

lemma rl_step_inv: "rl_step decode s s' \<Longrightarrow> rl_inv s \<Longrightarrow> rl_inv s'"
proof (induction rule: rl_step.induct)
  case (sent t bytes s K infl n rt)
  with pacer_SentPacket_range [of "rl_pacer (rl_sender s)" bytes K "rl_bandwidth (rl_sender s)" t]
  show ?case by (simp add: rl_inv_def rl_OnPacketSent_def)
qed (auto simp: rl_inv_def mq_defs rl_publish_def mq_PublishState_def mq_nextSeq_def
      rl_SetRTTStatsProvider_def rl_SetMaxDatagramSize_def pacer_SetMaxDatagramSize_def
      Let_def split: if_splits mq_event.splits option.splits prod.splits)

lemma rl_reachable_inv: "(rl_step decode)\<^sup>*\<^sup>* s s' \<Longrightarrow> rl_inv s \<Longrightarrow> rl_inv s'"
  by (induction rule: rtranclp_induct) (auto intro: rl_step_inv)

text \<open>
  The sender as the send loop sees it, in a state of the invariant: it keeps the contract as long as the actions have
  not taken its window to zero.
\<close>

definition rl_paced :: "congestion_consts \<Rightarrow> rl_system \<Rightarrow> bool" where
  "rl_paced K s \<longleftrightarrow> consts_ok K \<and> rl_inv s \<and> 0 < rl_cwnd (rl_sender s) \<and> rl_cwnd (rl_sender s) \<le> 2 ^ 40"

interpretation rl_sender: send_algorithm "rl_paced K" "\<lambda>s. rl_GetCongestionWindow (rl_sender s)"
  "\<lambda>n s. rl_CanSend n (rl_sender s)" "\<lambda>s. rl_TimeUntilSend K (rl_sender s)"
  "\<lambda>now s. rl_HasPacingBudget K now (rl_sender s)"
  "\<lambda>now s. pacer_calm (rl_bandwidth (rl_sender s)) now (rl_pacer (rl_sender s))" for K
proof unfold_locales
  show "rl_CanSend n (rl_sender s) = (n < rl_GetCongestionWindow (rl_sender s))" for n s
    by (simp add: rl_CanSend_def)
  show "0 < rl_GetCongestionWindow (rl_sender s)" if "rl_paced K s" for s
    using that by (simp add: rl_paced_def rl_GetCongestionWindow_def)
  fix s :: rl_system and now
  let ?p = "rl_pacer (rl_sender s)" and ?bw = "rl_bandwidth (rl_sender s)"
  assume s: "rl_paced K s" and now: "pacer_calm ?bw now ?p" "rl_TimeUntilSend K (rl_sender s) \<le> now"
  have "pacer_ok ?bw ?p" using s by (simp add: rl_paced_def rl_inv_def pacer_ok_def rl_bandwidth_def)
  with s now show "rl_HasPacingBudget K now (rl_sender s)"
    using pacer_ready_after [of K ?bw ?p now]
    by (simp add: rl_HasPacingBudget_def rl_TimeUntilSend_def rl_paced_def rl_inv_def)
qed

text \<open>The published sequence numbers: consecutive, as long as the counter does not overflow.\<close>

definition rl_seq_inv :: "int \<Rightarrow> rl_system \<Rightarrow> bool" where
  "rl_seq_inv rnd s \<longleftrightarrow>
     map sm_Seq (rl_published s) = map (\<lambda>i. rnd + 1 + int i) [0..<length (rl_published s)] \<and>
     mq_seq (mqManager (rl_sender s)) = rnd + int (length (rl_published s))"

lemma rl_publish_published:
  "\<exists>m. rl_published (rl_publish msg s) = rl_published s @ [m] \<and>
     sm_Seq m = i64 (mq_seq (mqManager (rl_sender s)) + 1) \<and>
     mq_seq (mqManager (rl_sender (rl_publish msg s))) = sm_Seq m"
  by (simp add: rl_publish_def mq_PublishState_def mq_nextSeq_def Let_def)

lemma rl_seq_publish:
  assumes "rl_seq_inv rnd s" "0 \<le> rnd" "rnd + int (length (rl_published s)) < 2 ^ 62"
  shows "rl_seq_inv rnd (rl_publish msg s)"
proof -
  obtain m where m: "rl_published (rl_publish msg s) = rl_published s @ [m]"
    "sm_Seq m = i64 (mq_seq (mqManager (rl_sender s)) + 1)"
    "mq_seq (mqManager (rl_sender (rl_publish msg s))) = sm_Seq m"
    using rl_publish_published by blast
  have eq: "sm_Seq m = rnd + int (length (rl_published s)) + 1"
    using assms m(2) by (simp add: rl_seq_inv_def)
  have hist: "map sm_Seq (rl_published s) = map (\<lambda>i. rnd + 1 + int i) [0..<length (rl_published s)]"
    using assms(1) by (simp add: rl_seq_inv_def)
  show ?thesis unfolding rl_seq_inv_def m(1,3) map_append hist by (simp add: eq)
qed

lemma rl_step_seq:
  "rl_step decode s s' \<Longrightarrow> rl_seq_inv rnd s \<Longrightarrow> 0 \<le> rnd \<Longrightarrow> rnd + int (length (rl_published s)) < 2 ^ 62 \<Longrightarrow>
   rl_seq_inv rnd s' \<and> length (rl_published s) \<le> length (rl_published s')"
proof (induction rule: rl_step.induct)
  case (publish s msg)
  then have "rl_seq_inv rnd (rl_publish msg s)" by (intro rl_seq_publish)
  moreover have "length (rl_published s) \<le> length (rl_published (rl_publish msg s))"
    using rl_publish_published [of msg s] by (metis length_append le_add1)
  ultimately show ?case by simp
qed (auto simp: rl_seq_inv_def mq_defs rl_SetRTTStatsProvider_def
    rl_SetMaxDatagramSize_def rl_OnPacketSent_def split: if_splits mq_event.splits option.splits prod.splits)

lemma rl_reachable_seq:
  assumes "(rl_step decode)\<^sup>*\<^sup>* s s'" "rl_seq_inv rnd s" "0 \<le> rnd"
    "rnd + int (length (rl_published s')) < 2 ^ 62"
  shows "rl_seq_inv rnd s' \<and> length (rl_published s) \<le> length (rl_published s')"
  using assms(1,4)
proof (induction rule: rtranclp_induct)
  case base
  then show ?case using assms(2) by simp
next
  case (step y z)
  have mono: "length (rl_published y) \<le> length (rl_published z)"
    using step.hyps(2)
    by (cases rule: rl_step.cases) (auto simp: rl_publish_def mq_PublishState_def mq_nextSeq_def Let_def)
  then have "rl_seq_inv rnd y \<and> length (rl_published s) \<le> length (rl_published y)"
    using step.IH step.prems by linarith
  with rl_step_seq [OF step.hyps(2), of rnd] assms(3) mono step.prems show ?case by linarith
qed

subsection \<open>Properties\<close>

text \<open>
  C35: in every reachable state, whatever messages arrive and however the goroutines interleave with the calls of the
  connection, the window is negative only while the goroutine that applies the actions is between its store and its
  guard, the action channel holds at most one action, and the pacer and the sender agree on the datagram size.
\<close>

theorem rl_reachable_ok:
  assumes "consts_ok K" "(rl_step decode)\<^sup>*\<^sup>* (rl_start K rnd) s"
  shows "(rl_GetCongestionWindow (rl_sender s) < 0 \<longrightarrow> rl_applier s = Stored) \<and>
    length (actionCh (mqManager (rl_sender s))) \<le> 1 \<and>
    p_maxDatagramSize (rl_pacer (rl_sender s)) = rl_maxDatagramSize (rl_sender s)"
  using rl_reachable_inv [OF assms(2) rl_start_inv [OF assms(1)]]
  by (simp add: rl_inv_def rl_GetCongestionWindow_def)

lemma rl_reachable_ok_witness:
  "\<not> rl_GetCongestionWindow (rl_sender (rl_start quic_go_consts 4)) < 0 \<and>
   length (actionCh (mqManager (rl_sender (rl_start quic_go_consts 4)))) \<le> 1 \<and>
   p_maxDatagramSize (rl_pacer (rl_sender (rl_start quic_go_consts 4))) = rl_maxDatagramSize (rl_sender (rl_start quic_go_consts 4))"
proof -
  have "rl_applier (rl_start quic_go_consts 4) \<noteq> Stored" by (simp add: rl_start_def)
  then show ?thesis
    using rl_reachable_ok [of quic_go_consts "\<lambda>_. None" 4 "rl_start quic_go_consts 4"] by simp
qed

text \<open>
  The published states carry consecutive sequence numbers, starting one past the random initial number,
  until the counter would overflow.
\<close>

lemma rl_published_seq:
  assumes "(rl_step decode)\<^sup>*\<^sup>* (rl_start K rnd) s" "0 \<le> rnd" "rnd + int (length (rl_published s)) < 2 ^ 62"
  shows "map sm_Seq (rl_published s) = map (\<lambda>i. rnd + 1 + int i) [0..<length (rl_published s)]"
proof -
  have "rl_seq_inv rnd (rl_start K rnd)"
    by (simp add: rl_seq_inv_def rl_start_def NewRLSender_def NewQuicMqManager_def)
  with rl_reachable_seq [OF assms(1) _ assms(2,3)] show ?thesis by (simp add: rl_seq_inv_def)
qed

lemma rl_published_seq_witness:
  "\<exists>s :: rl_system. length (rl_published s) = 1 \<and>
     map sm_Seq (rl_published s) = map (\<lambda>i. 4 + 1 + int i) [0..<length (rl_published s)]"
proof -
  let ?r = "(rl_start quic_go_consts 4)\<lparr>rl_outgoing := Some rl_finMsg, rl_publishing := False\<rparr>"
  let ?s = "rl_publish rl_finMsg ?r"
  have "rl_step (\<lambda>_. None) (rl_start quic_go_consts 4) ?r" by (rule read_fin) (simp_all add: rl_start_def)
  moreover have "rl_step (\<lambda>_. None) ?r ?s" by (rule publish) simp
  ultimately have reach: "(rl_step (\<lambda>_. None))\<^sup>*\<^sup>* (rl_start quic_go_consts 4) ?s"
    by (auto intro: converse_rtranclp_into_rtranclp)
  have "length (rl_published ?s) = 1" by code_simp
  moreover from this have "map sm_Seq (rl_published ?s) = map (\<lambda>i. 4 + 1 + int i) [0..<length (rl_published ?s)]"
    by (intro rl_published_seq [OF reach]) simp_all
  ultimately show ?thesis by - (rule exI [of _ ?s], rule conjI)
qed

text \<open>
  C39: when the learned sender does not stall: in every reachable state of the sender and its goroutines with a
  window that is positive and at most \<open>2 ^ 40\<close> bytes, with nothing in flight, it may send and has the pacing budget
  for a datagram when it is asked at or after \<open>TimeUntilSend\<close>, provided that the pacer has not been idle for so long
  that its budget overflows (\<open>pacer_calm\<close>: nothing has been sent yet; or the last packet was not sent in the future, and the time since
  is below \<open>2 ^ 63\<close> nanoseconds and, multiplied by the window, below \<open>2 ^ 62\<close>).
\<close>

theorem rl_not_stuck:
  assumes "consts_ok K" "(rl_step decode)\<^sup>*\<^sup>* (rl_start K rnd) s"
    and "0 < rl_GetCongestionWindow (rl_sender s)" "rl_GetCongestionWindow (rl_sender s) \<le> 2 ^ 40"
    and "pacer_calm (rl_bandwidth (rl_sender s)) now (rl_pacer (rl_sender s))"
    and "rl_TimeUntilSend K (rl_sender s) \<le> now"
  shows "rl_CanSend 0 (rl_sender s) \<and> rl_HasPacingBudget K now (rl_sender s)"
proof (rule rl_sender.idle_sender_not_stuck [OF _ assms(5,6)])
  show "rl_paced K s"
    using rl_reachable_inv [OF assms(2) rl_start_inv [OF assms(1)]] assms(1,3,4)
    by (simp add: rl_paced_def rl_GetCongestionWindow_def)
qed

lemma rl_not_stuck_witness:
  "rl_CanSend 0 (rl_OnPacketSent quic_go_consts 5000 0 1 1252 True (NewRLSender quic_go_consts 4)) \<and>
   rl_HasPacingBudget quic_go_consts 6000 (rl_OnPacketSent quic_go_consts 5000 0 1 1252 True (NewRLSender quic_go_consts 4))"
proof -
  let ?s = "(rl_start quic_go_consts 4)\<lparr>rl_sender :=
    rl_OnPacketSent quic_go_consts 5000 0 1 1252 True (NewRLSender quic_go_consts 4)\<rparr>"
  have "rl_step (\<lambda>_. None) (rl_start quic_go_consts 4) ?s"
    using sent [of 5000 1252 "\<lambda>_. None" "rl_start quic_go_consts 4" quic_go_consts 0 1 True]
    by (simp add: rl_start_def)
  then have reach: "(rl_step (\<lambda>_. None))\<^sup>*\<^sup>* (rl_start quic_go_consts 4) ?s" by blast
  have "rl_CanSend 0 (rl_sender ?s) \<and> rl_HasPacingBudget quic_go_consts 6000 (rl_sender ?s)"
    by (rule rl_not_stuck [OF _ reach]) (simp, code_simp+)
  then show ?thesis by simp
qed

text \<open>
  The three goroutines at rest: no message waits, no action is under way.  An action that arrives then is applied.
\<close>

definition rl_quiet :: "rl_system \<Rightarrow> bool" where
  "rl_quiet s \<longleftrightarrow> rl_blocked s = None \<and> rl_applier s = AtChannel \<and> actionCh (mqManager (rl_sender s)) = []"

lemma rl_store_steps:
  assumes "rl_listening s" "rl_quiet s" "decode payload = Some a" "mq_seq (mqManager (rl_sender s)) \<le> am_Seq a"
  shows "(rl_step decode)\<^sup>*\<^sup>* s (s\<lparr>rl_sender := rl_storeAction a (rl_sender s), rl_applier := Stored\<rparr>)"
proof -
  let ?q = "mqManager (rl_sender s)"
  let ?s = "s\<lparr>rl_sender := (rl_sender s)\<lparr>mqManager := ?q\<lparr>actionCh := [a]\<rparr>\<rparr>\<rparr>"
  let ?r = "s\<lparr>rl_applier := Received a\<rparr>"
  have "rl_step decode s ?s"
    using assms listen [of s decode "RedisMessage payload" True "?q\<lparr>actionCh := [a]\<rparr>" None]
    by (cases s) (simp add: mq_defs rl_quiet_def)
  moreover have "(rl_sender s)\<lparr>mqManager := ?q\<lparr>actionCh := []\<rparr>\<rparr> = rl_sender s"
    using assms(2) by (simp add: rl_quiet_def)
  then have "s\<lparr>rl_sender := (rl_sender s)\<lparr>mqManager := ?q\<lparr>actionCh := []\<rparr>\<rparr>, rl_applier := Received a\<rparr> = ?r"
    by simp
  then have "rl_step decode ?s ?r"
    using assms(2) receive [of ?s a "[]" decode] by (simp add: mq_defs rl_quiet_def)
  moreover have "rl_step decode ?r (?r\<lparr>rl_sender := rl_storeAction a (rl_sender ?r), rl_applier := Stored\<rparr>)"
    by (rule store) simp
  ultimately show ?thesis by (auto intro: converse_rtranclp_into_rtranclp)
qed

lemma rl_action_steps:
  assumes "rl_listening s" "rl_quiet s" "decode payload = Some a" "mq_seq (mqManager (rl_sender s)) \<le> am_Seq a"
  shows "(rl_step decode)\<^sup>*\<^sup>* s (s\<lparr>rl_sender := rl_guardCwnd (rl_storeAction a (rl_sender s))\<rparr>)"
proof -
  let ?s = "s\<lparr>rl_sender := rl_storeAction a (rl_sender s), rl_applier := Stored\<rparr>"
  have "rl_step decode ?s (?s\<lparr>rl_sender := rl_guardCwnd (rl_sender ?s), rl_applier := AtChannel\<rparr>)"
    by (rule guard) simp
  moreover have "?s\<lparr>rl_sender := rl_guardCwnd (rl_sender ?s), rl_applier := AtChannel\<rparr> =
      s\<lparr>rl_sender := rl_guardCwnd (rl_storeAction a (rl_sender s))\<rparr>"
    using assms(2) by (cases s) (simp add: rl_quiet_def)
  ultimately show ?thesis using rl_store_steps [of s decode payload a, OF assms] by (metis rtranclp.rtrancl_into_rtrancl)
qed

text \<open>The state after the start with the window changed to \<open>c\<close>, and that the agent can take it to zero.\<close>

definition rl_at :: "congestion_consts \<Rightarrow> int \<Rightarrow> int \<Rightarrow> rl_system" where
  "rl_at K rnd c = (rl_start K rnd)\<lparr>rl_sender := (NewRLSender K rnd)\<lparr>rl_cwnd := c\<rparr>\<rparr>"

lemma rl_at_ready:
  "rl_listening (rl_at K rnd c)" "rl_quiet (rl_at K rnd c)" "mq_seq (mqManager (rl_sender (rl_at K rnd c))) = rnd"
  "rl_cwnd (rl_sender (rl_at K rnd c)) = c" "rl_maxDatagramSize (rl_sender (rl_at K rnd c)) = InitialPacketSizeIPv4 K"
  by (simp_all add: rl_at_def rl_start_def rl_quiet_def NewRLSender_def NewQuicMqManager_def)

lemma rl_at_down:
  assumes "decode payload = Some a" "actionMap (am_Action a) = - d" "rnd \<le> am_Seq a" "consts_ok K"
    and "d * InitialPacketSizeIPv4 K \<le> c" "c \<le> 20 * InitialPacketSizeIPv4 K" "0 \<le> d" "d \<le> 3"
  shows "(rl_step decode)\<^sup>*\<^sup>* (rl_at K rnd c) (rl_at K rnd (c - d * InitialPacketSizeIPv4 K))"
proof -
  let ?p = "InitialPacketSizeIPv4 K"
  have p: "0 \<le> ?p" "?p < 2 ^ 16" using assms(4) by (simp_all add: consts_ok_def)
  then have "d * ?p \<le> 3 * 2 ^ 16" "0 \<le> d * ?p" using assms(7,8) by (intro mult_mono, auto)
  then have "rl_guardCwnd (rl_storeAction a (rl_sender (rl_at K rnd c))) = rl_sender (rl_at K rnd (c - d * ?p))"
    using p assms(2,5,6) by (simp add: rl_storeAction_def rl_guardCwnd_def rl_at_def NewRLSender_def)
  then show ?thesis
    using rl_action_steps [of "rl_at K rnd c" decode payload a] assms(1,3) rl_at_ready [of K rnd c]
    by (simp add: rl_at_def)
qed

lemma rl_at_zero_reachable:
  assumes "decode slower = Some \<lparr>am_Seq = n, am_Action = 0\<rparr>" "decode slow = Some \<lparr>am_Seq = n, am_Action = 1\<rparr>"
    "rnd \<le> n" "consts_ok K"
  shows "(rl_step decode)\<^sup>*\<^sup>* (rl_start K rnd) (rl_at K rnd 0)"
proof -
  let ?p = "InitialPacketSizeIPv4 K"
  have p: "0 \<le> ?p" using assms(4) by (simp add: consts_ok_def)
  have three: "(rl_step decode)\<^sup>*\<^sup>* (rl_at K rnd c) (rl_at K rnd (c - 3 * ?p))" if "3 * ?p \<le> c" "c \<le> 20 * ?p" for c
    using rl_at_down [of decode slower _ 3 rnd K c, OF assms(1)] assms(3,4) that by (simp add: actionMap_def)
  have one: "(rl_step decode)\<^sup>*\<^sup>* (rl_at K rnd c) (rl_at K rnd (c - ?p))" if "?p \<le> c" "c \<le> 20 * ?p" for c
    using rl_at_down [of decode slow _ 1 rnd K c, OF assms(2)] assms(3,4) that by (simp add: actionMap_def)
  have "rl_start K rnd = rl_at K rnd (20 * ?p)"
    by (simp add: rl_at_def rl_start_def NewRLSender_def initialCongestionWindow_rl_def)
  moreover have "(rl_step decode)\<^sup>*\<^sup>* (rl_at K rnd (20 * ?p)) (rl_at K rnd 0)"
    using three [of "20 * ?p"] three [of "17 * ?p"] three [of "14 * ?p"] three [of "11 * ?p"] three [of "8 * ?p"]
      three [of "5 * ?p"] one [of "2 * ?p"] one [of ?p] p
    by (simp add: algebra_simps)
  ultimately show ?thesis by simp
qed

text \<open>Without another message that decodes, nothing changes the window any more.\<close>

definition rl_window_closed :: "rl_system \<Rightarrow> bool" where
  "rl_window_closed s \<longleftrightarrow> rl_quiet s \<and> rl_cwnd (rl_sender s) = 0"

lemma rl_step_closed: "rl_step (\<lambda>_. None) s s' \<Longrightarrow> rl_window_closed s \<Longrightarrow> rl_window_closed s'"
  by (induction rule: rl_step.induct)
    (auto simp: rl_window_closed_def rl_quiet_def mq_defs rl_publish_def mq_PublishState_def mq_nextSeq_def Let_def
      rl_SetRTTStatsProvider_def rl_SetMaxDatagramSize_def rl_OnPacketSent_def split: mq_event.splits)

lemma rl_reachable_closed: "(rl_step (\<lambda>_. None))\<^sup>*\<^sup>* s s' \<Longrightarrow> rl_window_closed s \<Longrightarrow> rl_window_closed s'"
  by (induction rule: rtranclp_induct) (auto intro: rl_step_closed)

text \<open>
  C36: the agent can take the window of the learned sender to zero, and from there the sender sends nothing, however
  idle the connection is, in every state that is reached without another message that decodes to an action: the guard after an action resets a
  negative window only, and only an action changes the window.
\<close>

theorem rl_window_zero_reachable:
  assumes "decode slower = Some \<lparr>am_Seq = n, am_Action = 0\<rparr>" "decode slow = Some \<lparr>am_Seq = n, am_Action = 1\<rparr>"
    "rnd \<le> n" "consts_ok K"
  shows "\<exists>s. (rl_step decode)\<^sup>*\<^sup>* (rl_start K rnd) s \<and> rl_GetCongestionWindow (rl_sender s) = 0 \<and>
    (\<forall>s' m. (rl_step (\<lambda>_. None))\<^sup>*\<^sup>* s s' \<and> 0 \<le> m \<longrightarrow> \<not> rl_CanSend m (rl_sender s'))"
proof (intro exI conjI)
  show "(rl_step decode)\<^sup>*\<^sup>* (rl_start K rnd) (rl_at K rnd 0)" by (rule rl_at_zero_reachable [OF assms])
  show "rl_GetCongestionWindow (rl_sender (rl_at K rnd 0)) = 0" by (simp add: rl_GetCongestionWindow_def rl_at_ready)
  have "rl_window_closed (rl_at K rnd 0)" by (simp add: rl_window_closed_def rl_at_ready)
  then show "\<forall>s' m. (rl_step (\<lambda>_. None))\<^sup>*\<^sup>* (rl_at K rnd 0) s' \<and> 0 \<le> m \<longrightarrow> \<not> rl_CanSend m (rl_sender s')"
    using rl_reachable_closed by (fastforce simp: rl_window_closed_def rl_CanSend_def rl_GetCongestionWindow_def)
qed

lemma rl_window_zero_reachable_witness:
  "\<exists>s. (rl_step (\<lambda>p. Some \<lparr>am_Seq = 9, am_Action = int (length p)\<rparr>))\<^sup>*\<^sup>* (rl_start quic_go_consts 4) s \<and>
    rl_GetCongestionWindow (rl_sender s) = 0 \<and>
    (\<forall>s' m. (rl_step (\<lambda>_. None))\<^sup>*\<^sup>* s s' \<and> 0 \<le> m \<longrightarrow> \<not> rl_CanSend m (rl_sender s'))"
  by (rule rl_window_zero_reachable [where n = 9 and slower = "[]" and slow = "[CHR 0x61]"]) simp_all

text \<open>The same agent makes a negative window visible to the connection: the store is not yet guarded.\<close>

lemma rl_negative_window_visible:
  assumes "decode slower = Some \<lparr>am_Seq = n, am_Action = 0\<rparr>" "decode slow = Some \<lparr>am_Seq = n, am_Action = 1\<rparr>"
    "rnd \<le> n" "consts_ok K"
  shows "\<exists>s. (rl_step decode)\<^sup>*\<^sup>* (rl_start K rnd) s \<and>
    rl_GetCongestionWindow (rl_sender s) = - 3 * InitialPacketSizeIPv4 K"
proof (intro exI conjI)
  let ?s = "(rl_at K rnd 0)\<lparr>rl_sender := rl_storeAction \<lparr>am_Seq = n, am_Action = 0\<rparr> (rl_sender (rl_at K rnd 0)), rl_applier := Stored\<rparr>"
  have "(rl_step decode)\<^sup>*\<^sup>* (rl_at K rnd 0) ?s"
    using assms(3) by (intro rl_store_steps [of _ decode slower, OF _ _ assms(1)]) (simp_all add: rl_at_ready)
  with rl_at_zero_reachable [OF assms] show "(rl_step decode)\<^sup>*\<^sup>* (rl_start K rnd) ?s" by simp
  show "rl_GetCongestionWindow (rl_sender ?s) = - 3 * InitialPacketSizeIPv4 K"
    using assms(4) by (simp add: rl_GetCongestionWindow_def rl_storeAction_def rl_at_ready actionMap_def consts_ok_def)
qed

end
