(* ===== verification/CubicRuns.thy ===== *)
theory CubicRuns
  imports Cubic
begin

text \<open>
  Runs of the cubic sender.  The window passes through single-precision arithmetic (the multiplicative cut,
  the Reno estimate) and through a cubic polynomial that may wrap around; \<open>cubic_loss_bounds\<close> and
  \<open>cubic_ack_bounds\<close> bound both, the invariant \<open>cs_ok\<close> carries the bounds through every call, and
  \<open>cubic_window_bounds\<close> states them of any run.  \<open>cubic_one_cut\<close> is the single reduction per window of
  losses.
\<close>

subsection \<open>Rounding\<close>

lemma fl_upper: "0 \<le> x \<Longrightarrow> fl p x \<le> x * (1 + 1 / 2 ^ p)"
  using fl_error [of p x] by (simp add: abs_le_iff algebra_simps)

text \<open>A product with a factor that stays below \<open>3 / 4\<close> under two rounding errors.\<close>

lemma fl_fl_mult_le:
  assumes "0 \<le> x" "0 \<le> b" "b * ((1 + 1 / 2 ^ p) * (1 + 1 / 2 ^ p)) \<le> 3 / 4"
  shows "fl p (fl p x * b) \<le> x * (3 / 4)" "0 \<le> fl p (fl p x * b)"
proof -
  let ?u = "1 + 1 / 2 ^ p :: rat"
  have u: "0 < ?u" by (simp add: add_pos_pos)
  have y: "0 \<le> fl p x * b" using assms by (simp add: fl_nonneg)
  have "fl p (fl p x * b) \<le> fl p x * b * ?u" using y by (rule fl_upper)
  also have "\<dots> \<le> x * ?u * b * ?u"
    using fl_upper [OF assms(1), of p] assms(2) u by (intro mult_right_mono) simp_all
  also have "\<dots> = x * (b * (?u * ?u))" by (simp only: mult.commute mult.left_commute)
  also have "\<dots> \<le> x * (3 / 4)" using assms by (intro mult_left_mono) simp_all
  finally show "fl p (fl p x * b) \<le> x * (3 / 4)" .
  show "0 \<le> fl p (fl p x * b)" using y by (rule fl_nonneg)
qed

lemma f64_to_i64_bounds:
  assumes "0 \<le> x" "x \<le> of_int n" "n < 2 ^ 63"
  shows "0 \<le> f64_to_i64 x" "f64_to_i64 x \<le> n"
proof -
  have t: "0 \<le> rat_trunc x" "rat_trunc x \<le> n"
    using assms floor_mono [of x "of_int n"] by (simp_all add: rat_trunc_def)
  with assms(3) have "in_i64 (rat_trunc x)" by linarith
  then have "f64_to_i64 x = rat_trunc x" unfolding f64_to_i64_def by (rule if_P)
  with t show "0 \<le> f64_to_i64 x" "f64_to_i64 x \<le> n" by simp_all
qed

lemma cut_bounds:
  assumes "0 \<le> w" "w < 2 ^ 63" "0 \<le> b" "b * ((1 + 1 / 2 ^ p) * (1 + 1 / 2 ^ p)) \<le> 3 / 4"
  shows "0 \<le> f64_to_i64 (fl p (fl p (of_int w) * b))" "4 * f64_to_i64 (fl p (fl p (of_int w) * b)) \<le> 3 * w"
proof -
  let ?x = "fl p (fl p (of_int w) * b)"
  have x: "?x \<le> of_int w * (3 / 4)" "0 \<le> ?x" using fl_fl_mult_le [of "of_int w" b p] assms by simp_all
  then have "?x \<le> of_int w" using assms(1) by (simp add: mult_left_le order_trans)
  then have n: "0 \<le> \<lfloor>?x\<rfloor>" "\<lfloor>?x\<rfloor> \<le> w" using x(2) floor_mono [of ?x "of_int w"] by simp_all
  with assms(2) have "in_i64 \<lfloor>?x\<rfloor>" by linarith
  then have t: "f64_to_i64 ?x = \<lfloor>?x\<rfloor>" using x(2) unfolding f64_to_i64_def rat_trunc_def by (simp only: if_True simp_thms)
  with n show "0 \<le> f64_to_i64 ?x" by simp
  have "of_int \<lfloor>?x\<rfloor> \<le> ?x" by simp
  then have "4 * of_int \<lfloor>?x\<rfloor> \<le> 3 * (of_int w :: rat)" using x(1) by linarith
  then have "(of_int (4 * \<lfloor>?x\<rfloor>) :: rat) \<le> of_int (3 * w)" by simp
  then show "4 * f64_to_i64 ?x \<le> 3 * w" unfolding t of_int_le_iff .
qed

subsection \<open>The window function with one connection\<close>

lemma one_connection:
  assumes "numConnections c = 1"
  shows "cubic_beta c = 11744051 / 16777216" "cubic_alpha c = 1110257 / 2097152"
proof -
  have 1: "numConnections NewCubic = 1" by (simp add: NewCubic_def cubic_Reset_def defaultNumConnections_def)
  have "cubic_beta c = cubic_beta NewCubic" by (simp only: cubic_beta_def assms 1)
  also have "\<dots> = 11744051 / 16777216" by code_simp
  finally show "cubic_beta c = 11744051 / 16777216" .
  have "cubic_alpha c = cubic_alpha NewCubic" by (simp only: cubic_alpha_def cubic_beta_def assms 1)
  also have "\<dots> = 1110257 / 2097152" by code_simp
  finally show "cubic_alpha c = 1110257 / 2097152" .
qed

lemma cubic_loss_bounds:
  assumes "numConnections c = 1" "0 \<le> w" "w < 2 ^ 63"
  shows "0 \<le> fst (cubic_CongestionWindowAfterPacketLoss w c)" "4 * fst (cubic_CongestionWindowAfterPacketLoss w c) \<le> 3 * w"
    "epoch (snd (cubic_CongestionWindowAfterPacketLoss w c)) = time_zero"
    "numConnections (snd (cubic_CongestionWindowAfterPacketLoss w c)) = 1"
    "ackedBytesCount (snd (cubic_CongestionWindowAfterPacketLoss w c)) = ackedBytesCount c"
proof -
  have "0 \<le> f32_to_i64 (f32_mul (f32_of_int w) (cubic_beta d))" 
    "4 * f32_to_i64 (f32_mul (f32_of_int w) (cubic_beta d)) \<le> 3 * w"
    if "numConnections d = 1" for d
    using cut_bounds [of w "11744051 / 16777216" 24] assms(2,3)
    by (simp_all add: f32_to_i64_def f32_mul_def f32_of_int_def one_connection that)
  then show "0 \<le> fst (cubic_CongestionWindowAfterPacketLoss w c)" "4 * fst (cubic_CongestionWindowAfterPacketLoss w c) \<le> 3 * w"
    using assms(1) by (simp_all add: cubic_CongestionWindowAfterPacketLoss_def Let_def)
qed (use assms in \<open>simp_all add: cubic_CongestionWindowAfterPacketLoss_def Let_def\<close>)

text \<open>The growth of the Reno estimate at one acknowledgement.\<close>

lemma reno_growth_bounds:
  assumes "0 \<le> a" "a \<le> 2 ^ 16" "0 \<le> \<alpha>" "\<alpha> \<le> 1" "2 \<le> e"
  defines "x \<equiv> f32_div (f32_mul (f32_mul (f32_of_int a) \<alpha>) (f32_of_int cubic_maxDatagramSize)) (f32_of_int e)"
  shows "0 \<le> x" "x \<le> 2 ^ 27"
proof -
  let ?m = "f32_mul (f32_mul (f32_of_int a) \<alpha>) (f32_of_int cubic_maxDatagramSize)"
  have a: "f32_of_int a = of_int a" using assms by (simp add: f32_of_int_def fl_of_int)
  have d: "f32_of_int cubic_maxDatagramSize = 1252"
    using fl_of_int [of 1252 24] by (simp add: f32_of_int_def cubic_maxDatagramSize_def)
  have "(of_int a :: rat) \<le> of_int (2 ^ 16)" using assms(2) by (simp only: of_int_le_iff)
  then have "of_int a * \<alpha> \<le> 2 ^ 16 * 1" using assms by (intro mult_mono) simp_all
  then have m1: "f32_mul (f32_of_int a) \<alpha> \<le> 2 powi 16" "0 \<le> f32_mul (f32_of_int a) \<alpha>"
    using fl_le_powi [of "of_int a * \<alpha>" 16 24] fl_nonneg [of "of_int a * \<alpha>" 24] assms by (simp_all add: f32_mul_def a)
  then have "f32_mul (f32_of_int a) \<alpha> * 1252 \<le> 2 powi 27" by simp
  then have m: "?m \<le> 2 powi 27" "0 \<le> ?m"
    using fl_le_powi [of "f32_mul (f32_of_int a) \<alpha> * 1252" 27 24]
      fl_nonneg [of "f32_mul (f32_of_int a) \<alpha> * 1252" 24] m1
    unfolding f32_mul_def [of "f32_mul (f32_of_int a) \<alpha>"] d by simp_all
  have "(2 powi 1 :: rat) \<le> of_int e" using assms(5) by simp
  then have e: "2 \<le> f32_of_int e" using fl_ge_powi [of 1 "of_int e" 24] by (simp add: f32_of_int_def)
  then have q: "?m / f32_of_int e \<le> 2 powi 27" "0 \<le> ?m / f32_of_int e"
    using m by (simp_all add: divide_le_eq)
  show "0 \<le> x" "x \<le> 2 ^ 27"
    using fl_nonneg [OF q(2), of 24] fl_le_powi [OF q(2,1), of 24] e by (simp_all add: x_def f32_div_def)
qed

lemma min_max_window: "(if t < (e :: int) then e else t) = max t e"
  by simp

text \<open>
  One acknowledgement: the Reno estimate \<open>e\<close> grows by at most \<open>2 ^ 27\<close> bytes, and the new window lies between
  it and the larger of it and the old window plus half of the acknowledged bytes, whatever the cubic polynomial
  and the cube root give.
\<close>

lemma cubic_ack_bounds:
  assumes "numConnections c = 1" "ackedBytesCount c = 0" "0 \<le> a" "a \<le> 2 ^ 16"
    and "0 \<le> w" "w < 2 ^ 50"
    and e: "e = (if epoch c = time_zero then w else estimatedTCPcongestionWindow c)" "2 \<le> e" "e < 2 ^ 50"
    and r: "cubic_CongestionWindowAfterAck cbrt a w dmin t c = (w', c')"
  shows "e \<le> estimatedTCPcongestionWindow c'" "estimatedTCPcongestionWindow c' \<le> e + 2 ^ 27"
    "estimatedTCPcongestionWindow c' \<le> w'" "w' \<le> max (w + a div 2) (estimatedTCPcongestionWindow c')"
    "numConnections c' = 1" "ackedBytesCount c' = 0"
proof -
  define c0 where "c0 = c\<lparr>ackedBytesCount := i64 (ackedBytesCount c + a)\<rparr>"
  define c1 where "c1 = (if time_IsZero (epoch c0) then cubic_startEpoch cbrt a w t c0 else c0)"
  have c1: "numConnections c1 = 1" "ackedBytesCount c1 = a" "estimatedTCPcongestionWindow c1 = e"
    using assms(1-4) e by (simp_all add: c1_def c0_def cubic_startEpoch_def Let_def time_IsZero_def)
  define x where "x = f32_div (f32_mul (f32_mul (f32_of_int a) (cubic_alpha c1)) (f32_of_int cubic_maxDatagramSize))
    (f32_of_int e)"
  have al: "0 \<le> cubic_alpha c1" "cubic_alpha c1 \<le> 1" by (simp_all add: one_connection(2) [OF c1(1)])
  have "0 \<le> x" "x \<le> of_int (2 ^ 27)"
    using reno_growth_bounds [OF assms(3,4) al e(2)] by (simp_all add: x_def)
  then have k: "0 \<le> f32_to_i64 x" "f32_to_i64 x \<le> 2 ^ 27"
    unfolding f32_to_i64_def by (intro f64_to_i64_bounds [where n = "2 ^ 27"]; simp)+
  then have ek: "i64 (e + f32_to_i64 x) = e + f32_to_i64 x" using e(2,3) by simp
  have wa: "i64 (w + a sdiv 2) = w + a div 2" 
  proof -
    have "0 \<le> a div 2" "a div 2 \<le> 2 ^ 16" using assms(3,4) by simp_all
    with assms(3,5,6) show ?thesis by (simp add: sdiv_pos_eq)
  qed
  have "cubic_CongestionWindowAfterAck cbrt a w dmin t c =
      (max (min (cubic_target dmin t c1) (w + a div 2)) (e + f32_to_i64 x),
       c1\<lparr>estimatedTCPcongestionWindow := e + f32_to_i64 x, ackedBytesCount := 0,
          lastTargetCongestionWindow := min (cubic_target dmin t c1) (w + a div 2)\<rparr>)"
    unfolding cubic_CongestionWindowAfterAck_def Let_def c0_def [symmetric] c1_def [symmetric]
    by (simp add: c1 wa ek max_def flip: x_def)
  with r have w': "w' = max (min (cubic_target dmin t c1) (w + a div 2)) (e + f32_to_i64 x)"
    and c': "c' = c1\<lparr>estimatedTCPcongestionWindow := e + f32_to_i64 x, ackedBytesCount := 0,
      lastTargetCongestionWindow := min (cubic_target dmin t c1) (w + a div 2)\<rparr>" by simp_all
  show "e \<le> estimatedTCPcongestionWindow c'" "estimatedTCPcongestionWindow c' \<le> e + 2 ^ 27"
    "estimatedTCPcongestionWindow c' \<le> w'" "w' \<le> max (w + a div 2) (estimatedTCPcongestionWindow c')"
    "numConnections c' = 1" "ackedBytesCount c' = 0"
    using k c1(1) by (auto simp: w' c')
qed

subsection \<open>Runs of the sender\<close>

datatype cubic_call =
    CubicSent rtt_answers time byteCount packetNumber byteCount bool
  | CubicAcked rtt_answers packetNumber byteCount byteCount time
  | CubicLost packetNumber byteCount byteCount
  | CubicMaybeExitSlowStart rtt_answers
  | CubicTimeout bool
  | CubicMigration
  | CubicSetMaxDatagramSize byteCount

fun cs_step :: "('h, 'p) cubic_env \<Rightarrow> cubic_call \<Rightarrow> ('h, 'p) cubicSender \<Rightarrow> ('h, 'p) cubicSender option" where
  "cs_step E (CubicSent rtt t inFlight pn n retr) c = Some (cs_OnPacketSent E rtt t inFlight pn n retr c)"
| "cs_step E (CubicAcked rtt pn n prior t) c = cs_OnPacketAcked E rtt pn n prior t c"
| "cs_step E (CubicLost pn n prior) c = Some (cs_OnCongestionEvent pn n prior c)"
| "cs_step E (CubicMaybeExitSlowStart rtt) c = cs_MaybeExitSlowStart E rtt c"
| "cs_step E (CubicTimeout retr) c = Some (cs_OnRetransmissionTimeout E retr c)"
| "cs_step E CubicMigration c = Some (cs_OnConnectionMigration E c)"
| "cs_step E (CubicSetMaxDatagramSize s) c = cs_SetMaxDatagramSize E s c"

fun cs_run :: "('h, 'p) cubic_env \<Rightarrow> cubic_call list \<Rightarrow> ('h, 'p) cubicSender \<Rightarrow> ('h, 'p) cubicSender option" where
  "cs_run E [] c = Some c"
| "cs_run E (x # xs) c = Option.bind (cs_step E x c) (cs_run E xs)"

text \<open>
  What quic-go keeps of the calls: an acknowledged packet has at most 64 KiB, and the datagram size, starting at
  \<open>m\<close>, never decreases and stays below 64 KiB.
\<close>

fun cubic_calls_ok :: "byteCount \<Rightarrow> cubic_call list \<Rightarrow> bool" where
  "cubic_calls_ok m [] \<longleftrightarrow> True"
| "cubic_calls_ok m (CubicAcked rtt pn n prior t # xs) \<longleftrightarrow> 0 \<le> n \<and> n \<le> 2 ^ 16 \<and> cubic_calls_ok m xs"
| "cubic_calls_ok m (CubicSetMaxDatagramSize s # xs) \<longleftrightarrow> m \<le> s \<and> s < 2 ^ 16 \<and> cubic_calls_ok s xs"
| "cubic_calls_ok m (_ # xs) \<longleftrightarrow> cubic_calls_ok m xs"

text \<open>
  The invariant, for a sender created with datagrams of \<open>m\<close> bytes and \<open>N\<close> packets of maximal window.  The
  Reno estimate may exceed the window by one growth step (\<open>2 ^ 27\<close>) per increase of the datagram size, no more:
  above the maximal window the estimate is not updated.
\<close>

definition cs_estimate_ok :: "int \<Rightarrow> byteCount \<Rightarrow> byteCount \<Rightarrow> byteCount \<Rightarrow> bool" where
  "cs_estimate_ok N mds w e \<longleftrightarrow>
     e \<le> w \<or> (N * mds \<le> w \<and> e \<le> N * mds + mds * 2 ^ 27) \<or> e \<le> N * mds + mds * 2 ^ 27 - 2 ^ 27"

definition cs_ok :: "int \<Rightarrow> byteCount \<Rightarrow> ('h, 'p) cubicSender \<Rightarrow> bool" where
  "cs_ok N m c \<longleftrightarrow>
     0 < m \<and> m \<le> cs_maxDatagramSize c \<and> cs_maxDatagramSize c < 2 ^ 16 \<and>
     2 * m \<le> congestionWindow c \<and> congestionWindow c < (N + 1) * cs_maxDatagramSize c \<and>
     2 * m \<le> initialCongestionWindow c \<and> initialCongestionWindow c < (N + 1) * m \<and>
     numConnections (cs_cubic c) = 1 \<and> ackedBytesCount (cs_cubic c) = 0 \<and>
     (epoch (cs_cubic c) \<noteq> time_zero \<longrightarrow>
        \<not> reno c \<and> 2 * m \<le> estimatedTCPcongestionWindow (cs_cubic c) \<and>
        cs_estimate_ok N (cs_maxDatagramSize c) (congestionWindow c) (estimatedTCPcongestionWindow (cs_cubic c)))"

lemma cs_maybeTraceStateChange_fields [simp]:
  "cs_maxDatagramSize (cs_maybeTraceStateChange st c) = cs_maxDatagramSize c"
  "congestionWindow (cs_maybeTraceStateChange st c) = congestionWindow c"
  "initialCongestionWindow (cs_maybeTraceStateChange st c) = initialCongestionWindow c"
  "cs_cubic (cs_maybeTraceStateChange st c) = cs_cubic c"
  "reno (cs_maybeTraceStateChange st c) = reno c"
  "slowStartThreshold (cs_maybeTraceStateChange st c) = slowStartThreshold c"
  "largestSentPacketNumber (cs_maybeTraceStateChange st c) = largestSentPacketNumber c"
  by (simp_all add: cs_maybeTraceStateChange_def)

lemma cs_ok_cong:
  assumes "cs_ok N m c" "cs_maxDatagramSize d = cs_maxDatagramSize c" "congestionWindow d = congestionWindow c"
    "initialCongestionWindow d = initialCongestionWindow c" "cs_cubic d = cs_cubic c"
    "reno d = reno c"
  shows "cs_ok N m d"
  using assms by (simp add: cs_ok_def)

text \<open>A change of the window that ends the epoch.\<close>

lemma cs_ok_new_window:
  assumes "cs_ok N m c" "cs_maxDatagramSize d = cs_maxDatagramSize c"
    "initialCongestionWindow d = initialCongestionWindow c"
    "2 * m \<le> congestionWindow d" "congestionWindow d < (N + 1) * cs_maxDatagramSize c"
    "epoch (cs_cubic d) = time_zero" "numConnections (cs_cubic d) = 1" "ackedBytesCount (cs_cubic d) = 0"
  shows "cs_ok N m d"
  using assms by (simp add: cs_ok_def)

lemma cs_ok_bounds:
  assumes "cs_ok N m c" "32 \<le> N" "N < 2 ^ 20"
  shows "N * cs_maxDatagramSize c < 2 ^ 36" "congestionWindow c < 2 ^ 37" "0 < cs_maxDatagramSize c"
    "2 * cs_maxDatagramSize c \<le> N * cs_maxDatagramSize c" "m \<le> cs_maxDatagramSize c"
    "in_i64 (N * cs_maxDatagramSize c)" "in_i64 (2 * cs_maxDatagramSize c)"
proof -
  let ?s = "cs_maxDatagramSize c"
  have s: "0 < ?s" "?s \<le> 2 ^ 16 - 1" using assms by (simp_all add: cs_ok_def)
  have "N * ?s \<le> (2 ^ 20 - 1) * (2 ^ 16 - 1)" using s assms(2,3) by (intro mult_mono) simp_all
  then have n: "N * ?s < 2 ^ 36" by simp
  moreover have "0 \<le> N * ?s" using s assms(2) by simp
  ultimately show "in_i64 (N * ?s)" by simp
  show "N * ?s < 2 ^ 36" by (rule n)
  note n
  moreover have "congestionWindow c < N * ?s + ?s" using assms(1) by (simp add: cs_ok_def algebra_simps)
  ultimately show "congestionWindow c < 2 ^ 37" using s by simp
  show "0 < ?s" "2 * ?s \<le> N * ?s" "m \<le> ?s" "in_i64 (2 * ?s)" using assms s by (simp_all add: cs_ok_def)
qed

text \<open>The calls keep the invariant.\<close>

lemma cs_ok_grow:
  assumes ok: "cs_ok N m c" "32 \<le> N" "N < 2 ^ 20" and w: "congestionWindow c < N * cs_maxDatagramSize c"
  shows "cs_ok N m (c\<lparr>congestionWindow := i64 (congestionWindow c + cs_maxDatagramSize c)\<rparr>)"
proof -
  note b = cs_ok_bounds [OF ok]
  have "i64 (congestionWindow c + cs_maxDatagramSize c) = congestionWindow c + cs_maxDatagramSize c"
    using ok(1) b by (simp add: cs_ok_def)
  then show ?thesis
    using ok(1) w b(3) by (auto simp: cs_ok_def cs_estimate_ok_def algebra_simps)
qed

lemma cs_ok_cubic_ack:
  assumes ok: "cs_ok N m c" "32 \<le> N" "N < 2 ^ 20" and w: "congestionWindow c < N * cs_maxDatagramSize c"
    and a: "0 \<le> a" "a \<le> 2 ^ 16" "\<not> reno c"
    and r: "cubic_CongestionWindowAfterAck cbrt a (congestionWindow c) dmin t (cs_cubic c) = (w', q)"
  shows "cs_ok N m (c\<lparr>cs_cubic := q, congestionWindow := min (N * cs_maxDatagramSize c) w'\<rparr>)"
proof -
  let ?q = "cs_cubic c" and ?s = "cs_maxDatagramSize c"
  let ?e = "if epoch ?q = time_zero then congestionWindow c else estimatedTCPcongestionWindow ?q"
  let ?e' = "estimatedTCPcongestionWindow q"
  note b = cs_ok_bounds [OF ok]
  have s: "2 ^ 27 \<le> ?s * 2 ^ 27" "?s * 2 ^ 27 \<le> 2 ^ 43" using b(3) ok(1) by (simp_all add: cs_ok_def)
  have e: "2 * m \<le> ?e" "?e \<le> N * ?s + ?s * 2 ^ 27 - 2 ^ 27"
    using ok(1) w s by (auto simp: cs_ok_def cs_estimate_ok_def)
  have "2 \<le> ?e" "?e < 2 ^ 50" using e b s ok(1) by (simp_all add: cs_ok_def del: if_split)
  then have k: "?e \<le> ?e'" "?e' \<le> ?e + 2 ^ 27" "?e' \<le> w'" "numConnections q = 1" "ackedBytesCount q = 0"
    using cubic_ack_bounds [OF _ _ a(1,2) _ _ refl _ _ r] ok(1) b by (simp_all add: cs_ok_def del: if_split)
  have "2 * m \<le> ?e'" "?e' \<le> N * ?s + ?s * 2 ^ 27" using k e by linarith+
  moreover have "2 * m \<le> N * ?s" using b by linarith
  moreover have "min (N * ?s) w' < (N + 1) * ?s" using b(3) by (simp add: algebra_simps min_less_iff_disj)
  moreover have "cs_estimate_ok N ?s (min (N * ?s) w') ?e'"
    using k(3) \<open>?e' \<le> N * ?s + ?s * 2 ^ 27\<close> by (auto simp: cs_estimate_ok_def min_def)
  ultimately show ?thesis
    using ok(1) k a(3) by (simp add: cs_ok_def)
qed

lemma cs_maxCongestionWindow_eq:
  assumes "cs_ok N m c" "32 \<le> N" "N < 2 ^ 20" "env_MaxCongestionWindowPackets E = N"
  shows "cs_maxCongestionWindow E c = N * cs_maxDatagramSize c"
  using i64_id [OF cs_ok_bounds(6) [OF assms(1-3)]] assms(4) by (simp add: cs_maxCongestionWindow_def mult.commute)

lemma cs_minCongestionWindow_eq:
  assumes "cs_ok N m c" "32 \<le> N" "N < 2 ^ 20"
  shows "cs_minCongestionWindow c = 2 * cs_maxDatagramSize c"
  using i64_id [OF cs_ok_bounds(7) [OF assms]]
  by (simp add: cs_minCongestionWindow_def minCongestionWindowPackets_def mult.commute)

lemma cs_maybeIncreaseCwnd_ok:
  assumes ok: "cs_ok N m c" "32 \<le> N" "N < 2 ^ 20" "env_MaxCongestionWindowPackets E = N"
    and a: "0 \<le> a" "a \<le> 2 ^ 16"
  shows "\<exists>d. cs_maybeIncreaseCwnd E rtt a prior t c = Some d \<and> cs_ok N m d \<and>
    cs_maxDatagramSize d = cs_maxDatagramSize c"
proof -
  note mx = cs_maxCongestionWindow_eq [OF ok]
  note b = cs_ok_bounds [OF ok(1-3)]
  let ?c = "cs_maybeTraceStateChange CongestionStateCongestionAvoidance c"
  consider (app) "\<not> cs_isCwndLimited prior c"
    | (full) "cs_isCwndLimited prior c" "N * cs_maxDatagramSize c \<le> congestionWindow c"
    | (slow) "cs_isCwndLimited prior c" "congestionWindow c < N * cs_maxDatagramSize c" "cs_InSlowStart c"
    | (reno) "cs_isCwndLimited prior c" "congestionWindow c < N * cs_maxDatagramSize c" "\<not> cs_InSlowStart c" "reno c"
    | (cubic) "cs_isCwndLimited prior c" "congestionWindow c < N * cs_maxDatagramSize c" "\<not> cs_InSlowStart c" "\<not> reno c"
    by linarith
  then show ?thesis
  proof cases
    case app
    have "cs_ok N m (cs_maybeTraceStateChange CongestionStateApplicationLimited
        (c\<lparr>cs_cubic := cubic_OnApplicationLimited (cs_cubic c)\<rparr>))"
      using ok(1) by (simp add: cs_ok_def cubic_OnApplicationLimited_def)
    with app show ?thesis by (simp add: cs_maybeIncreaseCwnd_def)
  next
    case full
    with ok(1) show ?thesis by (simp add: cs_maybeIncreaseCwnd_def mx)
  next
    case slow
    have "cs_ok N m (cs_maybeTraceStateChange CongestionStateSlowStart
        (c\<lparr>congestionWindow := i64 (congestionWindow c + cs_maxDatagramSize c)\<rparr>))"
      by (rule cs_ok_cong [OF cs_ok_grow [OF ok(1-3) slow(2)]]) simp_all
    with slow show ?thesis by (simp add: cs_maybeIncreaseCwnd_def mx)
  next
    case reno
    let ?d = "?c\<lparr>numAckedPackets := u64 (numAckedPackets ?c + 1)\<rparr>"
    have d: "cs_ok N m ?d" by (rule cs_ok_cong [OF ok(1)]) simp_all
    then have "cs_ok N m (?d\<lparr>congestionWindow := i64 (congestionWindow ?d + cs_maxDatagramSize ?d)\<rparr>)"
      using reno(2) by (intro cs_ok_grow [OF _ ok(2,3)]) simp_all
    then have "cs_ok N m (?d\<lparr>congestionWindow := i64 (congestionWindow ?d + cs_maxDatagramSize ?d), numAckedPackets := 0\<rparr>)"
      by (rule cs_ok_cong) simp_all
    with d reno b(3) show ?thesis
      by (auto simp: cs_maybeIncreaseCwnd_def mx go_div_def Let_def)
  next
    case cubic
    obtain w q where r: "cubic_CongestionWindowAfterAck (env_Cbrt E) a (congestionWindow c) (MinRTT rtt) t (cs_cubic c) = (w, q)"
      by fastforce
    have c: "cs_ok N m ?c" by (rule cs_ok_cong [OF ok(1)]) simp_all
    have "cs_ok N m (?c\<lparr>cs_cubic := q, congestionWindow := min (N * cs_maxDatagramSize ?c) w\<rparr>)"
      using cubic(2,4) r by (intro cs_ok_cubic_ack [OF c ok(2,3) _ a]) simp_all
    moreover have "cs_maxCongestionWindow E ?c = N * cs_maxDatagramSize ?c"
      by (rule cs_maxCongestionWindow_eq [OF c ok(2-4)])
    ultimately show ?thesis
      using cubic r by (simp add: cs_maybeIncreaseCwnd_def mx Let_def)
  qed
qed

lemma cs_OnPacketAcked_ok:
  assumes ok: "cs_ok N m c" "32 \<le> N" "N < 2 ^ 20" "env_MaxCongestionWindowPackets E = N"
    and a: "0 \<le> a" "a \<le> 2 ^ 16"
  shows "\<exists>d. cs_OnPacketAcked E rtt pn a prior t c = Some d \<and> cs_ok N m d \<and>
    cs_maxDatagramSize d = cs_maxDatagramSize c"
proof -
  let ?c = "c\<lparr>largestAckedPacketNumber := max pn (largestAckedPacketNumber c)\<rparr>"
  have c: "cs_ok N m ?c" by (rule cs_ok_cong [OF ok(1)]) simp_all
  obtain d where d: "cs_maybeIncreaseCwnd E rtt a prior t ?c = Some d" "cs_ok N m d"
      "cs_maxDatagramSize d = cs_maxDatagramSize c"
    using cs_maybeIncreaseCwnd_ok [OF c ok(2-4) a, of rtt prior t] by auto
  have "cs_ok N m (d\<lparr>hybridSlowStart := h\<rparr>)" for h by (rule cs_ok_cong [OF d(2)]) simp_all
  with c d show ?thesis by (simp add: cs_OnPacketAcked_def Let_def)
qed

lemma cs_cutWindow_bounds:
  assumes ok: "cs_ok N m c" "32 \<le> N" "N < 2 ^ 20"
  shows "cs_ok N m (cs_cutWindow c)" "cs_maxDatagramSize (cs_cutWindow c) = cs_maxDatagramSize c"
    "2 * cs_maxDatagramSize c \<le> congestionWindow (cs_cutWindow c)"
    "4 * congestionWindow (cs_cutWindow c) \<le> max (8 * cs_maxDatagramSize c) (3 * congestionWindow c)"
    "largestSentPacketNumber (cs_cutWindow c) = largestSentPacketNumber c"
proof -
  let ?w = "congestionWindow c" and ?s = "cs_maxDatagramSize c"
  note b = cs_ok_bounds [OF ok]
  define d where "d = (if reno c
      then c\<lparr>congestionWindow := f64_to_i64 (f64_mul (f64_of_int ?w) renoBeta)\<rparr>
      else c\<lparr>cs_cubic := snd (cubic_CongestionWindowAfterPacketLoss ?w (cs_cubic c)),
             congestionWindow := fst (cubic_CongestionWindowAfterPacketLoss ?w (cs_cubic c))\<rparr>)"
  have w: "0 \<le> ?w" "?w < 2 ^ 63" using ok(1) b by (simp_all add: cs_ok_def)
  have rb: "0 \<le> renoBeta" "renoBeta * ((1 + 1 / 2 ^ 53) * (1 + 1 / 2 ^ 53)) \<le> 3 / 4"
    by (unfold renoBeta_def) code_simp+
  have cut: "0 \<le> congestionWindow d" "4 * congestionWindow d \<le> 3 * ?w"
    using cut_bounds [OF w rb] cubic_loss_bounds(1,2) [OF _ w, of "cs_cubic c"] ok(1)
    by (simp_all add: d_def f64_op_defs cs_ok_def)
  have d: "cs_maxDatagramSize d = ?s" "initialCongestionWindow d = initialCongestionWindow c"
    "largestSentPacketNumber d = largestSentPacketNumber c" "epoch (cs_cubic d) = time_zero"
    "numConnections (cs_cubic d) = 1" "ackedBytesCount (cs_cubic d) = 0"
    using cubic_loss_bounds(3-5) [OF _ w, of "cs_cubic c"] ok(1) by (auto simp: d_def cs_ok_def)
  have mn: "cs_minCongestionWindow d = 2 * ?s"
    using cs_minCongestionWindow_eq [OF ok] d(1) by (simp add: cs_minCongestionWindow_def)
  have "cs_cutWindow c = (if congestionWindow d < cs_minCongestionWindow d
      then d\<lparr>congestionWindow := cs_minCongestionWindow d\<rparr> else d)"
    unfolding cs_cutWindow_def Let_def split_beta d_def [symmetric] by (rule refl)
  then have e: "cs_cutWindow c = d\<lparr>congestionWindow := max (congestionWindow d) (2 * ?s)\<rparr>"
    by (simp add: mn max_def)
  show "cs_maxDatagramSize (cs_cutWindow c) = ?s" "2 * ?s \<le> congestionWindow (cs_cutWindow c)"
    "4 * congestionWindow (cs_cutWindow c) \<le> max (8 * ?s) (3 * ?w)"
    "largestSentPacketNumber (cs_cutWindow c) = largestSentPacketNumber c"
    using cut d by (simp_all add: e)
  have "max (congestionWindow d) (2 * ?s) < (N + 1) * ?s"
    using cut b ok(1,2) by (simp add: cs_ok_def algebra_simps)
  then show "cs_ok N m (cs_cutWindow c)"
    using b d by (intro cs_ok_new_window [OF ok(1)]) (simp_all add: e)
qed

lemma cs_OnCongestionEvent_ok:
  assumes ok: "cs_ok N m c" "32 \<le> N" "N < 2 ^ 20"
  shows "cs_ok N m (cs_OnCongestionEvent pn n prior c)"
    "cs_maxDatagramSize (cs_OnCongestionEvent pn n prior c) = cs_maxDatagramSize c"
    "largestSentAtLastCutback c < pn \<Longrightarrow>
     2 * cs_maxDatagramSize c \<le> congestionWindow (cs_OnCongestionEvent pn n prior c) \<and>
     4 * congestionWindow (cs_OnCongestionEvent pn n prior c) \<le>
       max (8 * cs_maxDatagramSize c) (3 * congestionWindow c) \<and>
     slowStartThreshold (cs_OnCongestionEvent pn n prior c) = congestionWindow (cs_OnCongestionEvent pn n prior c) \<and>
     largestSentAtLastCutback (cs_OnCongestionEvent pn n prior c) = largestSentPacketNumber c"
proof -
  let ?d = "cs_maybeTraceStateChange CongestionStateRecovery (c\<lparr>lastCutbackExitedSlowstart := cs_InSlowStart c\<rparr>)"
  let ?f = "cs_cutWindow ?d"
  have "cs_ok N m ?d" by (rule cs_ok_cong [OF ok(1)]) simp_all
  note cut = cs_cutWindow_bounds [OF this ok(2,3)]
  have "cs_ok N m (?f\<lparr>slowStartThreshold := congestionWindow ?f, largestSentAtLastCutback := largestSentPacketNumber ?f,
      numAckedPackets := 0\<rparr>)"
    by (rule cs_ok_cong [OF cut(1)]) simp_all
  with ok(1) show "cs_ok N m (cs_OnCongestionEvent pn n prior c)"
    by (simp add: cs_OnCongestionEvent_def Let_def)
  show "cs_maxDatagramSize (cs_OnCongestionEvent pn n prior c) = cs_maxDatagramSize c"
    using cut(2) by (simp add: cs_OnCongestionEvent_def Let_def)
  show "largestSentAtLastCutback c < pn \<Longrightarrow>
     2 * cs_maxDatagramSize c \<le> congestionWindow (cs_OnCongestionEvent pn n prior c) \<and>
     4 * congestionWindow (cs_OnCongestionEvent pn n prior c) \<le>
       max (8 * cs_maxDatagramSize c) (3 * congestionWindow c) \<and>
     slowStartThreshold (cs_OnCongestionEvent pn n prior c) = congestionWindow (cs_OnCongestionEvent pn n prior c) \<and>
     largestSentAtLastCutback (cs_OnCongestionEvent pn n prior c) = largestSentPacketNumber c"
    using cut(3-5) by (simp add: cs_OnCongestionEvent_def Let_def)
qed

lemma cs_SetMaxDatagramSize_ok:
  assumes ok: "cs_ok N m c" "32 \<le> N" "N < 2 ^ 20" and s: "cs_maxDatagramSize c \<le> s" "s < 2 ^ 16"
  shows "\<exists>d. cs_SetMaxDatagramSize E s c = Some d \<and> cs_ok N m d \<and> cs_maxDatagramSize d = s"
proof -
  let ?m = "cs_maxDatagramSize c" and ?w = "congestionWindow c"
  let ?w' = "if ?w = 2 * ?m then 2 * s else ?w"
  note b = cs_ok_bounds [OF ok]
  have "i64 (s * 2) = 2 * s" using s b(3) by simp
  then have r: "cs_SetMaxDatagramSize E s c = Some (c\<lparr>cs_maxDatagramSize := s, congestionWindow := ?w',
      cs_pacer := cp_SetMaxDatagramSize (env_pacer E) s (cs_pacer c)\<rparr>)"
    using s by (simp add: cs_SetMaxDatagramSize_def Let_def cs_minCongestionWindow_eq [OF ok])
      (simp add: cs_minCongestionWindow_def minCongestionWindowPackets_def)
  have ns: "N * ?m \<le> N * s" using s(1) ok(2) by (intro mult_left_mono) simp_all
  have "?w < N * ?m + ?m" using ok(1) by (simp add: cs_ok_def algebra_simps)
  then have "?w < N * s + s" using ns s(1) by linarith
  moreover have "2 * s < N * s + s" using s(1) b(3) ok(2) mult_right_mono [of 2 N s] by linarith
  ultimately have w': "?w \<le> ?w'" "?w' < (N + 1) * s" using s(1) by (auto simp: algebra_simps)
  have es: "cs_estimate_ok N s ?w' e" if "cs_estimate_ok N ?m ?w e" for e
  proof (cases "s = ?m")
    case True
    with that w'(1) show ?thesis by (auto simp: cs_estimate_ok_def)
  next
    case False
    with s(1) have "?m * 2 ^ 27 \<le> s * 2 ^ 27 - 2 ^ 27" by simp
    moreover have "e \<le> ?w \<or> e \<le> N * ?m + ?m * 2 ^ 27" using that by (auto simp: cs_estimate_ok_def)
    ultimately show ?thesis
      using ns w'(1) unfolding cs_estimate_ok_def by (elim disjE) (rule disjI1, linarith, intro disjI2, linarith)
  qed
  have "cs_ok N m (c\<lparr>cs_maxDatagramSize := s, congestionWindow := ?w',
      cs_pacer := cp_SetMaxDatagramSize (env_pacer E) s (cs_pacer c)\<rparr>)"
    using ok(1) s w' es [of "estimatedTCPcongestionWindow (cs_cubic c)"] by (simp add: cs_ok_def del: if_split)
  with r show ?thesis by simp
qed

lemma cs_MaybeExitSlowStart_ok:
  assumes ok: "cs_ok N m c" "32 \<le> N" "N < 2 ^ 20"
  shows "\<exists>d. cs_MaybeExitSlowStart E rtt c = Some d \<and> cs_ok N m d \<and> cs_maxDatagramSize d = cs_maxDatagramSize c"
proof -
  have "cs_ok N m (c\<lparr>hybridSlowStart := h\<rparr>)"
    "cs_ok N m (cs_maybeTraceStateChange st (c\<lparr>hybridSlowStart := h, slowStartThreshold := x\<rparr>))" for h st x
    by (rule cs_ok_cong [OF ok(1)]; simp)+
  then show ?thesis
    using ok(1) cs_ok_bounds(3) [OF ok] by (simp add: cs_MaybeExitSlowStart_def go_div_def split_beta Let_def)
qed

lemma cs_ok_new:
  assumes "0 < m" "m < 2 ^ 16" "32 \<le> N" "env_MaxCongestionWindowPackets E = N"
  shows "cs_ok N m (NewCubicSender E m rno tracer)" "cs_maxDatagramSize (NewCubicSender E m rno tracer) = m"
proof -
  have "i64 (32 * m) = 32 * m" using assms(1,2) by simp
  moreover have "32 * m < (N + 1) * m" using assms(1,3) by simp
  ultimately show "cs_ok N m (NewCubicSender E m rno tracer)"
    using assms(1,2) by (simp add: cs_ok_def NewCubicSender_def newCubicSender_def cubic_initialCongestionWindow_def
        NewCubic_def cubic_Reset_def defaultNumConnections_def)
qed (simp add: NewCubicSender_def newCubicSender_def)

lemma cs_step_ok:
  assumes ok: "cs_ok N m c" "32 \<le> N" "N < 2 ^ 20" "env_MaxCongestionWindowPackets E = N"
    and calls: "cubic_calls_ok (cs_maxDatagramSize c) (x # xs)"
  shows "\<exists>d. cs_step E x c = Some d \<and> cs_ok N m d \<and> cubic_calls_ok (cs_maxDatagramSize d) xs"
proof (cases x)
  case (CubicSent rtt t inFlight pn n retr)
  have "cs_ok N m (cs_OnPacketSent E rtt t inFlight pn n retr c)"
    by (rule cs_ok_cong [OF ok(1)]) (simp_all add: cs_OnPacketSent_def Let_def)
  with CubicSent calls show ?thesis by (simp add: cs_OnPacketSent_def Let_def)
next
  case (CubicAcked rtt pn n prior t)
  with calls cs_OnPacketAcked_ok [OF ok, of n rtt pn prior t] show ?thesis by auto
next
  case (CubicLost pn n prior)
  with calls cs_OnCongestionEvent_ok(1,2) [OF ok(1-3)] show ?thesis by simp
next
  case (CubicMaybeExitSlowStart rtt)
  with calls cs_MaybeExitSlowStart_ok [OF ok(1-3), of E rtt] show ?thesis by auto
next
  case (CubicTimeout retr)
  have "cs_ok N m (cs_OnRetransmissionTimeout E retr c)"
  proof (cases retr)
    case True
    with ok cs_ok_bounds [OF ok(1-3)] show ?thesis
      by (intro cs_ok_new_window [OF ok(1)])
        (simp_all add: cs_OnRetransmissionTimeout_def Let_def cubic_Reset_def cs_minCongestionWindow_def
          minCongestionWindowPackets_def cs_ok_def mult.commute algebra_simps)
  next
    case False
    then show ?thesis by (intro cs_ok_cong [OF ok(1)]) (simp_all add: cs_OnRetransmissionTimeout_def)
  qed
  with CubicTimeout calls show ?thesis by (simp add: cs_OnRetransmissionTimeout_def Let_def)
next
  case CubicMigration
  have "(N + 1) * m \<le> (N + 1) * cs_maxDatagramSize c"
    using ok(2) cs_ok_bounds(5) [OF ok(1-3)] by (intro mult_left_mono) simp_all
  then have "cs_ok N m (cs_OnConnectionMigration E c)"
    using ok(1) by (intro cs_ok_new_window [OF ok(1)])
      (simp_all add: cs_OnConnectionMigration_def cubic_Reset_def cs_ok_def)
  with CubicMigration calls show ?thesis by (simp add: cs_OnConnectionMigration_def)
next
  case (CubicSetMaxDatagramSize s)
  with calls cs_SetMaxDatagramSize_ok [OF ok(1-3), of s E] show ?thesis by auto
qed

lemma cs_run_ok:
  assumes "32 \<le> N" "N < 2 ^ 20" "env_MaxCongestionWindowPackets E = N"
    and "cs_ok N m c" "cubic_calls_ok (cs_maxDatagramSize c) xs"
  shows "\<exists>d. cs_run E xs c = Some d \<and> cs_ok N m d"
  using assms(4,5)
proof (induction xs arbitrary: c)
  case (Cons x xs)
  from cs_step_ok [OF Cons.prems(1) assms(1-3) Cons.prems(2)] Cons.IH show ?case by fastforce
qed simp

lemma cs_run_new_ok:
  assumes "0 < m" "m < 2 ^ 16" "32 \<le> env_MaxCongestionWindowPackets E" "env_MaxCongestionWindowPackets E < 2 ^ 20"
    and "cubic_calls_ok m calls"
  shows "\<exists>c. cs_run E calls (NewCubicSender E m rno tracer) = Some c \<and> cs_ok (env_MaxCongestionWindowPackets E) m c"
  using cs_run_ok [OF assms(3,4) refl cs_ok_new(1) [OF assms(1-3) refl], where xs = calls] assms(5)
  by (auto simp: cs_ok_new(2) [OF assms(1-3) refl])

text \<open>
  C6: over any sequence of calls of a cubic or Reno sender, with datagrams that start at \<open>m\<close> bytes and never
  shrink, no call panics and the congestion window stays at two or more of the initial datagrams and below one
  datagram more than the maximal window, for every behaviour of the hybrid slow start, the pacer and the cube root
  that the package imports, and although the cubic polynomial wraps around in 64 bits.
\<close>

theorem cubic_window_bounds:
  assumes "0 < m" "m < 2 ^ 16" "32 \<le> env_MaxCongestionWindowPackets E" "env_MaxCongestionWindowPackets E < 2 ^ 20"
    and "cubic_calls_ok m calls"
  shows "\<exists>c. cs_run E calls (NewCubicSender E m rno tracer) = Some c \<and>
    2 * m \<le> cs_GetCongestionWindow c \<and>
    cs_GetCongestionWindow c < cs_maxCongestionWindow E c + cs_maxDatagramSize c"
proof -
  let ?N = "env_MaxCongestionWindowPackets E"
  obtain c where c: "cs_run E calls (NewCubicSender E m rno tracer) = Some c" "cs_ok ?N m c"
    using cs_run_new_ok [OF assms] by blast
  then show ?thesis
    using cs_maxCongestionWindow_eq [OF c(2) assms(3,4) refl]
    by (simp add: cs_ok_def cs_GetCongestionWindow_def algebra_simps)
qed

text \<open>An instance of the imported code: no hybrid slow start, a pacer that never waits.\<close>

definition plain_cubic_env :: "(unit, unit) cubic_env" where
  "plain_cubic_env =
     \<lparr>env_hss = \<lparr>hss_new = (), hss_OnPacketSent = (\<lambda>_ h. h), hss_ShouldExitSlowStart = (\<lambda>_ _ _ h. (False, h)),
        hss_OnPacketAcked = (\<lambda>_ h. h), hss_Restart = (\<lambda>h. h)\<rparr>,
      env_pacer = \<lparr>cp_new = (), cp_TimeUntilSend = (\<lambda>_ _. 0), cp_Budget = (\<lambda>_ _ _. 2 ^ 16),
        cp_SentPacket = (\<lambda>_ _ _ p. p), cp_SetMaxDatagramSize = (\<lambda>_ p. p)\<rparr>,
      env_Cbrt = (\<lambda>x. x / 1000), env_BandwidthFromDelta = (\<lambda>n d. n), env_infBandwidth = 2 ^ 64 - 1,
      env_MaxCongestionWindowPackets = 10000, env_InvalidPacketNumber = - 1\<rparr>"

definition plain_rtt :: rtt_answers where
  "plain_rtt = \<lparr>MinRTT = 20000000, SmoothedRTT = 20000000, LatestRTT = 20000000\<rparr>"

lemma cubic_window_bounds_witness:
  "\<exists>c. cs_run plain_cubic_env
      [CubicSent plain_rtt 1 0 1 1200 True, CubicSent plain_rtt 2 1200 2 1200 True, CubicLost 1 1200 2400,
       CubicAcked plain_rtt 2 1200 40000 30000000, CubicSetMaxDatagramSize 1400, CubicTimeout True]
      (NewCubicSender plain_cubic_env 1200 False True) = Some c \<and>
    2 * 1200 \<le> cs_GetCongestionWindow c \<and>
    cs_GetCongestionWindow c < cs_maxCongestionWindow plain_cubic_env c + cs_maxDatagramSize c"
  by (rule cubic_window_bounds) (simp_all add: plain_cubic_env_def)

subsection \<open>One reduction per window\<close>

fun is_cubic_loss :: "cubic_call \<Rightarrow> bool" where
  "is_cubic_loss (CubicLost _ _ _) \<longleftrightarrow> True"
| "is_cubic_loss _ \<longleftrightarrow> False"

text \<open>The calls of an undisturbed connection; every lost packet has a number of at most \<open>p\<close>.\<close>

fun cubic_calls_upto :: "packetNumber \<Rightarrow> cubic_call list \<Rightarrow> bool" where
  "cubic_calls_upto p [] \<longleftrightarrow> True"
| "cubic_calls_upto p (CubicLost pn _ _ # xs) \<longleftrightarrow> pn \<le> p \<and> cubic_calls_upto p xs"
| "cubic_calls_upto p (CubicTimeout _ # xs) \<longleftrightarrow> False"
| "cubic_calls_upto p (CubicMigration # xs) \<longleftrightarrow> False"
| "cubic_calls_upto p (_ # xs) \<longleftrightarrow> cubic_calls_upto p xs"

lemma cs_maybeTraceStateChange_cutback [simp]:
  "largestSentAtLastCutback (cs_maybeTraceStateChange st c) = largestSentAtLastCutback c"
  by (simp add: cs_maybeTraceStateChange_def)

lemma cs_maybeIncreaseCwnd_cutback:
  "cs_maybeIncreaseCwnd E rtt a prior t c = Some d \<Longrightarrow> largestSentAtLastCutback d = largestSentAtLastCutback c"
  by (auto simp: cs_maybeIncreaseCwnd_def Let_def go_div_def split_beta split: if_splits)

lemma cs_step_cutback:
  assumes "cs_step E x c = Some d" "cubic_calls_upto p (x # xs)" "\<not> is_cubic_loss x"
  shows "largestSentAtLastCutback d = largestSentAtLastCutback c" "cubic_calls_upto p xs"
proof -
  show "cubic_calls_upto p xs" using assms(2) by (cases x) simp_all
  show "largestSentAtLastCutback d = largestSentAtLastCutback c"
  proof (cases x)
    case (CubicAcked rtt pn n prior t)
    with assms(1) show ?thesis
      by (auto simp: cs_OnPacketAcked_def Let_def split: if_splits
          elim!: bind_eq_SomeE dest!: cs_maybeIncreaseCwnd_cutback)
  next
    case (CubicSent rtt t inFlight pn n retr)
    with assms(1) show ?thesis by (auto simp: cs_OnPacketSent_def Let_def)
  next
    case (CubicMaybeExitSlowStart rtt)
    with assms(1) show ?thesis
      by (auto simp: cs_MaybeExitSlowStart_def go_div_def split_beta Let_def split: if_splits)
  next
    case (CubicSetMaxDatagramSize s)
    with assms(1) show ?thesis by (auto simp: cs_SetMaxDatagramSize_def Let_def split: if_splits)
  qed (use assms(2,3) in simp_all)
qed

lemma cs_run_skips_losses:
  assumes "largestSentAtLastCutback c = p" "cubic_calls_upto p xs"
  shows "cs_run E xs c = cs_run E (filter (\<lambda>x. \<not> is_cubic_loss x) xs) c"
  using assms
proof (induction xs arbitrary: c)
  case (Cons x xs)
  show ?case
  proof (cases "is_cubic_loss x")
    case True
    with Cons show ?thesis by (cases x) (simp_all add: cs_OnCongestionEvent_def)
  next
    case False
    show ?thesis
    proof (cases "cs_step E x c")
      case (Some d)
      note c = cs_step_cutback [OF Some Cons.prems(2) False]
      with Cons.IH [of d] Cons.prems(1) Some False show ?thesis by simp
    qed (use False in simp)
  qed
qed simp

text \<open>
  C13: a loss above the last cut-back reduces the window once, to at most three quarters (or two datagrams) and at
  least two datagrams, and makes it the slow-start threshold; after it, in any sequence of sends, acknowledgements,
  slow-start checks and datagram-size changes, the losses of packets that had been sent by then change nothing: the
  run is the run without them.
\<close>

theorem cubic_one_cut:
  assumes "0 < m" "m < 2 ^ 16" "32 \<le> env_MaxCongestionWindowPackets E" "env_MaxCongestionWindowPackets E < 2 ^ 20"
    and "cubic_calls_ok m before" "cs_run E before (NewCubicSender E m rno tracer) = Some c"
    and "largestSentAtLastCutback c < pn" "cubic_calls_upto (largestSentPacketNumber c) later"
    and "d = cs_OnCongestionEvent pn n prior c"
  shows "2 * cs_maxDatagramSize c \<le> congestionWindow d \<and>
    4 * congestionWindow d \<le> max (8 * cs_maxDatagramSize c) (3 * congestionWindow c) \<and>
    slowStartThreshold d = congestionWindow d \<and>
    cs_run E later d = cs_run E (filter (\<lambda>x. \<not> is_cubic_loss x) later) d"
proof -
  let ?N = "env_MaxCongestionWindowPackets E"
  have "cs_ok ?N m c" using cs_run_new_ok [OF assms(1-5), of rno tracer] assms(6) by auto
  from cs_OnCongestionEvent_ok(3) [OF this assms(3,4,7)] have d: "2 * cs_maxDatagramSize c \<le> congestionWindow d"
    "4 * congestionWindow d \<le> max (8 * cs_maxDatagramSize c) (3 * congestionWindow c)"
    "slowStartThreshold d = congestionWindow d" "largestSentAtLastCutback d = largestSentPacketNumber c"
    unfolding assms(9) by blast+
  with cs_run_skips_losses [OF d(4) assms(8)] show ?thesis by blast
qed

definition cubic_before_loss :: "(unit, unit) cubicSender" where
  "cubic_before_loss = (NewCubicSender plain_cubic_env 1200 False False)\<lparr>largestSentPacketNumber := 2\<rparr>"

lemma cubic_one_cut_witness:
  "2 * 1200 \<le> congestionWindow (cs_OnCongestionEvent 1 1200 2400 cubic_before_loss) \<and>
   4 * congestionWindow (cs_OnCongestionEvent 1 1200 2400 cubic_before_loss) \<le> 3 * 38400 \<and>
   cs_run plain_cubic_env [CubicLost 2 1200 2400, CubicAcked plain_rtt 1 1200 2400 5]
     (cs_OnCongestionEvent 1 1200 2400 cubic_before_loss) =
   cs_run plain_cubic_env [CubicAcked plain_rtt 1 1200 2400 5]
     (cs_OnCongestionEvent 1 1200 2400 cubic_before_loss)"
proof -
  have run: "cs_run plain_cubic_env [CubicSent plain_rtt 1 0 1 1200 True, CubicSent plain_rtt 2 1200 2 1200 True]
      (NewCubicSender plain_cubic_env 1200 False False) = Some cubic_before_loss"
    by (simp add: cubic_before_loss_def NewCubicSender_def newCubicSender_def cs_OnPacketSent_def plain_cubic_env_def)
  have f: "cs_maxDatagramSize cubic_before_loss = 1200" "congestionWindow cubic_before_loss = 38400"
    "largestSentAtLastCutback cubic_before_loss = - 1" "largestSentPacketNumber cubic_before_loss = 2"
    by (simp_all add: cubic_before_loss_def NewCubicSender_def newCubicSender_def cubic_initialCongestionWindow_def
        plain_cubic_env_def)
  have N: "env_MaxCongestionWindowPackets plain_cubic_env = 10000" by (simp add: plain_cubic_env_def)
  show ?thesis
    using cubic_one_cut [OF _ _ _ _ _ run _ _ refl, of 1
        "[CubicLost 2 1200 2400, CubicAcked plain_rtt 1 1200 2400 5]" 1200 2400]
    by (simp add: f N)
qed

end
