(* ===== verification/MeasurementState.thy ===== *)
theory MeasurementState
  imports GoFloat
begin

text \<open>
  \<open>src/common/state.go\<close> (with \<open>time_utils.go\<close> and the packet counters of \<open>state_tracer.go\<close>): the counters that the
  receiving goroutine of the client increases and its reporting loop reads.  Every operation takes the mutex for
  its whole effect, so the interleavings of the two are the sequences of operations; the clock reading of an
  operation is its argument \<open>now\<close>.  Shown here: the reports of a measurement partition the received bytes and
  packets, and their intervals partition the time since the first byte.
\<close>

record State =
  startTime :: time
  firstByteTime :: time
  establishmentTime :: time
  totalReceivedBytes :: int
  totalReceivedPackets :: int
  lastReportTime :: time
  lastReportReceivedBytes :: int
  lastReportReceivedPackets :: int

definition state_zero :: State where
  "state_zero =
     \<lparr>startTime = time_zero, firstByteTime = time_zero, establishmentTime = time_zero, totalReceivedBytes = 0,
      totalReceivedPackets = 0, lastReportTime = time_zero, lastReportReceivedBytes = 0,
      lastReportReceivedPackets = 0\<rparr>"

definition MaxTime :: "time list \<Rightarrow> time" where
  "MaxTime ts = foldl (\<lambda>maxTime t. if maxTime < t then t else maxTime) time_zero ts"

definition state_AddReceivedBytes :: "time \<Rightarrow> int \<Rightarrow> State \<Rightarrow> State" where
  "state_AddReceivedBytes now receivedBytes s =
     (let s = s\<lparr>totalReceivedBytes := u64 (totalReceivedBytes s + receivedBytes)\<rparr>
      in if time_IsZero (firstByteTime s) \<and> totalReceivedBytes s \<noteq> 0 then s\<lparr>firstByteTime := now\<rparr> else s)"

definition state_AddReceivedPackets :: "int \<Rightarrow> State \<Rightarrow> State" where
  "state_AddReceivedPackets receivedPackets s =
     s\<lparr>totalReceivedPackets := u64 (totalReceivedPackets s + receivedPackets)\<rparr>"

definition state_GetAndResetReport :: "time \<Rightarrow> State \<Rightarrow> (int \<times> int \<times> duration) \<times> State" where
  "state_GetAndResetReport now s =
     ((u64 (totalReceivedBytes s - lastReportReceivedBytes s),
       u64 (totalReceivedPackets s - lastReportReceivedPackets s),
       time_Sub now (MaxTime [lastReportTime s, firstByteTime s, startTime s])),
      s\<lparr>lastReportTime := now, lastReportReceivedBytes := totalReceivedBytes s,
        lastReportReceivedPackets := totalReceivedPackets s\<rparr>)"

definition state_Total :: "State \<Rightarrow> int \<times> int" where
  "state_Total s = (totalReceivedBytes s, totalReceivedPackets s)"

definition state_StartTime :: "State \<Rightarrow> time" where
  "state_StartTime s = startTime s"

definition state_SetStartTime :: "time \<Rightarrow> State \<Rightarrow> State option" where
  "state_SetStartTime now s = (if \<not> time_IsZero (startTime s) then None else Some (s\<lparr>startTime := now\<rparr>))"

definition state_GetFirstByteTime :: "State \<Rightarrow> time option" where
  "state_GetFirstByteTime s = (if time_IsZero (firstByteTime s) then None else Some (firstByteTime s))"

definition state_SetEstablishmentTime :: "time \<Rightarrow> State \<Rightarrow> State option" where
  "state_SetEstablishmentTime now s =
     (if \<not> time_IsZero (establishmentTime s) then None else Some (s\<lparr>establishmentTime := now\<rparr>))"

definition state_EstablishmentTime :: "State \<Rightarrow> time" where
  "state_EstablishmentTime s = establishmentTime s"

definition state_GetStartTime :: "State \<Rightarrow> time" where
  "state_GetStartTime s = startTime s"

text \<open>\<open>StateConnectionTracer\<close> counts every received packet.\<close>

definition tracer_ReceivedLongHeaderPacket :: "State \<Rightarrow> State" where
  "tracer_ReceivedLongHeaderPacket s = state_AddReceivedPackets 1 s"

definition tracer_ReceivedShortHeaderPacket :: "State \<Rightarrow> State" where
  "tracer_ReceivedShortHeaderPacket s = state_AddReceivedPackets 1 s"

subsection \<open>Interleavings of the receiver and the reporter\<close>

datatype state_op = RecvBytes time int | RecvPackets int | Report time

fun state_exec :: "state_op list \<Rightarrow> State \<Rightarrow> (int \<times> int \<times> duration) list \<times> State" where
  "state_exec [] s = ([], s)"
| "state_exec (RecvBytes now n # ops) s = state_exec ops (state_AddReceivedBytes now n s)"
| "state_exec (RecvPackets n # ops) s = state_exec ops (state_AddReceivedPackets n s)"
| "state_exec (Report now # ops) s =
     (let (r, s) = state_GetAndResetReport now s; (rs, s) = state_exec ops s in (r # rs, s))"

fun op_bytes :: "state_op \<Rightarrow> int" where
  "op_bytes (RecvBytes _ n) = n"
| "op_bytes _ = 0"

fun op_packets :: "state_op \<Rightarrow> int" where
  "op_packets (RecvPackets n) = n"
| "op_packets _ = 0"

text \<open>The reports happen in the order of the clock, at or after \<open>t\<close> and up to \<open>tmax\<close>; no amount is negative.\<close>

fun state_ops_ok :: "time \<Rightarrow> time \<Rightarrow> state_op list \<Rightarrow> bool" where
  "state_ops_ok t tmax [] \<longleftrightarrow> True"
| "state_ops_ok t tmax (RecvBytes _ n # ops) \<longleftrightarrow> 0 \<le> n \<and> state_ops_ok t tmax ops"
| "state_ops_ok t tmax (RecvPackets n # ops) \<longleftrightarrow> 0 \<le> n \<and> state_ops_ok t tmax ops"
| "state_ops_ok t tmax (Report now # ops) \<longleftrightarrow> t \<le> now \<and> now \<le> tmax \<and> state_ops_ok now tmax ops"

text \<open>Where the next report starts.\<close>

definition report_from :: "State \<Rightarrow> time" where
  "report_from s = MaxTime [lastReportTime s, firstByteTime s, startTime s]"

lemma MaxTime_3: "MaxTime [a, b, c] = max (max (max 0 a) b) c"
  by (auto simp: MaxTime_def time_zero_def)

lemma op_sums_nonneg:
  assumes "state_ops_ok t tmax ops"
  shows "0 \<le> (\<Sum>x\<leftarrow>ops. op_bytes x)" "0 \<le> (\<Sum>x\<leftarrow>ops. op_packets x)"
  using assms by (induction t tmax ops rule: state_ops_ok.induct) auto

text \<open>What a run of calls adds to the state, and what its reports add up to.\<close>

definition exec_sums :: "state_op list \<Rightarrow> State \<Rightarrow> (int \<times> int \<times> duration) list \<Rightarrow> State \<Rightarrow> bool" where
  "exec_sums ops s rs s' \<longleftrightarrow>
    totalReceivedBytes s' = totalReceivedBytes s + (\<Sum>x\<leftarrow>ops. op_bytes x) \<and>
    totalReceivedPackets s' = totalReceivedPackets s + (\<Sum>x\<leftarrow>ops. op_packets x) \<and>
    (\<Sum>r\<leftarrow>rs. fst r) = lastReportReceivedBytes s' - lastReportReceivedBytes s \<and>
    (\<Sum>r\<leftarrow>rs. fst (snd r)) = lastReportReceivedPackets s' - lastReportReceivedPackets s \<and>
    (\<Sum>r\<leftarrow>rs. snd (snd r)) = report_from s' - report_from s \<and>
    (\<forall>r\<in>set rs. 0 \<le> fst r \<and> 0 \<le> fst (snd r) \<and> 0 \<le> snd (snd r))"

text \<open>
  One run from a state in which a byte has arrived, with counters that do not overflow: what the reports and the
  pending amounts add up to.
\<close>

lemma state_exec_sums:
  assumes "state_ops_ok (report_from s) tmax ops" "firstByteTime s \<noteq> time_zero" "tmax - report_from s < 2 ^ 63"
    and "0 \<le> lastReportReceivedBytes s" "lastReportReceivedBytes s \<le> totalReceivedBytes s"
    and "0 \<le> lastReportReceivedPackets s" "lastReportReceivedPackets s \<le> totalReceivedPackets s"
    and "totalReceivedBytes s + (\<Sum>x\<leftarrow>ops. op_bytes x) < 2 ^ 64"
    and "totalReceivedPackets s + (\<Sum>x\<leftarrow>ops. op_packets x) < 2 ^ 64"
    and "state_exec ops s = (rs, s')"
  shows "exec_sums ops s rs s'"
  using assms
proof (induction ops arbitrary: s rs)
  case (Cons x ops)
  note nn = op_sums_nonneg [of _ tmax ops]
  show ?case
  proof (cases x)
    case (RecvBytes now n)
    let ?s = "state_AddReceivedBytes now n s"
    have "u64 (totalReceivedBytes s + n) = totalReceivedBytes s + n"
      using Cons.prems(1,4,5,8) RecvBytes nn(1) [of "report_from s"] by (intro u64_id) simp
    then have "?s = s\<lparr>totalReceivedBytes := totalReceivedBytes s + n\<rparr>"
      using Cons.prems(2) by (simp add: state_AddReceivedBytes_def Let_def time_IsZero_def)
    then show ?thesis
      using Cons.IH [of ?s rs] Cons.prems RecvBytes by (simp add: exec_sums_def report_from_def)
  next
    case (RecvPackets n)
    let ?s = "state_AddReceivedPackets n s"
    have "u64 (totalReceivedPackets s + n) = totalReceivedPackets s + n"
      using Cons.prems(1,6,7,9) RecvPackets nn(2) [of "report_from s"] by (intro u64_id) simp
    then have "?s = s\<lparr>totalReceivedPackets := totalReceivedPackets s + n\<rparr>" by (simp add: state_AddReceivedPackets_def)
    then show ?thesis
      using Cons.IH [of ?s rs] Cons.prems RecvPackets by (simp add: exec_sums_def report_from_def)
  next
    case (Report now)
    let ?s = "s\<lparr>lastReportTime := now, lastReportReceivedBytes := totalReceivedBytes s,
      lastReportReceivedPackets := totalReceivedPackets s\<rparr>"
    have t: "report_from s \<le> now" "now \<le> tmax" "state_ops_ok now tmax ops" using Cons.prems(1) Report by simp_all
    then have f: "report_from ?s = now" by (auto simp: report_from_def MaxTime_3)
    have d: "time_Sub now (report_from s) = now - report_from s" using t Cons.prems(3) by (intro time_Sub_id) simp
    have u: "u64 (totalReceivedBytes s - lastReportReceivedBytes s) = totalReceivedBytes s - lastReportReceivedBytes s"
        "u64 (totalReceivedPackets s - lastReportReceivedPackets s) =
         totalReceivedPackets s - lastReportReceivedPackets s"
      using Cons.prems(4-9) nn [OF t(3)] Report by simp_all
    obtain rs' where r: "state_exec ops ?s = (rs', s')"
        "rs = (totalReceivedBytes s - lastReportReceivedBytes s,
               totalReceivedPackets s - lastReportReceivedPackets s, now - report_from s) # rs'"
      using Cons.prems(10) Report
      by (auto simp: state_GetAndResetReport_def u d simp flip: report_from_def split: prod.splits)
    have "exec_sums ops ?s rs' s'"
      using Cons.prems t Report by (intro Cons.IH) (simp_all add: f r(1))
    then show ?thesis
      using Cons.prems(4-7) t(1) Report by (simp add: exec_sums_def r(2) f)
  qed
qed (simp add: exec_sums_def)

lemma state_exec_times:
  assumes "state_exec ops s = (rs, s')" "firstByteTime s \<noteq> time_zero"
  shows "firstByteTime s' = firstByteTime s \<and> startTime s' = startTime s"
  using assms
  by (induction ops s arbitrary: rs rule: state_exec.induct)
    (auto simp: state_AddReceivedBytes_def state_AddReceivedPackets_def state_GetAndResetReport_def
      Let_def time_IsZero_def split: prod.splits)

text \<open>
  C15: a measurement that starts at \<open>t0\<close> and receives its first \<open>n > 0\<close> bytes at \<open>t1\<close>, with any interleaving of
  received bytes and packets and of reports in the order of the clock, and totals below \<open>2 ^ 64\<close>: the reports and what
  arrived after the last of them add up to the bytes and packets received, no report is negative, and after a report
  the lengths of the reports add up to the time from the first byte to the last report.
\<close>

theorem state_reports_partition:
  assumes "state_SetStartTime t0 state_zero = Some s0" "0 < t0" "t0 \<le> t1" "0 < n" "tmax - t1 < 2 ^ 63"
    and "state_ops_ok t1 tmax ops" "n + (\<Sum>x\<leftarrow>ops. op_bytes x) < 2 ^ 64" "(\<Sum>x\<leftarrow>ops. op_packets x) < 2 ^ 64"
    and "state_exec ops (state_AddReceivedBytes t1 n s0) = (rs, s)"
  shows "state_Total s = (n + (\<Sum>x\<leftarrow>ops. op_bytes x), \<Sum>x\<leftarrow>ops. op_packets x) \<and>
    (\<Sum>r\<leftarrow>rs. fst r) + (totalReceivedBytes s - lastReportReceivedBytes s) = fst (state_Total s) \<and>
    (\<Sum>r\<leftarrow>rs. fst (snd r)) + (totalReceivedPackets s - lastReportReceivedPackets s) = snd (state_Total s) \<and>
    (\<forall>r\<in>set rs. 0 \<le> fst r \<and> 0 \<le> fst (snd r) \<and> 0 \<le> snd (snd r)) \<and>
    (\<Sum>r\<leftarrow>rs. snd (snd r)) = MaxTime [lastReportTime s, t1] - t1"
proof -
  have n: "n < 2 ^ 64" using assms(7) op_sums_nonneg(1) [OF assms(6)] by simp
  let ?s = "state_AddReceivedBytes t1 n s0"
  have s: "?s = state_zero\<lparr>startTime := t0, totalReceivedBytes := n, firstByteTime := t1\<rparr>"
    using assms(1,4) n by (auto simp: state_SetStartTime_def state_AddReceivedBytes_def state_zero_def time_IsZero_def Let_def)
  have f: "report_from ?s = t1" using assms(2,3) by (simp add: s report_from_def MaxTime_3 state_zero_def time_zero_def)
  have "firstByteTime s = t1 \<and> startTime s = t0"
    using state_exec_times [OF assms(9)] assms(2,3) by (simp add: s time_zero_def)
  then have "report_from s = MaxTime [lastReportTime s, t1]"
    using assms(2,3) by (auto simp: report_from_def MaxTime_def time_zero_def)
  moreover have "exec_sums ops ?s rs s"
    using assms(2-8) by (intro state_exec_sums [OF _ _ _ _ _ _ _ _ _ assms(9)])
      (simp_all only: f, simp_all add: s state_zero_def time_zero_def)
  ultimately show ?thesis unfolding exec_sums_def f by (simp add: s state_Total_def state_zero_def)
qed

lemma state_reports_partition_witness:
  "state_Total (snd (state_exec [RecvBytes 130 10, Report 200, RecvPackets 3, RecvBytes 250 5, Report 300, RecvBytes 310 2]
     (state_AddReceivedBytes 120 1 (state_zero\<lparr>startTime := 100\<rparr>)))) = (18, 3) \<and>
   (\<Sum>r\<leftarrow>fst (state_exec [RecvBytes 130 10, Report 200, RecvPackets 3, RecvBytes 250 5, Report 300, RecvBytes 310 2]
     (state_AddReceivedBytes 120 1 (state_zero\<lparr>startTime := 100\<rparr>))). fst r) + 2 = 18"
proof -
  let ?ops = "[RecvBytes 130 10, Report 200, RecvPackets 3, RecvBytes 250 5, Report 300, RecvBytes 310 2]"
  obtain rs s where e: "state_exec ?ops (state_AddReceivedBytes 120 1 (state_zero\<lparr>startTime := 100\<rparr>)) = (rs, s)"
    by (cases "state_exec ?ops (state_AddReceivedBytes 120 1 (state_zero\<lparr>startTime := 100\<rparr>))")
  have z: "state_SetStartTime 100 state_zero = Some (state_zero\<lparr>startTime := 100\<rparr>)"
    by (simp add: state_SetStartTime_def state_zero_def time_IsZero_def)
  have "lastReportReceivedBytes s = 16"
    using e by (auto simp: state_AddReceivedBytes_def state_AddReceivedPackets_def state_GetAndResetReport_def
        state_zero_def time_IsZero_def time_zero_def)
  with state_reports_partition [OF z _ _ _ _ _ _ _ e, of 400] show ?thesis
    unfolding e by (simp add: state_Total_def)
qed

end
