(* ===== verification/SingleStores.thy ===== *)
theory SingleStores
  imports Prelude
begin

text \<open>
  \<open>src/common/single_session_cache.go\<close>, \<open>single_token_store.go\<close> and \<open>0rtt_utils.go\<close>: two cells that keep the first
  session ticket and the first address token of a connection, and the connection that is made only to gather them.
  A cell's context is the flag that says whether it was cancelled; a pointer is an \<open>option\<close>.  \<open>Await\<close> blocks while
  the context is open.  The locale \<open>single_cell\<close> states what both cells promise: the first \<open>Put\<close> wins.  The
  connection itself (\<open>quic.DialAddr\<close>) is an argument: what it puts into the cells.
\<close>

datatype 'a call = Blocked | Panicked | Returned 'a

subsection \<open>The session cache\<close>

record 'v SingleSessionCache =
  sc_done :: bool
  sc_sessionKey :: "string option"
  sc_session :: "'v option"

definition NewSingleSessionCache :: "'v SingleSessionCache" where
  "NewSingleSessionCache = \<lparr>sc_done = False, sc_sessionKey = None, sc_session = None\<rparr>"

text \<open>\<open>Get\<close> returns its own named result, which is still nil, instead of the stored session.\<close>

definition sc_Get :: "string \<Rightarrow> 'v SingleSessionCache \<Rightarrow> ('v option \<times> bool) option" where
  "sc_Get key s =
     (if sc_done s then
        (case sc_sessionKey s of
           None \<Rightarrow> None
         | Some k \<Rightarrow> Some (if key = k then (None, True) else (None, False)))
      else Some (None, False))"

definition sc_Put :: "string \<Rightarrow> 'v option \<Rightarrow> 'v SingleSessionCache \<Rightarrow> 'v SingleSessionCache" where
  "sc_Put key cs s =
     (if sc_done s then s else s\<lparr>sc_sessionKey := Some key, sc_session := cs, sc_done := True\<rparr>)"

definition sc_Await :: "'v SingleSessionCache \<Rightarrow> (string \<times> 'v option) call" where
  "sc_Await s =
     (if \<not> sc_done s then Blocked
      else case sc_sessionKey s of None \<Rightarrow> Panicked | Some k \<Rightarrow> Returned (k, sc_session s))"

subsection \<open>The token store\<close>

record 'v SingleTokenStore =
  ts_done :: bool
  ts_key :: "string option"
  ts_token :: "'v option"

definition NewSingleTokenStore :: "'v SingleTokenStore" where
  "NewSingleTokenStore = \<lparr>ts_done = False, ts_key = None, ts_token = None\<rparr>"

definition ts_Pop :: "string \<Rightarrow> 'v SingleTokenStore \<Rightarrow> 'v option option" where
  "ts_Pop key s =
     (if ts_done s then
        (case ts_key s of
           None \<Rightarrow> None
         | Some k \<Rightarrow> Some (if key = k then ts_token s else None))
      else Some None)"

definition ts_Put :: "string \<Rightarrow> 'v option \<Rightarrow> 'v SingleTokenStore \<Rightarrow> 'v SingleTokenStore" where
  "ts_Put key token s = (if ts_done s then s else s\<lparr>ts_key := Some key, ts_token := token, ts_done := True\<rparr>)"

definition ts_Await :: "'v SingleTokenStore \<Rightarrow> (string \<times> 'v option) call" where
  "ts_Await s =
     (if \<not> ts_done s then Blocked
      else case ts_key s of None \<Rightarrow> Panicked | Some k \<Rightarrow> Returned (k, ts_token s))"

subsection \<open>What a cell promises\<close>

locale single_cell =
  fixes empty :: 's
    and put :: "string \<Rightarrow> 'v option \<Rightarrow> 's \<Rightarrow> 's"
    and await :: "'s \<Rightarrow> (string \<times> 'v option) call"
    and invar :: "'s \<Rightarrow> bool"
  assumes invar_empty: "invar empty"
    and invar_put: "invar s \<Longrightarrow> invar (put k v s)"
    and await_empty: "await empty = Blocked"
    and put_open: "invar s \<Longrightarrow> await s = Blocked \<Longrightarrow> await (put k v s) = Returned (k, v)"
    and put_closed: "invar s \<Longrightarrow> await s = Returned x \<Longrightarrow> put k v s = s"
begin

lemma puts_closed: "invar s \<Longrightarrow> await s = Returned x \<Longrightarrow> fold (\<lambda>(k, v). put k v) kvs s = s"
  by (induction kvs) (auto simp: put_closed)

lemma first_put_wins:
  "await (fold (\<lambda>(k, v). put k v) kvs empty) = (case kvs of [] \<Rightarrow> Blocked | kv # _ \<Rightarrow> Returned kv)"
proof (cases kvs)
  case Nil
  then show ?thesis by (simp add: await_empty)
next
  case (Cons kv rest)
  obtain k v where kv: "kv = (k, v)" by fastforce
  have "await (put k v empty) = Returned (k, v)" by (rule put_open [OF invar_empty await_empty])
  with puts_closed [OF invar_put [OF invar_empty]] show ?thesis by (simp add: Cons kv)
qed

end

interpretation session_cell: single_cell NewSingleSessionCache sc_Put sc_Await
  "\<lambda>s. sc_done s \<longleftrightarrow> sc_sessionKey s \<noteq> None"
  by unfold_locales (auto simp: NewSingleSessionCache_def sc_Put_def sc_Await_def split: if_splits option.splits)

interpretation token_cell: single_cell NewSingleTokenStore ts_Put ts_Await
  "\<lambda>s. ts_done s \<longleftrightarrow> ts_key s \<noteq> None"
  by unfold_locales (auto simp: NewSingleTokenStore_def ts_Put_def ts_Await_def split: if_splits option.splits)

subsection \<open>Gathering a ticket and a token\<close>

text \<open>
  The outcome of \<open>PingToGatherSessionTicketAndToken\<close>: an error result, a panic, a wait that never ends, or the
  tickets and tokens put into the caches of the caller.
\<close>

datatype 'e ping_error = SessionCacheNil | DialError 'e | CloseError 'e

text \<open>
  \<open>dial\<close> is the connection: an error, or the puts it makes into the two cells.  \<open>putSession\<close> and \<open>putToken\<close> are the
  caches of the caller, \<open>close_err\<close> the result of closing the connection.
\<close>

definition PingToGatherSessionTicketAndToken ::
    "(string \<Rightarrow> 'v option \<Rightarrow> 'c \<Rightarrow> 'c) \<Rightarrow> (string \<Rightarrow> 'w option \<Rightarrow> 'd \<Rightarrow> 'd) \<Rightarrow>
     'e + (string \<times> 'v option) list \<times> (string \<times> 'w option) list \<Rightarrow> 'e option \<Rightarrow>
     'c option \<Rightarrow> 'd option \<Rightarrow> ('e ping_error option \<times> 'c option \<times> 'd option) call" where
  "PingToGatherSessionTicketAndToken putSession putToken dial close_err sessionCache tokenStore =
     (case sessionCache of
        None \<Rightarrow> Returned (Some SessionCacheNil, sessionCache, tokenStore)
      | Some cache \<Rightarrow>
        (case tokenStore of
           None \<Rightarrow> Panicked
         | Some store \<Rightarrow>
           (case dial of
              Inl e \<Rightarrow> Returned (Some (DialError e), sessionCache, tokenStore)
            | Inr (tickets, tokens) \<Rightarrow>
              (case sc_Await (fold (\<lambda>(k, v). sc_Put k v) tickets NewSingleSessionCache) of
                 Blocked \<Rightarrow> Blocked
               | Panicked \<Rightarrow> Panicked
               | Returned (k, v) \<Rightarrow>
                 (case ts_Await (fold (\<lambda>(k, v). ts_Put k v) tokens NewSingleTokenStore) of
                    Blocked \<Rightarrow> Blocked
                  | Panicked \<Rightarrow> Panicked
                  | Returned (k', v') \<Rightarrow>
                    Returned (case close_err of None \<Rightarrow> None | Some e \<Rightarrow> Some (CloseError e),
                      Some (putSession k v cache), Some (putToken k' v' store)))))))"

text \<open>
  C31: with a session cache and a token store, and a connection that is made, gathering waits for ever exactly when
  the peer sends no ticket or no token; otherwise the caller's caches get the first ticket and the first token of the
  connection, under their keys, and nothing else, also when closing the connection fails.
\<close>

theorem ping_gathers_first:
  "PingToGatherSessionTicketAndToken putSession putToken (Inr (tickets, tokens)) close_err (Some cache) (Some store) =
     (if tickets = [] \<or> tokens = [] then Blocked
      else Returned (map_option CloseError close_err,
             Some (putSession (fst (hd tickets)) (snd (hd tickets)) cache),
             Some (putToken (fst (hd tokens)) (snd (hd tokens)) store)))"
  unfolding PingToGatherSessionTicketAndToken_def
  by (cases tickets; cases tokens; cases close_err)
    (simp_all only: session_cell.first_put_wins token_cell.first_put_wins, auto)

text \<open>
  After any sequence of puts into a new session cache, a lookup never returns a session: for the key of the first
  put it reports success with a nil session.
\<close>

lemma session_cache_get_nil:
  "sc_Get key (fold (\<lambda>(k, v). sc_Put k v) kvs NewSingleSessionCache) = Some (None, kvs \<noteq> [] \<and> key = fst (hd kvs))"
proof (cases kvs)
  case (Cons kv rest)
  have "fold (\<lambda>(k, v). sc_Put k v) rest s = s" if "sc_done s" for s
    using that by (induction rest) (auto simp: sc_Put_def)
  then show ?thesis by (cases kv) (simp add: Cons sc_Get_def sc_Put_def NewSingleSessionCache_def)
qed (simp add: sc_Get_def NewSingleSessionCache_def)

text \<open>The token store, with the same structure, returns the stored token.\<close>

lemma token_store_pop:
  "ts_Pop key (fold (\<lambda>(k, v). ts_Put k v) kvs NewSingleTokenStore) =
     Some (if kvs \<noteq> [] \<and> key = fst (hd kvs) then snd (hd kvs) else None)"
proof (cases kvs)
  case (Cons kv rest)
  have "fold (\<lambda>(k, v). ts_Put k v) rest s = s" if "ts_done s" for s
    using that by (induction rest) (auto simp: ts_Put_def)
  then show ?thesis by (cases kv) (simp add: Cons ts_Pop_def ts_Put_def NewSingleTokenStore_def)
qed (simp add: ts_Pop_def NewSingleTokenStore_def)

end
