(* ===== verification/Client.thy ===== *)
theory Client
  imports MeasurementState SingleStores
begin

text \<open>
  \<open>src/client/client.go\<close>: the measuring client.  The QUIC connection, the clock and the file system are not part of
  the repository: what they answer is given as an argument, the reads of a stream as the list of their results.
  Running out of that list is \<open>Blocked\<close>: the call has not returned yet.  The receiving goroutine runs between the
  steps of the main one, on the reads its stream answers there.  The log is the list \<open>cl_log\<close> of the
  messages with their arguments, before they are formatted.  Shown here: when the receiver returns, panics and goes
  on, and what it counts; that the main loop ends; that the exported history adds up.
\<close>

definition RuntimeReachedErrorCode :: int where "RuntimeReachedErrorCode = 0"

text \<open>The error of a read: none, a \<open>*quic.ApplicationError\<close> with its code, or any other error.\<close>

datatype read_err = NoErr | ApplicationError int | OtherError

type_synonym read_result = "time \<times> int \<times> read_err"

text \<open>The rate of a report is \<open>None\<close> when it is not a finite number (a report of zero length).\<close>

record States =
  RateBits :: "f64 option"
  Bytes :: int
  Second :: int
  Packets :: int

datatype report_style = RawStyle | SecondStyle | TenthStyle

datatype client_log =
    LogEstablishment bool duration
  | LogFirstByte bool duration
  | LogReport report_style duration "f64 option" int int
  | LogTotal bool int int
  | LogExport bool
  | LogStoredTicket

record Client =
  cl_state :: State
  printRaw :: bool
  reportInterval :: duration
  StatesHistory :: "States list"
  cl_log :: "client_log list"

definition client_logf :: "client_log \<Rightarrow> Client \<Rightarrow> Client" where
  "client_logf m c = c\<lparr>cl_log := cl_log c @ [m]\<rparr>"

subsection \<open>Reports\<close>

definition rate_bits :: "int \<Rightarrow> duration \<Rightarrow> f64 option" where
  "rate_bits receivedBytes delta =
     (if duration_Seconds delta = 0 then None
      else Some (f64_div (f64_mul (f64_of_int receivedBytes) 8) (duration_Seconds delta)))"

definition client_reportEstablishmentTime :: "Client \<Rightarrow> Client" where
  "client_reportEstablishmentTime c =
     client_logf (LogEstablishment (printRaw c)
       (time_Sub (state_EstablishmentTime (cl_state c)) (state_StartTime (cl_state c)))) c"

definition client_reportFirstByte :: "Client \<Rightarrow> Client option" where
  "client_reportFirstByte c = do {
     t \<leftarrow> state_GetFirstByteTime (cl_state c);
     Some (client_logf (LogFirstByte (printRaw c) (time_Sub t (state_StartTime (cl_state c)))) c)
   }"

text \<open>\<open>report\<close> reads the clock three times: in \<open>GetAndResetReport\<close>, for the message, and for the history.\<close>

definition client_report :: "time \<Rightarrow> time \<Rightarrow> time \<Rightarrow> Client \<Rightarrow> Client option" where
  "client_report now now_log now_history c =
     (let ((receivedBytes, receivedPackets, delta), st) = state_GetAndResetReport now (cl_state c);
          c = c\<lparr>cl_state := st\<rparr>;
          style = (if printRaw c then RawStyle else if reportInterval c = time_Second then SecondStyle else TenthStyle)
      in do {
        t \<leftarrow> state_GetFirstByteTime st;
        let c = client_logf (LogReport style (time_Sub now_log t) (rate_bits receivedBytes delta)
                  receivedBytes receivedPackets) c
        in Some (c\<lparr>StatesHistory := StatesHistory c @
             [\<lparr>RateBits = rate_bits receivedBytes delta, Bytes = receivedBytes,
               Second = f64_to_i64 (duration_Seconds (time_Sub now_history t)), Packets = receivedPackets\<rparr>]\<rparr>)
      })"

text \<open>\<open>exportStates\<close>: the JSON encoder refuses infinities; then the file is created and written.\<close>

datatype export_error = JsonUnsupportedValue | CreateFailed | WriteFailed

definition client_exportStates :: "bool \<Rightarrow> bool \<Rightarrow> Client \<Rightarrow> export_error option" where
  "client_exportStates create_ok write_ok c =
     (if list_ex (\<lambda>s. RateBits s = None) (StatesHistory c) then Some JsonUnsupportedValue
      else if \<not> create_ok then Some CreateFailed
      else if \<not> write_ok then Some WriteFailed
      else None)"

definition client_reportTotal :: "bool \<Rightarrow> bool \<Rightarrow> Client \<Rightarrow> Client" where
  "client_reportTotal create_ok write_ok c =
     (let (receivedBytes, receivedPackets) = state_Total (cl_state c);
          c = client_logf (LogTotal (printRaw c) receivedBytes receivedPackets) c
      in client_logf (LogExport (client_exportStates create_ok write_ok c = None)) c)"

subsection \<open>Receiving\<close>

definition client_count :: "time \<Rightarrow> int \<Rightarrow> Client \<Rightarrow> Client" where
  "client_count now n c = c\<lparr>cl_state := state_AddReceivedBytes now (u64 n) (cl_state c)\<rparr>"

fun client_receiveFirstByte :: "read_result list \<Rightarrow> Client \<Rightarrow> (read_err \<times> Client) call" where
  "client_receiveFirstByte [] c = Blocked"
| "client_receiveFirstByte ((now, received, err) # reads) c =
     (if err \<noteq> NoErr then Returned (err, c)
      else if received \<noteq> 0 then Returned (NoErr, client_count now received c)
      else client_receiveFirstByte reads c)"

fun client_receive :: "read_result list \<Rightarrow> Client \<Rightarrow> unit call \<times> Client" where
  "client_receive [] c = (Blocked, c)"
| "client_receive ((now, received, err) # reads) c =
     (let c = client_count now received c
      in case err of
           NoErr \<Rightarrow> client_receive reads c
         | ApplicationError code \<Rightarrow>
             if code = RuntimeReachedErrorCode then (Returned (), c) else client_receive reads c
         | OtherError \<Rightarrow> (Panicked, c))"

subsection \<open>The run\<close>

text \<open>
  The receiving goroutine beside the main one: a flag says that it is still running.  Given what its stream answers
  next, it goes on, ends, or panics, which ends the process (\<open>None\<close>).
\<close>

definition client_background :: "read_result list \<Rightarrow> bool \<times> Client \<Rightarrow> (bool \<times> Client) option" where
  "client_background reads rc =
     (let (running, c) = rc
      in if \<not> running then Some (False, c)
         else case client_receive reads c of
                (Blocked, c) \<Rightarrow> Some (True, c)
              | (Returned _, c) \<Rightarrow> Some (False, c)
              | (Panicked, c) \<Rightarrow> None)"

text \<open>
  One turn of the main loop: what the receiver gets before the clock is read, the clock, what the receiver gets during
  the sleep, whether the user interrupts the process then (its handler closes the connection and exits), and the clock
  readings of the report.
\<close>

record loop_turn =
  turn_before :: "read_result list"
  turn_check :: time
  turn_during :: "read_result list"
  turn_interrupt :: bool
  turn_times :: "time \<times> time \<times> time"

datatype client_panic =
  PingFailed | DialFailed | OpenFailed | WriteStreamFailed | CloseStreamFailed | FirstByteFailed read_err |
  ReceiveFailed | CloseConnectionFailed | StateMisuse

datatype loop_end = LoopWaits | LoopPanics client_panic | LoopInterrupted | LoopDone bool Client

fun client_probe_loop :: "duration \<Rightarrow> loop_turn list \<Rightarrow> bool \<times> Client \<Rightarrow> loop_end" where
  "client_probe_loop probeTime [] rc = LoopWaits"
| "client_probe_loop probeTime (x # xs) rc =
     (case client_background (turn_before x) rc of
        None \<Rightarrow> LoopPanics ReceiveFailed
      | Some (running, c) \<Rightarrow>
          (case state_GetFirstByteTime (cl_state c) of
             None \<Rightarrow> LoopPanics StateMisuse
           | Some t \<Rightarrow>
               if probeTime < time_Sub (turn_check x) t then LoopDone running c
               else case client_background (turn_during x) (running, c) of
                 None \<Rightarrow> LoopPanics ReceiveFailed
               | Some (running, c) \<Rightarrow>
                   if turn_interrupt x then LoopInterrupted
                   else let (t1, t2, t3) = turn_times x
                        in case client_report t1 t2 t3 c of
                             None \<Rightarrow> LoopPanics StateMisuse
                           | Some c \<Rightarrow> client_probe_loop probeTime xs (running, c)))"

record client_args =
  arg_timeToFirstByteOnly :: bool
  arg_printRaw :: bool
  arg_probeTime :: duration
  arg_reportInterval :: duration
  arg_initialReceiveWindow :: int
  arg_maxReceiveWindow :: int
  arg_use0RTT :: bool
  arg_http3enabled :: bool

text \<open>The answers of the outside world to one run.\<close>

record client_world =
  w_ping_ok :: bool
  w_start :: time
  w_dial_ok :: bool
  w_established :: time
  w_open_ok :: bool
  w_write_ok :: bool
  w_close_ok :: bool
  w_first_reads :: "read_result list"
  w_turns :: "loop_turn list"
  w_last_reads :: "read_result list"
  w_closed_ok :: bool
  w_create_ok :: bool
  w_export_ok :: bool

datatype client_outcome =
  ClientPanic client_panic | ClientWaits | ClientInterrupted | ClientHttp3 Client | ClientDone Client

definition client_new :: "bool \<Rightarrow> duration \<Rightarrow> Client" where
  "client_new raw ivl =
     \<lparr>cl_state = state_zero, printRaw = raw, reportInterval = ivl, StatesHistory = [], cl_log = []\<rparr>"

text \<open>The stream windows of the configuration: the maximum is raised to the initial window.\<close>

definition client_windows :: "client_args \<Rightarrow> int \<times> int" where
  "client_windows a =
     (arg_initialReceiveWindow a,
      if arg_maxReceiveWindow a < arg_initialReceiveWindow a then arg_initialReceiveWindow a
      else arg_maxReceiveWindow a)"

text \<open>
  After the first byte: the measurement, closing the connection and the totals; without a measurement no receiver is
  started.  \<open>w_last_reads\<close> is what the receiver gets between the last turn and the totals.
\<close>

definition client_measure :: "client_args \<Rightarrow> client_world \<Rightarrow> Client \<Rightarrow> client_outcome" where
  "client_measure a w c =
     (case client_reportFirstByte c of
        None \<Rightarrow> ClientPanic StateMisuse
      | Some c \<Rightarrow>
          (case (if arg_timeToFirstByteOnly a then LoopDone False c
                 else client_probe_loop (arg_probeTime a) (w_turns w) (True, c)) of
             LoopWaits \<Rightarrow> ClientWaits
           | LoopPanics p \<Rightarrow> ClientPanic p
           | LoopInterrupted \<Rightarrow> ClientInterrupted
           | LoopDone running c \<Rightarrow>
               (case client_background (w_last_reads w) (running, c) of
                  None \<Rightarrow> ClientPanic ReceiveFailed
                | Some (_, c) \<Rightarrow>
                    if \<not> w_closed_ok w then ClientPanic CloseConnectionFailed
                    else ClientDone (client_reportTotal (w_create_ok w) (w_export_ok w) c))))"

text \<open>From the dial to the first byte.\<close>

definition client_connect :: "client_args \<Rightarrow> client_world \<Rightarrow> Client \<Rightarrow> client_outcome" where
  "client_connect a w c =
     (if \<not> w_dial_ok w then ClientPanic DialFailed
      else case state_SetEstablishmentTime (w_established w) (cl_state c) of
        None \<Rightarrow> ClientPanic StateMisuse
      | Some st \<Rightarrow>
          let c = client_reportEstablishmentTime (c\<lparr>cl_state := st\<rparr>) in
          if \<not> w_open_ok w then ClientPanic OpenFailed
          else if \<not> w_write_ok w then ClientPanic WriteStreamFailed
          else if \<not> w_close_ok w then ClientPanic CloseStreamFailed
          else case client_receiveFirstByte (w_first_reads w) c of
            Blocked \<Rightarrow> ClientWaits
          | Panicked \<Rightarrow> ClientPanic StateMisuse
          | Returned (err, c) \<Rightarrow>
              if err \<noteq> NoErr then ClientPanic (FirstByteFailed err) else client_measure a w c)"

definition client_Run :: "client_args \<Rightarrow> client_world \<Rightarrow> client_outcome" where
  "client_Run a w =
     (let c = client_new (arg_printRaw a) (arg_reportInterval a) in
      if arg_use0RTT a \<and> \<not> w_ping_ok w then ClientPanic PingFailed
      else
        let c = (if arg_use0RTT a then client_logf LogStoredTicket c else c)
        in case state_SetStartTime (w_start w) (cl_state c) of
             None \<Rightarrow> ClientPanic StateMisuse
           | Some st \<Rightarrow>
               let c = c\<lparr>cl_state := st\<rparr>
               in if arg_http3enabled a then ClientHttp3 c else client_connect a w c)"

subsection \<open>The receiver\<close>

text \<open>The errors after which the receiver reads again.\<close>

fun goes_on :: "read_err \<Rightarrow> bool" where
  "goes_on NoErr \<longleftrightarrow> True"
| "goes_on (ApplicationError code) \<longleftrightarrow> code \<noteq> RuntimeReachedErrorCode"
| "goes_on OtherError \<longleftrightarrow> False"

lemma u64_add_right [simp]: "u64 (a + u64 b) = u64 (a + b)"
  by (simp add: u64_def mod_simps)

lemma client_count_total: "u64 (totalReceivedBytes (cl_state (client_count t n c)) + m) =
    u64 (totalReceivedBytes (cl_state c) + (n + m))"
proof -
  have "totalReceivedBytes (cl_state (client_count t n c)) = u64 (totalReceivedBytes (cl_state c) + n)"
    by (simp add: client_count_def state_AddReceivedBytes_def Let_def)
  then show ?thesis by (simp add: add.assoc)
qed

text \<open>
  C21: the receiver stops at the first read that fails with something else than a foreign application error: it
  returns for the code of a finished measurement and panics for any other error.  Until then it goes on, also when
  the peer has closed the connection with another application error code, for every number of reads that report it.
  The bytes of every read, of the last one included, are counted (modulo \<open>2 ^ 64\<close>).
\<close>

theorem client_receive_outcome:
  "fst (client_receive reads c) =
     (case dropWhile (\<lambda>r. goes_on (snd (snd r))) reads of
        [] \<Rightarrow> Blocked
      | (t, n, e) # _ \<Rightarrow> if e = OtherError then Panicked else Returned ()) \<and>
   u64 (totalReceivedBytes (cl_state (snd (client_receive reads c)))) =
     u64 (totalReceivedBytes (cl_state c) +
       (\<Sum>r\<leftarrow>takeWhile (\<lambda>r. goes_on (snd (snd r))) reads @ take 1 (dropWhile (\<lambda>r. goes_on (snd (snd r))) reads). fst (snd r)))"
proof (induction reads arbitrary: c)
  case (Cons r reads)
  obtain t n e where r: "r = (t, n, e)" by (cases r)
  note ih = Cons.IH [of "client_count t n c"]
  show ?case
  proof (cases e)
    case NoErr
    with ih show ?thesis by (simp add: r client_count_total add.assoc)
  next
    case (ApplicationError code)
    with ih client_count_total [of t n c 0] show ?thesis
      by (cases "code = RuntimeReachedErrorCode") (simp_all add: r client_count_total add.assoc)
  next
    case OtherError
    with client_count_total [of t n c 0] show ?thesis by (simp add: r)
  qed
qed simp

subsection \<open>The main loop\<close>

lemma client_count_fields [simp]:
  "StatesHistory (client_count t n c) = StatesHistory c"
  "lastReportReceivedBytes (cl_state (client_count t n c)) = lastReportReceivedBytes (cl_state c)"
  "firstByteTime (cl_state c) \<noteq> time_zero \<Longrightarrow> firstByteTime (cl_state (client_count t n c)) = firstByteTime (cl_state c)"
  by (simp_all add: client_count_def state_AddReceivedBytes_def Let_def time_IsZero_def)

text \<open>What the receiver leaves as it is; and it goes on or ends, unless a read fails.\<close>

lemma client_receive_fields [simp]:
  "StatesHistory (snd (client_receive reads c)) = StatesHistory c"
  "lastReportReceivedBytes (cl_state (snd (client_receive reads c))) = lastReportReceivedBytes (cl_state c)"
  "firstByteTime (cl_state c) \<noteq> time_zero \<Longrightarrow>
   firstByteTime (cl_state (snd (client_receive reads c))) = firstByteTime (cl_state c)"
  by (induction reads c rule: client_receive.induct) (simp_all add: Let_def split: read_err.split)

definition reads_ok :: "read_result list \<Rightarrow> bool" where
  "reads_ok = list_all (\<lambda>r. snd (snd r) \<noteq> OtherError)"

lemma client_receive_panics: "fst (client_receive reads c) = Panicked \<Longrightarrow> \<not> reads_ok reads"
  by (induction reads c rule: client_receive.induct)
    (auto simp: reads_ok_def Let_def split: read_err.splits if_splits)

lemma client_background_fields:
  assumes "client_background reads (running, c) = Some (running', c')"
  shows "StatesHistory c' = StatesHistory c"
    and "lastReportReceivedBytes (cl_state c') = lastReportReceivedBytes (cl_state c)"
    and "firstByteTime (cl_state c) \<noteq> time_zero \<Longrightarrow> firstByteTime (cl_state c') = firstByteTime (cl_state c)"
proof -
  have "c' = c \<or> c' = snd (client_receive reads c)"
    using assms by (auto simp: client_background_def split: if_splits prod.splits call.splits)
  then show "StatesHistory c' = StatesHistory c"
    and "lastReportReceivedBytes (cl_state c') = lastReportReceivedBytes (cl_state c)"
    and "firstByteTime (cl_state c) \<noteq> time_zero \<Longrightarrow> firstByteTime (cl_state c') = firstByteTime (cl_state c)"
    by auto
qed

lemma client_background_Some:
  assumes "reads_ok reads"
  obtains running' c' where "client_background reads (running, c) = Some (running', c')"
    "StatesHistory c' = StatesHistory c"
    "firstByteTime (cl_state c) \<noteq> time_zero \<longrightarrow> firstByteTime (cl_state c') = firstByteTime (cl_state c)"
proof -
  have "fst (client_receive reads c) \<noteq> Panicked" using assms client_receive_panics by blast
  then obtain running' c' where "client_background reads (running, c) = Some (running', c')"
    by (cases running; cases "client_receive reads c"; cases "fst (client_receive reads c)")
      (auto simp: client_background_def)
  with that client_background_fields [OF this] show ?thesis by blast
qed

text \<open>A turn in which nothing fails and the user does not interrupt.\<close>

definition turn_quiet :: "loop_turn \<Rightarrow> bool" where
  "turn_quiet x \<longleftrightarrow> reads_ok (turn_before x) \<and> reads_ok (turn_during x) \<and> \<not> turn_interrupt x"

lemma client_report_Some:
  assumes "firstByteTime (cl_state c) \<noteq> time_zero"
  shows "\<exists>c'. client_report t1 t2 t3 c = Some c' \<and> firstByteTime (cl_state c') = firstByteTime (cl_state c) \<and>
    length (StatesHistory c') = Suc (length (StatesHistory c))"
  using assms by (simp add: client_report_def state_GetAndResetReport_def state_GetFirstByteTime_def time_IsZero_def
      client_logf_def Let_def)

lemma client_probe_loop_returns:
  assumes "firstByteTime (cl_state c) = t" "t \<noteq> time_zero" "0 < d" "0 \<le> probeTime" "probeTime < 2 ^ 62"
    and "\<forall>i < length xs. t + (k + int i) * d \<le> turn_check (xs ! i)" "0 \<le> k" "list_all turn_quiet xs"
    and "probeTime div d + 1 < k + int (length xs)" "k \<le> probeTime div d + 1"
  shows "\<exists>r c'. client_probe_loop probeTime xs (running, c) = LoopDone r c' \<and>
    int (length (StatesHistory c')) \<le> int (length (StatesHistory c)) + (probeTime div d + 1 - k)"
  using assms(1,2,6-10)
proof (induction xs arbitrary: running c k)
  case (Cons x xs)
  have q: "reads_ok (turn_before x)" "reads_ok (turn_during x)" "\<not> turn_interrupt x"
    using Cons.prems(5) by (simp_all add: turn_quiet_def)
  obtain r1 c1 where c1: "client_background (turn_before x) (running, c) = Some (r1, c1)"
      "StatesHistory c1 = StatesHistory c" "firstByteTime (cl_state c1) = t"
    using client_background_Some [OF q(1), of running c] Cons.prems(1,2) by auto
  have f: "state_GetFirstByteTime (cl_state c1) = Some t"
    using Cons.prems(2) c1(3) by (simp add: state_GetFirstByteTime_def time_IsZero_def)
  show ?case
  proof (cases "probeTime < time_Sub (turn_check x) t")
    case True
    with f c1 Cons.prems(7) show ?thesis by simp
  next
    case False
    have chk: "t + k * d \<le> turn_check x" using Cons.prems(3) by (auto dest: spec [of _ 0])
    with False have "k * d \<le> probeTime" using assms(5) by (auto simp: time_Sub_def not_less)
    then have k: "k \<le> probeTime div d" using zdiv_mono1 [of "k * d" probeTime d] assms(3) by simp
    obtain r2 c2 where c2: "client_background (turn_during x) (r1, c1) = Some (r2, c2)"
        "StatesHistory c2 = StatesHistory c" "firstByteTime (cl_state c2) = t"
      using client_background_Some [OF q(2), of r1 c1] Cons.prems(2) c1 by auto
    obtain t1 t2 t3 where ts: "turn_times x = (t1, t2, t3)" by (cases "turn_times x")
    obtain c3 where c3: "client_report t1 t2 t3 c2 = Some c3"
        "firstByteTime (cl_state c3) = t" "length (StatesHistory c3) = Suc (length (StatesHistory c))"
      using client_report_Some [of c2 t1 t2 t3] Cons.prems(2) c2 by auto
    have "\<exists>r e. client_probe_loop probeTime xs (r2, c3) = LoopDone r e \<and>
      int (length (StatesHistory e)) \<le> int (length (StatesHistory c3)) + (probeTime div d + 1 - (k + 1))"
      using Cons.prems c3 k by (intro Cons.IH) (auto simp: algebra_simps dest: spec [of _ "Suc _"])
    with f False ts c1 c2 c3 q(3) show ?thesis by auto
  qed
qed simp

text \<open>The history adds up to what the reports covered, modulo \<open>2 ^ 64\<close>.\<close>

definition client_history_ok :: "Client \<Rightarrow> bool" where
  "client_history_ok c \<longleftrightarrow>
     u64 (\<Sum>s\<leftarrow>StatesHistory c. Bytes s) = u64 (lastReportReceivedBytes (cl_state c))"

lemma client_history_ok_cong:
  "client_history_ok c \<Longrightarrow> StatesHistory d = StatesHistory c \<Longrightarrow>
   lastReportReceivedBytes (cl_state d) = lastReportReceivedBytes (cl_state c) \<Longrightarrow> client_history_ok d"
  by (simp add: client_history_ok_def)

lemma u64_telescope: "u64 a = u64 l \<Longrightarrow> u64 (a + (b - l)) = u64 b"
proof -
  assume e: "u64 a = u64 l"
  have "u64 (a + (b - l)) = u64 (u64 a + (b - l))" by simp
  also have "\<dots> = u64 (u64 l + (b - l))" by (simp only: e)
  also have "\<dots> = u64 b" by simp
  finally show ?thesis .
qed

lemma client_report_history:
  assumes "client_history_ok c" "client_report t1 t2 t3 c = Some c'"
  shows "client_history_ok c'"
  using assms by (auto simp: client_history_ok_def client_report_def state_GetAndResetReport_def client_logf_def Let_def
      u64_telescope elim!: bind_eq_SomeE)

lemma client_background_history:
  "client_history_ok c \<Longrightarrow> client_background reads (running, c) = Some (running', c') \<Longrightarrow> client_history_ok c'"
  by (blast intro: client_history_ok_cong client_background_fields(1,2))

lemma client_probe_loop_history:
  assumes "client_history_ok c" "client_probe_loop probeTime xs (running, c) = LoopDone r c'"
  shows "client_history_ok c'"
  using assms
proof (induction xs arbitrary: running c)
  case (Cons x xs)
  from Cons.prems(2) obtain r1 c1 where c1: "client_background (turn_before x) (running, c) = Some (r1, c1)"
    by (auto split: option.splits)
  note ok1 = client_background_history [OF Cons.prems(1) c1]
  show ?case
  proof (cases "c' = c1")
    case False
    with Cons.prems(2) c1 obtain r2 c2 t1 t2 t3 c3 where
        c2: "client_background (turn_during x) (r1, c1) = Some (r2, c2)"
      and c3: "client_report t1 t2 t3 c2 = Some c3" "client_probe_loop probeTime xs (r2, c3) = LoopDone r c'"
      by (fastforce split: option.splits if_splits prod.splits)
    have "client_history_ok c3" using client_background_history [OF ok1 c2] c3(1) by (rule client_report_history)
    then show ?thesis using c3(2) by (rule Cons.IH)
  qed (simp add: ok1)
qed simp

lemma client_receiveFirstByte_zeros:
  assumes "list_all (\<lambda>r. fst (snd r) = 0 \<and> snd (snd r) = NoErr) zs" "n \<noteq> 0"
  shows "client_receiveFirstByte (zs @ (t, n, NoErr) # ys) c = Returned (NoErr, client_count t n c)"
  using assms by (induction zs) auto

lemma client_Run_measures:
  assumes "\<not> arg_http3enabled a" "arg_use0RTT a \<longrightarrow> w_ping_ok w"
    and "w_dial_ok w" "w_open_ok w" "w_write_ok w" "w_close_ok w"
    and "w_first_reads w = zs @ (t, n, NoErr) # ys" "list_all (\<lambda>r. fst (snd r) = 0 \<and> snd (snd r) = NoErr) zs"
    and "0 < n" "n < 2 ^ 63"
  shows "\<exists>c. client_Run a w = client_measure a w c \<and> client_history_ok c \<and> StatesHistory c = [] \<and>
    firstByteTime (cl_state c) = t"
proof -
  let ?c0 = "client_new (arg_printRaw a) (arg_reportInterval a)"
  let ?c1 = "if arg_use0RTT a then client_logf LogStoredTicket ?c0 else ?c0"
  let ?c2 = "?c1\<lparr>cl_state := state_zero\<lparr>startTime := w_start w\<rparr>\<rparr>"
  let ?c3 = "client_reportEstablishmentTime
    (?c2\<lparr>cl_state := state_zero\<lparr>startTime := w_start w, establishmentTime := w_established w\<rparr>\<rparr>)"
  let ?c4 = "client_count t n ?c3"
  have z: "cl_state ?c1 = state_zero" by (simp add: client_new_def client_logf_def)
  have "client_Run a w = client_connect a w ?c2"
    using assms(1,2) by (auto simp: client_Run_def Let_def z state_SetStartTime_def time_IsZero_def state_zero_def)
  also have "\<dots> = client_measure a w ?c4"
    using assms(3-6) client_receiveFirstByte_zeros [OF assms(8), of n t ys ?c3] assms(9)
    by (simp add: client_connect_def assms(7) state_SetEstablishmentTime_def time_IsZero_def state_zero_def Let_def)
  finally have "client_Run a w = client_measure a w ?c4" .
  moreover have "client_history_ok ?c4" "StatesHistory ?c4 = []"
    by (simp_all add: client_history_ok_def client_reportEstablishmentTime_def client_logf_def client_new_def
        state_zero_def)
  moreover have "firstByteTime (cl_state ?c4) = t"
    using assms(9,10) by (simp add: client_count_def state_AddReceivedBytes_def Let_def client_logf_def
        client_reportEstablishmentTime_def state_zero_def time_IsZero_def)
  ultimately show ?thesis by blast
qed

text \<open>The run from the first byte to the totals, shared by the properties on runs.\<close>

lemma client_Run_ends_after:
  assumes "\<not> arg_timeToFirstByteOnly a" "\<not> arg_http3enabled a" "arg_use0RTT a \<longrightarrow> w_ping_ok w"
    and "w_dial_ok w" "w_open_ok w" "w_write_ok w" "w_close_ok w" "w_closed_ok w"
    and "w_first_reads w = zs @ (t, n, NoErr) # ys" "list_all (\<lambda>r. fst (snd r) = 0 \<and> snd (snd r) = NoErr) zs"
    and "0 < t" "0 < n" "n < 2 ^ 63" "0 < d" "0 \<le> arg_probeTime a" "arg_probeTime a < 2 ^ 62"
    and "\<forall>i < length (w_turns w). t + int i * d \<le> turn_check (w_turns w ! i)"
    and "arg_probeTime a div d + 1 < int (length (w_turns w))"
    and "list_all turn_quiet (w_turns w)" "reads_ok (w_last_reads w)"
  shows "\<exists>c. client_Run a w = ClientDone c \<and>
    int (length (StatesHistory c)) \<le> arg_probeTime a div d + 1 \<and>
    u64 ((\<Sum>s\<leftarrow>StatesHistory c. Bytes s) +
      (totalReceivedBytes (cl_state c) - lastReportReceivedBytes (cl_state c))) = u64 (fst (state_Total (cl_state c)))"
proof -
  obtain c where c: "client_Run a w = client_measure a w c" "client_history_ok c" "StatesHistory c = []"
      "firstByteTime (cl_state c) = t"
    using client_Run_measures [OF assms(2-7,9,10,12,13)] by blast
  have t: "t \<noteq> time_zero" using assms(11) by (simp add: time_zero_def)
  obtain c5 where c5: "client_reportFirstByte c = Some c5" "cl_state c5 = cl_state c" "StatesHistory c5 = []"
    using c(3,4) t by (simp add: client_reportFirstByte_def state_GetFirstByteTime_def time_IsZero_def client_logf_def)
  obtain r6 c6 where c6: "client_probe_loop (arg_probeTime a) (w_turns w) (True, c5) = LoopDone r6 c6"
      "int (length (StatesHistory c6)) \<le> arg_probeTime a div d + 1"
    using client_probe_loop_returns [of c5 t d "arg_probeTime a" "w_turns w" 0 True] assms(14-19) c(4) t c5
    by (auto simp: pos_imp_zdiv_nonneg_iff)
  obtain r7 c7 where c7: "client_background (w_last_reads w) (r6, c6) = Some (r7, c7)"
      "StatesHistory c7 = StatesHistory c6"
    using client_background_Some [OF assms(20), of r6 c6] by blast
  let ?c8 = "client_reportTotal (w_create_ok w) (w_export_ok w) c7"
  have "client_Run a w = ClientDone ?c8"
    using assms(1,8) c(1) c5(1) c6(1) c7(1) by (simp add: client_measure_def)
  moreover have "client_history_ok c5" using c(2,3) c5(2,3) by (intro client_history_ok_cong [OF c(2)]) simp_all
  then have "client_history_ok c6" using c6(1) by (rule client_probe_loop_history)
  then have "client_history_ok c7" using c7(1) by (rule client_background_history)
  moreover have "StatesHistory ?c8 = StatesHistory c7" "cl_state ?c8 = cl_state c7"
    by (simp_all add: client_reportTotal_def client_logf_def Let_def split_beta)
  ultimately show ?thesis
    using c6(2) c7(2) by (simp add: client_history_ok_def u64_telescope state_Total_def)
qed

text \<open>
  C10: a run that reaches the server and gets its first bytes after any number of empty reads ends once the clock
  has advanced, unless the user interrupts it or a read fails: when every turn of the loop takes at least \<open>d > 0\<close>, it ends after at most \<open>probeTime / d + 1\<close> reports
  and no call on the way panics, and the bytes of the exported history plus what arrived after the last report are the
  reported total (modulo \<open>2 ^ 64\<close>).
\<close>

theorem client_run_ends:
  assumes "\<not> arg_timeToFirstByteOnly a" "\<not> arg_http3enabled a" "arg_use0RTT a \<longrightarrow> w_ping_ok w"
    and "w_dial_ok w" "w_open_ok w" "w_write_ok w" "w_close_ok w" "w_closed_ok w"
    and "w_first_reads w = zs @ (t, n, NoErr) # ys" "list_all (\<lambda>r. fst (snd r) = 0 \<and> snd (snd r) = NoErr) zs"
    and "0 < t" "0 < n" "n < 2 ^ 63" "0 < d" "0 \<le> arg_probeTime a" "arg_probeTime a < 2 ^ 62"
    and "\<forall>i < length (w_turns w). t + int i * d \<le> turn_check (w_turns w ! i)"
    and "arg_probeTime a div d + 1 < int (length (w_turns w))"
    and "list_all turn_quiet (w_turns w)" "reads_ok (w_last_reads w)"
  shows "\<exists>c. client_Run a w = ClientDone c \<and>
    int (length (StatesHistory c)) \<le> arg_probeTime a div d + 1 \<and>
    u64 ((\<Sum>s\<leftarrow>StatesHistory c. Bytes s) +
      (totalReceivedBytes (cl_state c) - lastReportReceivedBytes (cl_state c))) = u64 (fst (state_Total (cl_state c)))"
  using assms by (rule client_Run_ends_after)

definition sample_args :: client_args where
  "sample_args =
     \<lparr>arg_timeToFirstByteOnly = False, arg_printRaw = True, arg_probeTime = 1500000000,
      arg_reportInterval = time_Second, arg_initialReceiveWindow = 524288, arg_maxReceiveWindow = 6291456,
      arg_use0RTT = False, arg_http3enabled = False\<rparr>"

definition sample_world :: client_world where
  "sample_world =
     \<lparr>w_ping_ok = True, w_start = 1000, w_dial_ok = True, w_established = 2000, w_open_ok = True, w_write_ok = True,
      w_close_ok = True, w_first_reads = [(2500, 0, NoErr), (3000, 1, NoErr)],
      w_turns =
        [\<lparr>turn_before = [], turn_check = 4000, turn_during = [(5000, 65536, NoErr)], turn_interrupt = False,
          turn_times = (1000004000, 1000004001, 1000004002)\<rparr>,
         \<lparr>turn_before = [], turn_check = 1000005000, turn_during = [(1000006000, 100, NoErr)], turn_interrupt = False,
          turn_times = (2000005000, 2000005001, 2000005002)\<rparr>,
         \<lparr>turn_before = [(2000005500, 7, NoErr)], turn_check = 2000006000, turn_during = [], turn_interrupt = False, turn_times = (0, 0, 0)\<rparr>],
      w_last_reads = [(2000007000, 9, NoErr), (2000008000, 0, ApplicationError 0)],
      w_closed_ok = True, w_create_ok = True, w_export_ok = True\<rparr>"

lemma client_run_ends_witness:
  "\<exists>c. client_Run sample_args sample_world = ClientDone c \<and> int (length (StatesHistory c)) \<le> 2 \<and>
    u64 ((\<Sum>s\<leftarrow>StatesHistory c. Bytes s) +
      (totalReceivedBytes (cl_state c) - lastReportReceivedBytes (cl_state c))) = u64 (fst (state_Total (cl_state c)))"
  using client_run_ends [of sample_args sample_world "[(2500, 0, NoErr)]" 3000 1 "[]" 1000000000]
  by (simp add: sample_args_def sample_world_def turn_quiet_def reads_ok_def less_Suc_eq numeral_3_eq_3 nth_Cons' all_simps)

subsection \<open>The state is never misused\<close>

lemma client_probe_loop_no_misuse:
  assumes "firstByteTime (cl_state c) \<noteq> time_zero"
  shows "client_probe_loop probeTime xs (running, c) \<noteq> LoopPanics StateMisuse"
  using assms
proof (induction xs arbitrary: running c)
  case (Cons x xs)
  show ?case
  proof
    assume p: "client_probe_loop probeTime (x # xs) (running, c) = LoopPanics StateMisuse"
    then obtain r1 c1 where c1: "client_background (turn_before x) (running, c) = Some (r1, c1)"
      by (auto split: option.splits)
    have f1: "firstByteTime (cl_state c1) \<noteq> time_zero"
      using Cons.prems client_background_fields(3) [OF c1] by simp
    then have g1: "state_GetFirstByteTime (cl_state c1) \<noteq> None" by (simp add: state_GetFirstByteTime_def time_IsZero_def)
    with p c1 g1 obtain r2 c2 where c2: "client_background (turn_during x) (r1, c1) = Some (r2, c2)"
      by (auto split: option.splits if_splits)
    have f2: "firstByteTime (cl_state c2) \<noteq> time_zero" using f1 client_background_fields(3) [OF c2] by simp
    obtain t1 t2 t3 where ts: "turn_times x = (t1, t2, t3)" by (cases "turn_times x")
    obtain c3 where c3: "client_report t1 t2 t3 c2 = Some c3" "firstByteTime (cl_state c3) \<noteq> time_zero"
      using client_report_Some [OF f2, of t1 t2 t3] f2 by auto
    with p c1 g1 c2 ts Cons.IH [of c3 r2] show False by (auto split: option.splits if_splits)
  qed
qed simp

lemma client_measure_no_misuse:
  assumes "firstByteTime (cl_state c) \<noteq> time_zero"
  shows "client_measure a w c \<noteq> ClientPanic StateMisuse"
proof -
  obtain c5 where c5: "client_reportFirstByte c = Some c5" "cl_state c5 = cl_state c"
    using assms by (simp add: client_reportFirstByte_def state_GetFirstByteTime_def time_IsZero_def client_logf_def)
  with assms have "client_probe_loop (arg_probeTime a) (w_turns w) (True, c5) \<noteq> LoopPanics StateMisuse"
    by (intro client_probe_loop_no_misuse) simp
  with c5(1) show ?thesis
    by (auto simp: client_measure_def split: loop_end.split option.split)
qed

lemma client_receiveFirstByte_sets:
  assumes "list_all (\<lambda>(t, n, e). 0 < t \<and> 0 \<le> n \<and> n < 2 ^ 63) reads"
    and "totalReceivedBytes (cl_state c) = 0" "client_receiveFirstByte reads c = Returned (NoErr, c')"
  shows "firstByteTime (cl_state c') \<noteq> time_zero"
  using assms
proof (induction reads c rule: client_receiveFirstByte.induct)
  case (2 now received err reads c)
  then show ?case
    by (auto simp: client_count_def state_AddReceivedBytes_def time_IsZero_def time_zero_def Let_def split: if_splits)
qed simp

lemma client_receiveFirstByte_not_Panicked: "client_receiveFirstByte reads c \<noteq> Panicked"
  by (induction reads c rule: client_receiveFirstByte.induct) auto

lemma client_connect_no_misuse:
  assumes "list_all (\<lambda>(t, n, e). 0 < t \<and> 0 \<le> n \<and> n < 2 ^ 63) (w_first_reads w)"
    and "totalReceivedBytes (cl_state c) = 0" "establishmentTime (cl_state c) = time_zero"
  shows "client_connect a w c \<noteq> ClientPanic StateMisuse"
proof -
  let ?c = "client_reportEstablishmentTime (c\<lparr>cl_state := (cl_state c)\<lparr>establishmentTime := w_established w\<rparr>\<rparr>)"
  have set: "state_SetEstablishmentTime (w_established w) (cl_state c) =
      Some ((cl_state c)\<lparr>establishmentTime := w_established w\<rparr>)"
    using assms(3) by (simp add: state_SetEstablishmentTime_def time_IsZero_def)
  have "totalReceivedBytes (cl_state ?c) = 0"
    using assms(2) by (simp add: client_reportEstablishmentTime_def client_logf_def)
  then have "client_measure a w c' \<noteq> ClientPanic StateMisuse"
    if "client_receiveFirstByte (w_first_reads w) ?c = Returned (NoErr, c')" for c'
    using client_receiveFirstByte_sets [OF assms(1) _ that] by (intro client_measure_no_misuse) simp
  then show ?thesis
    by (auto simp: client_connect_def set Let_def client_receiveFirstByte_not_Panicked split: call.split)
qed

text \<open>
  C11: whatever the server, the network, the file system and the user do, no run of the client misuses the measurement
  state (a time that is set twice or asked for before it is set, which panics): when it panics, something outside has
  failed.  The clock is past the zero time and a read reports no negative count.
\<close>

theorem client_no_misuse:
  assumes "list_all (\<lambda>(t, n, e). 0 < t \<and> 0 \<le> n \<and> n < 2 ^ 63) (w_first_reads w)"
  shows "client_Run a w \<noteq> ClientPanic StateMisuse"
proof -
  define c where "c = (let c0 = client_new (arg_printRaw a) (arg_reportInterval a)
    in if arg_use0RTT a then client_logf LogStoredTicket c0 else c0)"
  let ?st = "state_zero\<lparr>startTime := w_start w\<rparr>"
  have "client_connect a w (c\<lparr>cl_state := ?st\<rparr>) \<noteq> ClientPanic StateMisuse"
    by (rule client_connect_no_misuse [OF assms]) (simp_all add: state_zero_def)
  moreover have "cl_state c = state_zero"
    by (simp add: c_def client_new_def client_logf_def Let_def)
  moreover have "state_SetStartTime (w_start w) state_zero = Some ?st"
    by (simp add: state_SetStartTime_def state_zero_def time_IsZero_def)
  ultimately show ?thesis by (simp add: client_Run_def Let_def flip: c_def [unfolded Let_def])
qed

lemma client_no_misuse_witness:
  "client_Run (sample_args\<lparr>arg_use0RTT := True\<rparr>) (sample_world\<lparr>w_last_reads := [(2000007000, 9, OtherError)]\<rparr>) \<noteq>
     ClientPanic StateMisuse"
  by (rule client_no_misuse) (simp add: sample_world_def)

end
