(* ===== verification/GoStrings.thy ===== *)
theory GoStrings
  imports Prelude
begin

text \<open>
  What the sources use of Go's strings and of the packages \<open>strings\<close>, \<open>strconv\<close> and \<open>regexp\<close>.  A Go
  string is the list of its bytes (\<open>string\<close>); the character classes of \<open>regexp\<close> are ASCII classes.
  \<open>decimal\<close> is the printing \<open>%d\<close> of a natural number, and \<open>decimal_val_decimal\<close> says that reading undoes it.
\<close>

abbreviation byte_of :: "char \<Rightarrow> nat" where "byte_of c \<equiv> of_char c"

definition is_digit :: "char \<Rightarrow> bool" where
  "is_digit c \<longleftrightarrow> 48 \<le> byte_of c \<and> byte_of c \<le> 57"

definition is_upper :: "char \<Rightarrow> bool" where
  "is_upper c \<longleftrightarrow> 65 \<le> byte_of c \<and> byte_of c \<le> 90"

definition is_lower :: "char \<Rightarrow> bool" where
  "is_lower c \<longleftrightarrow> 97 \<le> byte_of c \<and> byte_of c \<le> 122"

text \<open>The classes \<open>\w\<close> and \<open>\s\<close> of \<open>regexp\<close>.\<close>

definition is_word :: "char \<Rightarrow> bool" where
  "is_word c \<longleftrightarrow> is_digit c \<or> is_upper c \<or> is_lower c \<or> byte_of c = 95"

definition is_space :: "char \<Rightarrow> bool" where
  "is_space c \<longleftrightarrow> byte_of c \<in> {9, 10, 12, 13, 32}"

definition lower_char :: "char \<Rightarrow> char" where
  "lower_char c = (if is_upper c then char_of (byte_of c + 32) else c)"

text \<open>\<open>strings.ToLower\<close> and \<open>strings.TrimSpace\<close> of an ASCII string.\<close>

definition strings_ToLower :: "string \<Rightarrow> string" where
  "strings_ToLower s = map lower_char s"

definition ascii_space :: "char \<Rightarrow> bool" where
  "ascii_space c \<longleftrightarrow> byte_of c \<in> {9, 10, 11, 12, 13, 32}"

definition strings_TrimSpace :: "string \<Rightarrow> string" where
  "strings_TrimSpace s = rev (dropWhile ascii_space (rev (dropWhile ascii_space s)))"

text \<open>\<open>strings.Split(s, sep)\<close> for a separator of one byte: the parts between the separators, never empty.\<close>

fun strings_Split :: "char \<Rightarrow> string \<Rightarrow> string list" where
  "strings_Split sep [] = [[]]"
| "strings_Split sep (c # s) =
     (if c = sep then [] # strings_Split sep s
      else case strings_Split sep s of [] \<Rightarrow> [[c]] | p # ps \<Rightarrow> (c # p) # ps)"

definition digit_val :: "char \<Rightarrow> int" where
  "digit_val c = int (byte_of c) - 48"

definition decimal_val :: "string \<Rightarrow> int" where
  "decimal_val s = foldl (\<lambda>n c. 10 * n + digit_val c) 0 s"

definition digit_char :: "nat \<Rightarrow> char" where
  "digit_char d = char_of (48 + d mod 10)"

fun decimal :: "nat \<Rightarrow> string" where
  "decimal n = (if n < 10 then [digit_char n] else decimal (n div 10) @ [digit_char n])"

declare decimal.simps [simp del]

text \<open>Evaluation of a character given by its number.\<close>

lemmas char_eval = char_of_def bit_0

text \<open>The outcomes of \<open>strconv\<close>: \<open>ErrSyntax\<close> and \<open>ErrRange\<close>.\<close>

datatype num_error = ErrSyntax | ErrRange

definition strconv_ParseUint :: "string \<Rightarrow> num_error + int" where
  "strconv_ParseUint s =
     (if s = [] \<or> \<not> list_all is_digit s then Inl ErrSyntax
      else if decimal_val s < 2 ^ 64 then Inr (decimal_val s) else Inl ErrRange)"

text \<open>\<open>strconv.Atoi\<close>: an optional sign and decimal digits, in the range of a 64-bit \<open>int\<close>.\<close>

definition strconv_Atoi :: "string \<Rightarrow> num_error + int" where
  "strconv_Atoi s =
     (let (neg, ds) = (case s of [] \<Rightarrow> (False, [])
                       | c # r \<Rightarrow> if c = CHR ''-'' then (True, r) else if c = CHR ''+'' then (False, r) else (False, s))
      in if ds = [] \<or> \<not> list_all is_digit ds then Inl ErrSyntax
         else let n = (if neg then - decimal_val ds else decimal_val ds)
              in if in_i64 n then Inr n else Inl ErrRange)"

lemma digit_char_digit [simp]: "is_digit (digit_char n)"
  by (simp add: is_digit_def digit_char_def)

lemma digit_val_char [simp]: "digit_val (digit_char n) = int (n mod 10)"
  by (simp add: digit_val_def digit_char_def)

lemma decimal_digits: "list_all is_digit (decimal n)"
  by (induction n rule: decimal.induct) (subst decimal.simps, simp)

lemma decimal_not_Nil [simp]: "decimal n \<noteq> []"
  by (subst decimal.simps) simp

lemma decimal_set: "c \<in> set (decimal n) \<Longrightarrow> is_digit c"
  using decimal_digits [of n] by (simp add: list_all_iff)

lemma decimal_val_snoc: "decimal_val (s @ [c]) = 10 * decimal_val s + digit_val c"
  by (simp add: decimal_val_def)

lemma decimal_val_decimal [simp]: "decimal_val (decimal n) = int n"
proof (induction n rule: decimal.induct)
  case (1 n)
  show ?case
  proof (cases "n < 10")
    case True
    then show ?thesis by (subst decimal.simps) (simp add: decimal_val_def)
  next
    case False
    with 1 have "decimal_val (decimal n) = 10 * int (n div 10) + int (n mod 10)"
      by (subst decimal.simps) (simp add: decimal_val_snoc)
    also have "\<dots> = int n" by presburger
    finally show ?thesis .
  qed
qed

lemma strconv_ParseUint_decimal: "strconv_ParseUint (decimal n) = (if n < 2 ^ 64 then Inr (int n) else Inl ErrRange)"
  by (simp add: strconv_ParseUint_def decimal_digits)

lemma digit_not_sign: "is_digit c \<Longrightarrow> c \<noteq> CHR ''-'' \<and> c \<noteq> CHR ''+''"
  by (auto simp: is_digit_def)

lemma strconv_Atoi_decimal: "strconv_Atoi (decimal n) = (if n < 2 ^ 63 then Inr (int n) else Inl ErrRange)"
proof -
  obtain c r where s: "decimal n = c # r" by (cases "decimal n") simp_all
  then have "is_digit c" using decimal_set [of c n] by simp
  with s have "strconv_Atoi (decimal n) =
      (if in_i64 (decimal_val (decimal n)) then Inr (decimal_val (decimal n)) else Inl ErrRange)"
    using decimal_digits [of n] by (auto simp: strconv_Atoi_def digit_not_sign Let_def)
  then show ?thesis by simp
qed

lemma strings_Split_no_sep: "sep \<notin> set s \<Longrightarrow> strings_Split sep s = [s]"
  by (induction s) auto

lemma strings_Split_append:
  "sep \<notin> set s \<Longrightarrow> strings_Split sep (s @ sep # t) = s # strings_Split sep t"
  by (induction s) auto

lemma strings_Split_not_Nil [simp]: "strings_Split sep s \<noteq> []"
  by (induction s) (auto split: list.splits)

text \<open>A split has two parts exactly when the separator occurs.\<close>

lemma strings_Split_length: "length (strings_Split sep s) = Suc (count_list s sep)"
  by (induction s) (auto split: list.splits)

lemma word_not_space: "is_word c \<Longrightarrow> \<not> ascii_space c \<and> \<not> is_space c"
  by (auto simp: is_word_def is_digit_def is_upper_def is_lower_def ascii_space_def is_space_def)

lemma lower_char_word: "is_word c \<Longrightarrow> is_word (lower_char c)"
  by (auto simp: lower_char_def is_word_def is_lower_def is_upper_def)

lemma dropWhile_none: "list_all (\<lambda>c. \<not> P c) s \<Longrightarrow> dropWhile P s = s"
  by (cases s) simp_all

lemma TrimSpace_ToLower_word:
  assumes "list_all is_word s"
  shows "strings_TrimSpace (strings_ToLower s) = strings_ToLower s"
proof -
  have n: "list_all (\<lambda>c. \<not> ascii_space c) (strings_ToLower s)"
    using assms by (auto simp: list_all_iff strings_ToLower_def dest: lower_char_word word_not_space)
  then have "list_all (\<lambda>c. \<not> ascii_space c) (rev (strings_ToLower s))" by simp
  with n show ?thesis by (simp add: strings_TrimSpace_def dropWhile_none)
qed

end
