(* ===== verification/Server.thy ===== *)
theory Server
  imports GoStrings SingleStores BbrSender Brutal RL
begin

text \<open>
  \<open>src/server\<close> and \<open>src/internal/congestion/utils.go\<close>: the accept loop that gives every connection its congestion
  controller, the session that logs the end of a connection once, the stream that answers a request with endless
  data, and the generator of pseudo-random test data.  What the QUIC listener, the streams and Redis answer is given
  as arguments; running out of answers is \<open>Blocked\<close>.
\<close>

subsection \<open>Congestion controllers\<close>

text \<open>The controller of a connection; without a call of \<open>SetCongestionControl\<close> it is the one of quic-go.\<close>

datatype conn_cc = DefaultCc | BbrCc bbrSender | BrutalCc BrutalSender | RLCc RLSender

definition UseBBR :: "congestion_consts \<Rightarrow> bool option \<Rightarrow> conn_cc \<Rightarrow> conn_cc" where
  "UseBBR K remoteAddr cc = BbrCc (NewBbrSender K (GetInitialPacketSize K remoteAddr))"

definition UseBrutal :: "congestion_consts \<Rightarrow> bool \<Rightarrow> int \<Rightarrow> conn_cc \<Rightarrow> conn_cc" where
  "UseBrutal K debug tx cc = BrutalCc (NewBrutalSender K debug tx)"

record RedisConf =
  redis_Host :: string
  redis_Port :: string

text \<open>
  \<open>NewRLSender\<close> panics when no Redis answers at the address; \<open>redis_ok\<close> is what Redis answers to the ping of this call, and
  \<open>rnd\<close> the random first sequence number.
\<close>

definition UseRL :: "congestion_consts \<Rightarrow> (RedisConf \<Rightarrow> bool) \<Rightarrow> int \<Rightarrow> RedisConf \<Rightarrow> conn_cc \<Rightarrow> conn_cc option" where
  "UseRL K redis_ok rnd conf cc = (if \<not> redis_ok conf then None else Some (RLCc (NewRLSender K rnd)))"

definition CC_CUBIC :: string where "CC_CUBIC = ''cubic''"
definition CC_RL :: string where "CC_RL = ''rl''"
definition CC_BRUTAL :: string where "CC_BRUTAL = ''brutal''"

lemmas cc_names = CC_CUBIC_def CC_RL_def CC_BRUTAL_def

definition server_choose_cc ::
    "congestion_consts \<Rightarrow> bool \<Rightarrow> (RedisConf \<Rightarrow> bool) \<Rightarrow> int \<Rightarrow> RedisConf \<Rightarrow> string \<Rightarrow> conn_cc option" where
  "server_choose_cc K debug redis_ok rnd conf cc =
     (if cc = CC_CUBIC then Some DefaultCc
      else if cc = CC_RL then UseRL K redis_ok rnd conf DefaultCc
      else if cc = CC_BRUTAL then Some (UseBrutal K debug (5 * 1024 * 1024) DefaultCc)
      else None)"

subsection \<open>Sessions and streams\<close>

text \<open>What \<open>close\<close> distinguishes: an application error with its code, or any other error.\<close>

datatype close_err = CloseApplicationError int | CloseOther string

datatype session_log = LogOpen | LogClose | LogCloseError close_err

record qperfServerSession =
  connectionID :: int
  sess_cc :: conn_cc
  sess_log :: "session_log list"
  sess_closed :: bool

definition session_close :: "close_err \<Rightarrow> qperfServerSession \<Rightarrow> qperfServerSession" where
  "session_close err s =
     (if sess_closed s then s
      else s\<lparr>sess_closed := True,
             sess_log := sess_log s @
               [case err of
                  CloseApplicationError code \<Rightarrow> if code = 0 then LogClose else LogCloseError err
                | CloseOther _ \<Rightarrow> LogCloseError err]\<rparr>)"

definition QPerfStartSendingRequest :: string where
  "QPerfStartSendingRequest = ''qperf start sending''"

text \<open>
  A stream: the request or the error of reading it, then the errors of the writes of 64 KiB, one per write.  The
  result counts the buffers written.
\<close>

fun stream_write_loop :: "close_err option list \<Rightarrow> nat \<Rightarrow> qperfServerSession \<Rightarrow> unit call \<times> nat \<times> qperfServerSession" where
  "stream_write_loop [] n s = (Blocked, n, s)"
| "stream_write_loop (None # ws) n s = stream_write_loop ws (Suc n) s"
| "stream_write_loop (Some err # ws) n s = (Returned (), n, session_close err s)"

definition stream_run ::
    "close_err + string \<Rightarrow> close_err option list \<Rightarrow> qperfServerSession \<Rightarrow> unit call \<times> nat \<times> qperfServerSession" where
  "stream_run request writes s =
     (case request of
        Inl err \<Rightarrow> (Returned (), 0, session_close err s)
      | Inr text \<Rightarrow>
          if text \<noteq> QPerfStartSendingRequest
          then (Returned (), 0, session_close (CloseOther ''unknown qperf message'') s)
          else stream_write_loop writes 0 s)"

text \<open>
  A session accepts streams until that fails.  Every stream runs in its own goroutine: an event is a stream that is
  accepted, a stream that runs to its next stop, or the failed accept, in the order in which they happen.
\<close>

datatype session_event =
    StreamAccepted
  | StreamRuns "close_err + string" "close_err option list"
  | AcceptFailed close_err

definition session_open :: "qperfServerSession \<Rightarrow> qperfServerSession" where
  "session_open s = s\<lparr>sess_log := sess_log s @ [LogOpen]\<rparr>"

fun session_step :: "session_event \<Rightarrow> qperfServerSession \<Rightarrow> qperfServerSession" where
  "session_step StreamAccepted s = s"
| "session_step (StreamRuns request writes) s = snd (snd (stream_run request writes s))"
| "session_step (AcceptFailed err) s = session_close err s"

definition session_run :: "session_event list \<Rightarrow> qperfServerSession \<Rightarrow> qperfServerSession" where
  "session_run events s = fold session_step events (session_open s)"

subsection \<open>The accept loop\<close>

text \<open>
  The answers to one \<open>Accept\<close>: an error, or a connection with what its controller meets: the random number it may draw
  and the answer of Redis (at an address) to its ping, which may differ from one connection to the next.
\<close>

datatype accept_result = AcceptError | Accepted int "RedisConf \<Rightarrow> bool"

fun server_accept_loop ::
    "congestion_consts \<Rightarrow> bool \<Rightarrow> RedisConf \<Rightarrow> string \<Rightarrow> accept_result list \<Rightarrow> int \<Rightarrow>
     unit call \<times> qperfServerSession list" where
  "server_accept_loop K debug conf cc [] nextConnectionId = (Blocked, [])"
| "server_accept_loop K debug conf cc (AcceptError # as) nextConnectionId = (Panicked, [])"
| "server_accept_loop K debug conf cc (Accepted rnd redis_ok # as) nextConnectionId =
     (case server_choose_cc K debug redis_ok rnd conf cc of
        None \<Rightarrow> (Panicked, [])
      | Some c \<Rightarrow>
          (let s = \<lparr>connectionID = nextConnectionId, sess_cc = c, sess_log = [], sess_closed = False\<rparr>;
               (r, ss) = server_accept_loop K debug conf cc as (u64 (nextConnectionId + 1))
           in (r, s # ss)))"

record server_args =
  sa_certificate_ok :: bool
  sa_initialCongestionWindow :: int
  sa_minCongestionWindow :: int
  sa_initialReceiveWindow :: int
  sa_maxReceiveWindow :: int
  sa_http3enabled :: bool
  sa_http3_fails :: bool
  sa_listen_ok :: bool
  sa_redisAddr :: string
  sa_cc :: string

text \<open>The windows of the configuration; the congestion window is raised but not used.\<close>

definition server_windows :: "server_args \<Rightarrow> int \<times> int" where
  "server_windows a =
     (sa_initialReceiveWindow a,
      if sa_maxReceiveWindow a < sa_initialReceiveWindow a then sa_initialReceiveWindow a else sa_maxReceiveWindow a)"

definition server_initial_window :: "server_args \<Rightarrow> int" where
  "server_initial_window a =
     (if sa_initialCongestionWindow a < sa_minCongestionWindow a then sa_minCongestionWindow a
      else sa_initialCongestionWindow a)"

text \<open>Indexing the parts of the Redis address panics when there is no second part.\<close>

definition server_redis_conf :: "string \<Rightarrow> RedisConf option" where
  "server_redis_conf addr =
     (case strings_Split (CHR '':'') addr of
        host # port # _ \<Rightarrow> Some \<lparr>redis_Host = host, redis_Port = port\<rparr>
      | _ \<Rightarrow> None)"

definition server_Run ::
    "congestion_consts \<Rightarrow> bool \<Rightarrow> server_args \<Rightarrow> accept_result list \<Rightarrow> unit call \<times> qperfServerSession list" where
  "server_Run K debug a accepts =
     (if \<not> sa_certificate_ok a then (Panicked, [])
      else if sa_http3enabled a then (if sa_http3_fails a then Panicked else Returned (), [])
      else if \<not> sa_listen_ok a then (Panicked, [])
      else case server_redis_conf (sa_redisAddr a) of
             None \<Rightarrow> (Panicked, [])
           | Some conf \<Rightarrow> server_accept_loop K debug conf (sa_cc a) accepts 0)"

subsection \<open>Test data\<close>

fun prdata_loop :: "nat \<Rightarrow> int \<Rightarrow> int list" where
  "prdata_loop 0 seed = []"
| "prdata_loop (Suc l) seed = (let seed = u64 (seed * 48271) mod 2147483647 in seed mod 256 # prdata_loop l seed)"

definition generatePRData :: "int \<Rightarrow> int list option" where
  "generatePRData l = (if l < 0 then None else Some (prdata_loop (nat l) 1))"

subsection \<open>The pseudo-random data is the Lehmer sequence\<close>

lemma prdata_loop_nth:
  assumes "0 \<le> seed" "seed < 2147483647" "i < l"
  shows "prdata_loop l seed ! i = (seed * 48271 ^ Suc i mod 2147483647) mod 256"
  using assms
proof (induction l arbitrary: seed i)
  case (Suc l)
  let ?s = "seed * 48271 mod 2147483647"
  have s: "u64 (seed * 48271) = seed * 48271" using Suc.prems by simp
  show ?case
  proof (cases i)
    case 0
    with s show ?thesis by (simp add: Let_def)
  next
    case (Suc j)
    have "prdata_loop l ?s ! j = (?s * 48271 ^ Suc j mod 2147483647) mod 256"
      using Suc.IH [of ?s j] Suc.prems \<open>i = Suc j\<close> by simp
    also have "?s * 48271 ^ Suc j mod 2147483647 = seed * 48271 ^ Suc i mod 2147483647"
      by (simp add: \<open>i = Suc j\<close> mod_mult_left_eq mult.assoc)
    finally show ?thesis using s \<open>i = Suc j\<close> by (simp add: Let_def)
  qed
qed simp

lemma prdata_loop_length [simp]: "length (prdata_loop l seed) = l"
  by (induction l arbitrary: seed) (simp_all add: Let_def)

text \<open>
  C40: for every length that is not negative, the test data are the low bytes of the powers of 48271 modulo the
  Mersenne prime \<open>2 ^ 31 - 1\<close>: the product never leaves 64 bits.  A negative length panics.
\<close>

theorem generatePRData_lehmer:
  "generatePRData l = (if l < 0 then None
     else Some (map (\<lambda>i. (48271 ^ Suc i mod 2147483647) mod 256) [0..<nat l]))"
  by (auto simp: generatePRData_def prdata_loop_nth intro!: nth_equalityI simp del: power_Suc)

subsection \<open>The end of a session is logged once\<close>

text \<open>What an event closes the session with, if it does.\<close>

fun first_write_error :: "close_err option list \<Rightarrow> close_err option" where
  "first_write_error [] = None"
| "first_write_error (None # ws) = first_write_error ws"
| "first_write_error (Some err # ws) = Some err"

fun event_close :: "session_event \<Rightarrow> close_err option" where
  "event_close StreamAccepted = None"
| "event_close (StreamRuns (Inl err) writes) = Some err"
| "event_close (StreamRuns (Inr text) writes) =
     (if text \<noteq> QPerfStartSendingRequest then Some (CloseOther ''unknown qperf message'')
      else first_write_error writes)"
| "event_close (AcceptFailed err) = Some err"

definition close_entry :: "close_err \<Rightarrow> session_log" where
  "close_entry err = (if err = CloseApplicationError 0 then LogClose else LogCloseError err)"

lemma session_close_entry:
  "session_close err s =
     (if sess_closed s then s else s\<lparr>sess_closed := True, sess_log := sess_log s @ [close_entry err]\<rparr>)"
  by (auto simp: session_close_def close_entry_def split: close_err.splits)

lemma stream_write_loop_session:
  "snd (snd (stream_write_loop ws n s)) = (case first_write_error ws of None \<Rightarrow> s | Some err \<Rightarrow> session_close err s)"
  by (induction ws n s rule: stream_write_loop.induct) simp_all

lemma session_step_close:
  "session_step e s = (case event_close e of None \<Rightarrow> s | Some err \<Rightarrow> session_close err s)"
proof (cases e)
  case (StreamRuns request writes)
  then show ?thesis by (cases request) (auto simp: stream_run_def stream_write_loop_session)
qed simp_all

lemma session_steps_closed: "sess_closed s \<Longrightarrow> fold session_step events s = s"
  by (induction events) (auto simp: session_step_close session_close_def split: option.splits)

text \<open>
  C32: whatever the streams of a connection and the accept loop do, in any order, the log of the session is its
  opening and at most one closing line, that of the first event that closes it: the plain one exactly when that event
  carries the application error of a finished measurement.
\<close>

theorem session_logs_end_once:
  assumes "sess_log s = []" "\<not> sess_closed s"
  shows "sess_log (session_run events s) =
    LogOpen # (case List.map_filter event_close events of [] \<Rightarrow> [] | err # _ \<Rightarrow> [close_entry err])"
proof -
  have "sess_log (fold session_step events s) =
      sess_log s @ (case List.map_filter event_close events of [] \<Rightarrow> [] | err # _ \<Rightarrow> [close_entry err])"
    if "\<not> sess_closed s" for s
    using that
  proof (induction events arbitrary: s)
    case (Cons e events)
    show ?case
    proof (cases "event_close e")
      case None
      with Cons show ?thesis by (simp add: session_step_close map_filter_simps)
    next
      case (Some err)
      let ?s = "s\<lparr>sess_closed := True, sess_log := sess_log s @ [close_entry err]\<rparr>"
      have "session_step e s = ?s" using Some Cons.prems by (simp add: session_step_close session_close_entry)
      moreover have "fold session_step events ?s = ?s" by (rule session_steps_closed) simp
      ultimately show ?thesis using Some by (simp add: map_filter_simps)
    qed
  qed (simp add: map_filter_simps)
  then show ?thesis using assms by (simp add: session_run_def session_open_def)
qed

lemma session_logs_end_once_witness:
  "sess_log (session_run [StreamAccepted, StreamRuns (Inr QPerfStartSendingRequest) [None, Some (CloseApplicationError 0)],
       AcceptFailed (CloseOther ''timeout'')]
     \<lparr>connectionID = 0, sess_cc = DefaultCc, sess_log = [], sess_closed = False\<rparr>) = [LogOpen, LogClose]"
  using session_logs_end_once [of "\<lparr>connectionID = 0, sess_cc = DefaultCc, sess_log = [], sess_closed = False\<rparr>"
      "[StreamAccepted, StreamRuns (Inr QPerfStartSendingRequest) [None, Some (CloseApplicationError 0)],
       AcceptFailed (CloseOther ''timeout'')]"]
  by (simp add: map_filter_simps close_entry_def)

subsection \<open>The accept loop\<close>

lemma server_choose_cc_None:
  "server_choose_cc K debug redis_ok rnd conf cc = None \<longleftrightarrow>
     cc \<noteq> CC_CUBIC \<and> (cc = CC_RL \<longrightarrow> \<not> redis_ok conf) \<and> cc \<noteq> CC_BRUTAL"
  by (auto simp: server_choose_cc_def UseRL_def cc_names)

text \<open>One answer to \<open>Accept\<close> lets the loop go on: a connection, and its controller is known and, for \<open>rl\<close>, meets a Redis.\<close>

definition connection_served :: "RedisConf \<Rightarrow> string \<Rightarrow> accept_result \<Rightarrow> bool" where
  "connection_served conf cc r =
     (case r of
        AcceptError \<Rightarrow> False
      | Accepted rnd redis_ok \<Rightarrow> cc \<in> {CC_CUBIC, CC_BRUTAL} \<or> cc = CC_RL \<and> redis_ok conf)"

lemma server_accept_loop_outcome:
  "fst (server_accept_loop K debug conf cc as n) = (if list_all (connection_served conf cc) as then Blocked else Panicked)"
proof (induction as arbitrary: n)
  case (Cons a as)
  show ?case
  proof (cases a)
    case (Accepted rnd redis_ok)
    have "connection_served conf cc a \<longleftrightarrow> server_choose_cc K debug redis_ok rnd conf cc \<noteq> None"
      by (auto simp: Accepted connection_served_def server_choose_cc_None cc_names)
    with Accepted Cons show ?thesis by (auto simp: Let_def split_beta split: option.splits)
  qed (simp add: connection_served_def)
qed simp

text \<open>The outcome of a run, for the properties on the server and on the process.\<close>

lemma server_Run_outcome:
  "fst (server_Run K debug a accepts) =
     (if sa_certificate_ok a \<and>
         (if sa_http3enabled a then \<not> sa_http3_fails a
          else sa_listen_ok a \<and> CHR '':'' \<in> set (sa_redisAddr a) \<and>
            list_all (connection_served (the (server_redis_conf (sa_redisAddr a))) (sa_cc a)) accepts)
      then (if sa_http3enabled a then Returned () else Blocked)
      else Panicked)"
proof -
  let ?addr = "sa_redisAddr a"
  have "length (strings_Split (CHR '':'') ?addr) = 1 \<longleftrightarrow> CHR '':'' \<notin> set ?addr"
    by (simp add: strings_Split_length count_list_0_iff)
  then have "server_redis_conf ?addr = None \<longleftrightarrow> CHR '':'' \<notin> set ?addr"
    by (auto simp: server_redis_conf_def split: list.splits)
  then show ?thesis
    by (cases "server_redis_conf ?addr") (auto simp: server_Run_def server_accept_loop_outcome)
qed

text \<open>
  C18: when the server serves, returns and panics.  It panics for a bad certificate.  In HTTP/3 mode it then panics when
  serving fails and otherwise returns when serving ends.  In the other mode it panics for a failing listener, a Redis address without a
  colon (also when no connection uses Redis), and, at whichever turn of the accept loop it happens, a failing accept, a connection with an unknown name of a controller,
  and, for \<open>rl\<close>, a connection at which Redis does not answer, however many have been served; otherwise it waits for the next connection.
\<close>

theorem server_outcome:
  "fst (server_Run K debug a accepts) =
     (if sa_certificate_ok a \<and>
         (if sa_http3enabled a then \<not> sa_http3_fails a
          else sa_listen_ok a \<and> CHR '':'' \<in> set (sa_redisAddr a) \<and>
            list_all (connection_served (the (server_redis_conf (sa_redisAddr a))) (sa_cc a)) accepts)
      then (if sa_http3enabled a then Returned () else Blocked)
      else Panicked)"
  by (rule server_Run_outcome)

text \<open>The session of the \<open>i\<close>-th connection.\<close>

definition served_session ::
    "congestion_consts \<Rightarrow> bool \<Rightarrow> string \<Rightarrow> (int \<times> (RedisConf \<Rightarrow> bool)) list \<Rightarrow> nat \<Rightarrow> int \<Rightarrow> qperfServerSession" where
  "served_session K debug cc conns i n =
     \<lparr>connectionID = n,
      sess_cc = (if cc = CC_RL then RLCc (NewRLSender K (fst (conns ! i)))
        else if cc = CC_BRUTAL then BrutalCc (NewBrutalSender K debug 5242880) else DefaultCc),
      sess_log = [], sess_closed = False\<rparr>"

lemma server_accept_loop_sessions:
  assumes "cc \<in> {CC_CUBIC, CC_RL, CC_BRUTAL}" "cc = CC_RL \<longrightarrow> (\<forall>c\<in>set conns. snd c conf)"
    and "0 \<le> n" "n + int (length conns) < 2 ^ 64"
  shows "server_accept_loop K debug conf cc (map (\<lambda>(rnd, redis_ok). Accepted rnd redis_ok) conns) n =
    (Blocked, map (\<lambda>i. served_session K debug cc conns i (n + int i)) [0..<length conns])"
  using assms(2-4)
proof (induction conns arbitrary: n)
  case (Cons p conns)
  obtain r redis_ok where p: "p = (r, redis_ok)" by (cases p)
  have c: "server_choose_cc K debug redis_ok r conf cc = Some (sess_cc (served_session K debug cc (p # conns) 0 n))"
    using assms(1) Cons.prems(1) p by (auto simp: server_choose_cc_def UseRL_def UseBrutal_def served_session_def cc_names)
  have "u64 (n + 1) = n + 1" using Cons.prems by simp
  then have "server_accept_loop K debug conf cc (map (\<lambda>(rnd, redis_ok). Accepted rnd redis_ok) conns) (u64 (n + 1)) =
      (Blocked, map (\<lambda>i. served_session K debug cc conns i (n + 1 + int i)) [0..<length conns])"
    using Cons.IH [of "n + 1"] Cons.prems by simp
  moreover have "[0..<length (p # conns)] = 0 # map Suc [0..<length conns]"
    by (simp add: map_Suc_upt upt_conv_Cons del: upt_Suc)
  ultimately show ?case
    using c by (simp add: p served_session_def comp_def algebra_simps)
qed simp

text \<open>
  C17: a server with a certificate, a listener, a Redis address \<open>host:port\<close> and a known controller (and, for \<open>rl\<close>, a
  Redis that answers at every connection) serves every connection: they are numbered from zero in the order of arrival, each with a
  fresh session and the controller of that name, for \<open>brutal\<close> at 5 MiB per second.
\<close>

theorem server_serves_all:
  assumes "sa_certificate_ok a" "\<not> sa_http3enabled a" "sa_listen_ok a"
    and "sa_redisAddr a = host @ CHR '':'' # port" "CHR '':'' \<notin> set host" "CHR '':'' \<notin> set port"
    and "sa_cc a \<in> {CC_CUBIC, CC_RL, CC_BRUTAL}"
    and "sa_cc a = CC_RL \<longrightarrow> (\<forall>c\<in>set conns. snd c \<lparr>redis_Host = host, redis_Port = port\<rparr>)" "length conns < 2 ^ 64"
  shows "server_Run K debug a (map (\<lambda>(rnd, redis_ok). Accepted rnd redis_ok) conns) =
    (Blocked, map (\<lambda>i. served_session K debug (sa_cc a) conns i (int i)) [0..<length conns])"
proof -
  have "server_redis_conf (sa_redisAddr a) = Some \<lparr>redis_Host = host, redis_Port = port\<rparr>"
    using assms(5,6) by (simp add: assms(4) server_redis_conf_def strings_Split_append strings_Split_no_sep)
  moreover have "int (length conns) < 2 ^ 64" using assms(9) by simp
  ultimately show ?thesis
    using assms(1-3,7,8) server_accept_loop_sessions [of "sa_cc a" conns _ 0 K debug]
    by (simp add: server_Run_def)
qed

lemma server_serves_all_witness:
  "server_Run quic_go_consts False
     \<lparr>sa_certificate_ok = True, sa_initialCongestionWindow = 0, sa_minCongestionWindow = 0,
      sa_initialReceiveWindow = 524288, sa_maxReceiveWindow = 6291456, sa_http3enabled = False,
      sa_http3_fails = False, sa_listen_ok = True, sa_redisAddr = ''localhost:6379'', sa_cc = ''rl''\<rparr>
     [Accepted 5 (\<lambda>c. redis_Port c = ''6379''), Accepted 7 (\<lambda>_. True)] =
   (Blocked, [served_session quic_go_consts False ''rl'' [(5, \<lambda>c. redis_Port c = ''6379''), (7, \<lambda>_. True)] 0 0,
              served_session quic_go_consts False ''rl'' [(5, \<lambda>c. redis_Port c = ''6379''), (7, \<lambda>_. True)] 1 1])"
  using server_serves_all [of "\<lparr>sa_certificate_ok = True, sa_initialCongestionWindow = 0, sa_minCongestionWindow = 0,
      sa_initialReceiveWindow = 524288, sa_maxReceiveWindow = 6291456, sa_http3enabled = False,
      sa_http3_fails = False, sa_listen_ok = True, sa_redisAddr = ''localhost:6379'', sa_cc = ''rl''\<rparr>"
      "''localhost''" "''6379''" "[(5, \<lambda>c. redis_Port c = ''6379''), (7, \<lambda>_. True)]" quic_go_consts False]
  by (simp add: cc_names)

end
