(* ===== verification/ByteCountParser.thy ===== *)
theory ByteCountParser
  imports GoStrings
begin

text \<open>
  \<open>src/common/byte_count_parser.go\<close>: sizes such as \<open>512KiB\<close>.  The regular expression is not anchored: the
  parser reads the first number anywhere in the text and ignores what follows the unit.
\<close>

datatype byte_count_error = FailedToParse | BadNumber num_error | InvalidSuffix

text \<open>
  \<open>FindStringSubmatch\<close> of \<open>(\d+)\s*(\w*)\<close>: the leftmost match begins at the first digit, and each
  repetition takes as much as it can.
\<close>

definition byte_count_match :: "string \<Rightarrow> (string \<times> string) option" where
  "byte_count_match s =
     (let t = dropWhile (\<lambda>c. \<not> is_digit c) s; u = dropWhile is_digit t
      in if t = [] then None else Some (takeWhile is_digit t, takeWhile is_word (dropWhile is_space u)))"

definition unit_factor :: "string \<Rightarrow> int option" where
  "unit_factor suffix =
     (if suffix = '''' then Some 1
      else if suffix = ''b'' then Some 1
      else if suffix = ''kb'' then Some (10 ^ 3)
      else if suffix = ''mb'' then Some (10 ^ 6)
      else if suffix = ''gb'' then Some (10 ^ 9)
      else if suffix = ''tb'' then Some (10 ^ 12)
      else if suffix = ''pb'' then Some (10 ^ 15)
      else if suffix = ''kib'' then Some (2 ^ 10)
      else if suffix = ''mib'' then Some (2 ^ 20)
      else if suffix = ''gib'' then Some (2 ^ 30)
      else if suffix = ''tib'' then Some (2 ^ 40)
      else if suffix = ''pib'' then Some (2 ^ 50)
      else None)"

definition ParseByteCountWithUnit :: "string \<Rightarrow> byte_count_error + int" where
  "ParseByteCountWithUnit s =
     (case byte_count_match s of
        None \<Rightarrow> Inl FailedToParse
      | Some (digits, sfx) \<Rightarrow>
          (case strconv_ParseUint digits of
             Inl e \<Rightarrow> Inl (BadNumber e)
           | Inr number \<Rightarrow>
               (case unit_factor (strings_TrimSpace (strings_ToLower sfx)) of
                  None \<Rightarrow> Inl InvalidSuffix
                | Some f \<Rightarrow> Inr (u64 (number * f)))))"

lemma dropWhile_non_digits: "list_all (\<lambda>c. \<not> is_digit c) pre \<Longrightarrow> is_digit (hd t) \<Longrightarrow> t \<noteq> [] \<Longrightarrow>
    dropWhile (\<lambda>c. \<not> is_digit c) (pre @ t) = t"
  by (induction pre) (auto simp: neq_Nil_conv)

lemma takeWhile_prefix: "list_all P s \<Longrightarrow> t = [] \<or> \<not> P (hd t) \<Longrightarrow> takeWhile P (s @ t) = s"
  by (cases t) (simp_all add: list_all_iff takeWhile_append1 takeWhile_tail)

lemma dropWhile_prefix: "list_all P s \<Longrightarrow> t = [] \<or> \<not> P (hd t) \<Longrightarrow> dropWhile P (s @ t) = t"
  by (cases t) (simp_all add: list_all_iff dropWhile_append)

lemma byte_count_match_number:
  assumes "list_all (\<lambda>c. \<not> is_digit c) pre" "list_all is_space ws" "list_all is_word sfx"
    and "sfx \<noteq> [] \<longrightarrow> \<not> is_digit (hd sfx)" "rest = [] \<or> \<not> is_word (hd rest) \<and> \<not> is_space (hd rest)"
  shows "byte_count_match (pre @ decimal n @ ws @ sfx @ rest) = Some (decimal n, sfx)"
proof -
  let ?t = "decimal n @ ws @ sfx @ rest"
  have sp: "is_space c \<Longrightarrow> \<not> is_digit c" for c by (auto simp: is_space_def is_digit_def)
  have rd: "rest = [] \<or> \<not> is_digit (hd rest)" using assms(5) by (auto simp: is_word_def)
  have "is_digit (hd ?t)" using decimal_set [of "hd (decimal n)" n] by simp
  with assms(1) have t: "dropWhile (\<lambda>c. \<not> is_digit c) (pre @ ?t) = ?t" by (intro dropWhile_non_digits) simp_all
  have nd: "ws @ sfx @ rest = [] \<or> \<not> is_digit (hd (ws @ sfx @ rest))"
    using assms(2,4) rd sp by (cases ws; cases sfx) auto
  have ns: "sfx @ rest = [] \<or> \<not> is_space (hd (sfx @ rest))"
    using assms(3,5) word_not_space by (cases sfx) auto
  show ?thesis
    using takeWhile_prefix [OF assms(3), of rest] assms(5) unfolding byte_count_match_def Let_def t
    by (auto simp: takeWhile_prefix [OF decimal_digits nd] dropWhile_prefix [OF decimal_digits nd]
        dropWhile_prefix [OF assms(2) ns])
qed

lemma unit_factor_first:
  assumes "unit_factor (strings_ToLower sfx) = Some f" "sfx \<noteq> []"
  shows "\<not> is_digit (hd sfx)"
proof -
  have "is_lower (hd (strings_ToLower sfx))"
    using assms by (auto simp: unit_factor_def is_lower_def strings_ToLower_def split: if_splits)
  then have "is_lower (lower_char (hd sfx))" using assms(2) by (simp add: strings_ToLower_def hd_map)
  then show ?thesis by (auto simp: lower_char_def is_lower_def is_digit_def is_upper_def split: if_splits)
qed

text \<open>The units: bytes, and the five prefixes with the powers of 1000, or with an \<open>i\<close> those of 1024.\<close>

definition unit_table :: "(string \<times> int) list" where
  "unit_table =
     ('''', 1) # (''b'', 1) #
     concat (map (\<lambda>(c, k). [(c # ''b'', 1000 ^ k), (c # ''ib'', 1024 ^ k)])
       (zip ''kmgtp'' [1..<6]))"

lemma unit_factor_table: "unit_factor u = Some f \<longleftrightarrow> (u, f) \<in> set unit_table"
proof -
  have "[1..<6] = [1, 2, 3, 4, 5 :: nat]" by (simp add: upt_rec)
  then show ?thesis by (auto simp: unit_factor_def unit_table_def)
qed

text \<open>
  C22: a number below \<open>2 ^ 64\<close> in decimal, white space, a unit in any case and anything that does not continue the
  unit parses to the number times the unit of \<open>unit_table\<close> (the prefixes k, m, g, t, p stand for the powers of 1000, with an
  \<open>i\<close> for those of 1024), modulo \<open>2 ^ 64\<close>; text before the number that has no digit is ignored.
\<close>

theorem byte_count_parse:
  assumes "list_all (\<lambda>c. \<not> is_digit c) pre" "list_all is_space ws" "list_all is_word sfx"
    and "(strings_ToLower sfx, f) \<in> set unit_table" "n < 2 ^ 64"
    and "rest = [] \<or> \<not> is_word (hd rest) \<and> \<not> is_space (hd rest)"
  shows "ParseByteCountWithUnit (pre @ decimal n @ ws @ sfx @ rest) = Inr (int n * f mod 2 ^ 64)"
proof -
  have f: "unit_factor (strings_ToLower sfx) = Some f" using assms(4) by (simp add: unit_factor_table)
  have "sfx \<noteq> [] \<longrightarrow> \<not> is_digit (hd sfx)" using unit_factor_first [OF f] by blast
  from byte_count_match_number [OF assms(1-3) this assms(6)] show ?thesis
    using f assms(5) by (simp add: ParseByteCountWithUnit_def strconv_ParseUint_decimal
        TrimSpace_ToLower_word [OF assms(3)] u64_def)
qed

text \<open>The default receive windows, a fraction and a size that wraps around to zero.\<close>

lemma byte_count_parse_witness:
  "ParseByteCountWithUnit ''512KiB'' = Inr 524288 \<and> ParseByteCountWithUnit ''6MiB'' = Inr 6291456 \<and>
   ParseByteCountWithUnit ''1.5mb'' = Inr 1 \<and> ParseByteCountWithUnit ''16384 pib'' = Inr 0"
proof (intro conjI)
  have d: "decimal 512 = ''512''" "decimal 6 = ''6''" "decimal (Suc 0) = ''1''" "decimal 16384 = ''16384''"
    by (simp_all add: decimal.simps digit_char_def char_eval)
  have c: "list_all is_word ''KiB''" "list_all is_word ''MiB''" "list_all is_word ''pib''" "list_all is_space '' ''"
    "\<not> is_word (CHR ''.'')" "\<not> is_space (CHR ''.'')"
    "unit_factor (strings_ToLower ''KiB'') = Some 1024" "unit_factor (strings_ToLower ''MiB'') = Some 1048576"
    "unit_factor (strings_ToLower ''pib'') = Some 1125899906842624" "unit_factor (strings_ToLower '''') = Some 1"
    by (simp_all add: is_word_def is_space_def is_digit_def is_upper_def is_lower_def unit_factor_def
        strings_ToLower_def lower_char_def char_eval)
  note c = c(1-6) c(7-10) [unfolded unit_factor_table]
  show "ParseByteCountWithUnit ''512KiB'' = Inr 524288"
    using byte_count_parse [of "''''" "''''" "''KiB''" 1024 512 "''''"] c by (simp add: d)
  show "ParseByteCountWithUnit ''6MiB'' = Inr 6291456"
    using byte_count_parse [of "''''" "''''" "''MiB''" 1048576 6 "''''"] c by (simp add: d)
  show "ParseByteCountWithUnit ''1.5mb'' = Inr 1"
    using byte_count_parse [of "''''" "''''" "''''" 1 1 "''.5mb''"] c by (simp add: d)
  show "ParseByteCountWithUnit ''16384 pib'' = Inr 0"
    using byte_count_parse [of "''''" "'' ''" "''pib''" 1125899906842624 16384 "''''"] c by (simp add: d)
qed

end
