(* ===== verification/AddrUtils.thy ===== *)
theory AddrUtils
  imports GoStrings
begin

text \<open>
  \<open>src/common/addr_utils.go\<close>: an address \<open>host:port\<close> or \<open>host\<close>, with \<open>net.SplitHostPort\<close> of the standard
  library.  The name resolution \<open>net.ResolveIPAddr\<close> is the argument \<open>resolve\<close>.  Shown here: the host and the
  port that reach the resolver and the result, for each of the three forms of an address, and that an IPv6 address
  without brackets is refused.
\<close>

datatype 'e addr_error =
    MissingPort
  | TooManyColons
  | MissingBracket
  | UnexpectedOpenBracket
  | UnexpectedCloseBracket
  | BadPort num_error
  | ResolveError 'e

record 'ip udp_addr =
  UDP_IP :: 'ip
  UDP_Port :: int

text \<open>\<open>regexp.MatchString(".*:\d+", address)\<close>: a colon followed by a digit.\<close>

fun has_port :: "string \<Rightarrow> bool" where
  "has_port (c # d # s) \<longleftrightarrow> c = CHR '':'' \<and> is_digit d \<or> has_port (d # s)"
| "has_port _ \<longleftrightarrow> False"

text \<open>The text before and after the last colon, and the position of a byte.\<close>

definition split_last_colon :: "string \<Rightarrow> (string \<times> string) option" where
  "split_last_colon s =
     (if CHR '':'' \<in> set s
      then Some (rev (tl (dropWhile (\<lambda>c. c \<noteq> CHR '':'') (rev s))), rev (takeWhile (\<lambda>c. c \<noteq> CHR '':'') (rev s)))
      else None)"

definition net_SplitHostPort :: "string \<Rightarrow> 'e addr_error + string \<times> string" where
  "net_SplitHostPort s =
     (case split_last_colon s of
        None \<Rightarrow> Inl MissingPort
      | Some (before, port) \<Rightarrow>
          if s \<noteq> [] \<and> hd s = CHR ''['' then
            let host = takeWhile (\<lambda>c. c \<noteq> CHR '']'') (tl s); after = dropWhile (\<lambda>c. c \<noteq> CHR '']'') (tl s)
            in if after = [] then Inl MissingBracket
               else if tl after = [] then Inl MissingPort
               else if tl after = CHR '':'' # port then
                 (if CHR ''['' \<in> set (tl s) then Inl UnexpectedOpenBracket
                  else if CHR '']'' \<in> set (tl after) then Inl UnexpectedCloseBracket
                  else Inr (host, port))
               else if hd (tl after) = CHR '':'' then Inl TooManyColons
               else Inl MissingPort
          else if CHR '':'' \<in> set before then Inl TooManyColons
          else if CHR ''['' \<in> set s then Inl UnexpectedOpenBracket
          else if CHR '']'' \<in> set s then Inl UnexpectedCloseBracket
          else Inr (before, port))"

definition ParseResolveHost ::
    "(string \<Rightarrow> 'e + 'ip) \<Rightarrow> string \<Rightarrow> int \<Rightarrow> 'e addr_error + 'ip udp_addr" where
  "ParseResolveHost resolve address defaultPort =
     (let hp = (if has_port address then
                  (case net_SplitHostPort address of
                     Inl e \<Rightarrow> Inl e
                   | Inr (host, portString) \<Rightarrow>
                       (case strconv_Atoi portString of
                          Inl e \<Rightarrow> Inl (BadPort e)
                        | Inr port \<Rightarrow> Inr (host, port)))
                else Inr (address, defaultPort))
      in case hp of
           Inl e \<Rightarrow> Inl e
         | Inr (host, port) \<Rightarrow>
             (case resolve host of
                Inl e \<Rightarrow> Inl (ResolveError e)
              | Inr ip \<Rightarrow> Inr \<lparr>UDP_IP = ip, UDP_Port = port\<rparr>))"

lemma has_port_append: "is_digit d \<Longrightarrow> has_port (s @ CHR '':'' # d # t)"
  by (induction s rule: has_port.induct) (auto split: list.splits)

lemma has_port_no_colon: "CHR '':'' \<notin> set s \<Longrightarrow> \<not> has_port s"
  by (induction s rule: has_port.induct) auto

lemma has_port_decimal: "has_port (s @ CHR '':'' # decimal n)"
proof -
  obtain d t where d: "decimal n = d # t" by (cases "decimal n") simp_all
  then have "is_digit d" using decimal_set [of d n] by simp
  then show ?thesis using has_port_append [of d s t] d by simp
qed

lemma split_last_colon_append:
  assumes "CHR '':'' \<notin> set t"
  shows "split_last_colon (s @ CHR '':'' # t) = Some (s, t)"
proof -
  have t: "\<And>c. c \<in> set (rev t) \<Longrightarrow> c \<noteq> CHR '':''" using assms by auto
  have "rev (s @ CHR '':'' # t) = rev t @ CHR '':'' # rev s" by simp
  moreover have "dropWhile (\<lambda>c. c \<noteq> CHR '':'') (rev t @ CHR '':'' # rev s) = CHR '':'' # rev s"
    using t by (subst dropWhile_append2) auto
  moreover have "takeWhile (\<lambda>c. c \<noteq> CHR '':'') (rev t @ CHR '':'' # rev s) = rev t"
    using t by (subst takeWhile_append2) auto
  ultimately show ?thesis by (simp only: split_last_colon_def) simp
qed

lemma decimal_no_sep: "c \<in> {CHR '':'', CHR ''['', CHR '']''} \<Longrightarrow> c \<notin> set (decimal n)"
  using decimal_set [of c n] by (auto simp: is_digit_def)

lemma SplitHostPort_plain:
  assumes "set host \<inter> {CHR '':'', CHR ''['', CHR '']''} = {}"
  shows "net_SplitHostPort (host @ CHR '':'' # decimal n) = Inr (host, decimal n)"
proof -
  have "hd (host @ CHR '':'' # decimal n) \<noteq> CHR ''[''" using assms by (cases host) auto
  moreover have "CHR '':'' \<notin> set host" "CHR ''['' \<notin> set host" "CHR '']'' \<notin> set host" using assms by auto
  ultimately show ?thesis
    using decimal_no_sep by (simp add: net_SplitHostPort_def split_last_colon_append)
qed

lemma SplitHostPort_bracket:
  assumes "set host \<inter> {CHR ''['', CHR '']''} = {}"
  shows "net_SplitHostPort (CHR ''['' # host @ CHR '']'' # CHR '':'' # decimal n) = Inr (host, decimal n)"
proof -
  let ?u = "CHR '']'' # CHR '':'' # decimal n"
  have h: "\<And>c. c \<in> set host \<Longrightarrow> c \<noteq> CHR '']''" using assms by auto
  have "takeWhile (\<lambda>c. c \<noteq> CHR '']'') (host @ ?u) = host" "dropWhile (\<lambda>c. c \<noteq> CHR '']'') (host @ ?u) = ?u"
    using h by (simp_all add: takeWhile_append2 dropWhile_append2)
  moreover have "split_last_colon (CHR ''['' # host @ ?u) = Some (CHR ''['' # host @ '']'', decimal n)"
    using split_last_colon_append [of "decimal n" "CHR ''['' # host @ '']''"] decimal_no_sep by simp
  moreover have "CHR ''['' \<notin> set host" using assms by auto
  ultimately show ?thesis
    using decimal_no_sep by (simp add: net_SplitHostPort_def)
qed

text \<open>
  C23: a host without colons or brackets gets the default port; with a decimal port after it, or in brackets (an
  IPv6 address) with a port, exactly that host reaches the resolver and the result carries that port (any port below
  \<open>2 ^ 63\<close>: the code does not check it against 65535).
\<close>

theorem ParseResolveHost_forms:
  assumes "set host \<inter> {CHR '':'', CHR ''['', CHR '']''} = {}" "set ip6 \<inter> {CHR ''['', CHR '']''} = {}" "n < 2 ^ 63"
  shows "ParseResolveHost resolve host d =
      (case resolve host of Inl e \<Rightarrow> Inl (ResolveError e) | Inr ip \<Rightarrow> Inr \<lparr>UDP_IP = ip, UDP_Port = d\<rparr>) \<and>
    ParseResolveHost resolve (host @ CHR '':'' # decimal n) d =
      (case resolve host of Inl e \<Rightarrow> Inl (ResolveError e) | Inr ip \<Rightarrow> Inr \<lparr>UDP_IP = ip, UDP_Port = int n\<rparr>) \<and>
    ParseResolveHost resolve (CHR ''['' # ip6 @ CHR '']'' # CHR '':'' # decimal n) d =
      (case resolve ip6 of Inl e \<Rightarrow> Inl (ResolveError e) | Inr ip \<Rightarrow> Inr \<lparr>UDP_IP = ip, UDP_Port = int n\<rparr>)"
proof -
  have "has_port (CHR ''['' # ip6 @ CHR '']'' # CHR '':'' # decimal n)"
    using has_port_decimal [of "CHR ''['' # ip6 @ '']''" n] by simp
  moreover have "\<not> has_port host" using assms(1) by (intro has_port_no_colon) auto
  ultimately show ?thesis
    using assms(3) by (simp add: ParseResolveHost_def has_port_decimal SplitHostPort_plain [OF assms(1)]
        SplitHostPort_bracket [OF assms(2)] strconv_Atoi_decimal)
qed

lemma ParseResolveHost_forms_witness:
  "ParseResolveHost (\<lambda>h. Inr h :: unit + string) ''h'' 18080 = Inr \<lparr>UDP_IP = ''h'', UDP_Port = 18080\<rparr> \<and>
   ParseResolveHost (\<lambda>h. Inr h :: unit + string) ''h:7'' 18080 = Inr \<lparr>UDP_IP = ''h'', UDP_Port = 7\<rparr> \<and>
   ParseResolveHost (\<lambda>h. Inr h :: unit + string) ''[::1]:7'' 18080 = Inr \<lparr>UDP_IP = ''::1'', UDP_Port = 7\<rparr>"
proof -
  have "decimal 7 = ''7''" by (simp add: decimal.simps digit_char_def char_eval)
  with ParseResolveHost_forms [of "''h''" "''::1''" 7 "\<lambda>h. Inr h :: unit + string" 18080] show ?thesis by simp
qed

text \<open>An IPv6 address without brackets whose last group begins with a digit is refused, although it names a host only.\<close>

lemma ParseResolveHost_bare_ipv6: "ParseResolveHost (\<lambda>h. Inr h) ''fe80::1'' 18080 = Inl TooManyColons"
  by (simp add: ParseResolveHost_def net_SplitHostPort_def split_last_colon_def is_digit_def)

end
