(* ===== verification/ProtocolTypes.thy ===== *)
theory ProtocolTypes
  imports GoStrings
begin

text \<open>
  \<open>src/internal/protocol/protocol.go\<close>: the QUIC packet types and ECN marks, both bytes with named values, their
  texts, and the two bits of the IP header that carry an ECN mark.  A panic is \<open>None\<close>.
\<close>

type_synonym PacketType = "8 word"
type_synonym ECN = "8 word"

definition PacketTypeInitial :: PacketType where "PacketTypeInitial = 1"
definition PacketTypeRetry :: PacketType where "PacketTypeRetry = 2"
definition PacketTypeHandshake :: PacketType where "PacketTypeHandshake = 3"
definition PacketType0RTT :: PacketType where "PacketType0RTT = 4"

text \<open>The sizes and limits of the protocol; \<open>MaxByteCount\<close> is with the sender that uses it.\<close>

definition InvalidByteCount :: byteCount where "InvalidByteCount = - 1"
definition MaxPacketBufferSize :: int where "MaxPacketBufferSize = 1452"
definition MaxLargePacketBufferSize :: int where "MaxLargePacketBufferSize = 20 * 1024"
definition MinInitialPacketSize :: int where "MinInitialPacketSize = 1200"
definition MinUnknownVersionPacketSize :: int where "MinUnknownVersionPacketSize = MinInitialPacketSize"
definition MinStatelessResetSize :: int where "MinStatelessResetSize = 1 + 20 + 4 + 1 + 16"
definition MinConnectionIDLenInitial :: int where "MinConnectionIDLenInitial = 8"
definition DefaultAckDelayExponent :: int where "DefaultAckDelayExponent = 3"
definition DefaultActiveConnectionIDLimit :: int where "DefaultActiveConnectionIDLimit = 2"
definition MaxAckDelayExponent :: int where "MaxAckDelayExponent = 20"
definition DefaultMaxAckDelay :: duration where "DefaultMaxAckDelay = 25 * time_Millisecond"
definition MaxMaxAckDelay :: duration where "MaxMaxAckDelay = (2 ^ 14 - 1) * time_Millisecond"
definition MaxConnIDLen :: int where "MaxConnIDLen = 20"
definition InvalidPacketLimitAES :: int where "InvalidPacketLimitAES = 2 ^ 52"
definition InvalidPacketLimitChaCha :: int where "InvalidPacketLimitChaCha = 2 ^ 36"
definition PacketSizeIPv4 :: int where "PacketSizeIPv4 = 1252"

lemmas protocol_sizes = MaxPacketBufferSize_def MaxLargePacketBufferSize_def MinInitialPacketSize_def
  MinUnknownVersionPacketSize_def MinStatelessResetSize_def MinConnectionIDLenInitial_def MaxConnIDLen_def PacketSizeIPv4_def

lemmas protocol_delays = DefaultAckDelayExponent_def MaxAckDelayExponent_def DefaultMaxAckDelay_def MaxMaxAckDelay_def
  time_Millisecond_def

text \<open>An initial packet fits its buffer, a default lies below its maximum, and delays are durations.\<close>

lemma protocol_limits_consistent:
  "MinInitialPacketSize \<le> PacketSizeIPv4" "PacketSizeIPv4 \<le> MaxPacketBufferSize"
  "MaxPacketBufferSize \<le> MaxLargePacketBufferSize" "MinConnectionIDLenInitial \<le> MaxConnIDLen"
  "MaxConnIDLen < MinStatelessResetSize" "MinStatelessResetSize < MinInitialPacketSize"
  "DefaultAckDelayExponent \<le> MaxAckDelayExponent" "DefaultMaxAckDelay \<le> MaxMaxAckDelay" "in_i64 MaxMaxAckDelay"
  by (simp_all add: protocol_sizes protocol_delays)

definition PacketType_String :: "PacketType \<Rightarrow> string" where
  "PacketType_String t =
     (if t = PacketTypeInitial then ''Initial''
      else if t = PacketTypeRetry then ''Retry''
      else if t = PacketTypeHandshake then ''Handshake''
      else if t = PacketType0RTT then ''0-RTT Protected''
      else ''unknown packet type: '' @ decimal (unat t))"

definition ECNUnsupported :: ECN where "ECNUnsupported = 0"
definition ECNNon :: ECN where "ECNNon = 1"
definition ECT1 :: ECN where "ECT1 = 2"
definition ECT0 :: ECN where "ECT0 = 3"
definition ECNCE :: ECN where "ECNCE = 4"

lemmas ecn_defs = ECNUnsupported_def ECNNon_def ECT1_def ECT0_def ECNCE_def

definition ParseECNHeaderBits :: "8 word \<Rightarrow> ECN option" where
  "ParseECNHeaderBits bits =
     (if bits = 0 then Some ECNNon
      else if bits = 2 then Some ECT0
      else if bits = 1 then Some ECT1
      else if bits = 3 then Some ECNCE
      else None)"

definition ECN_ToHeaderBits :: "ECN \<Rightarrow> 8 word option" where
  "ECN_ToHeaderBits e =
     (if e = ECNNon then Some 0
      else if e = ECT0 then Some 2
      else if e = ECT1 then Some 1
      else if e = ECNCE then Some 3
      else None)"

definition ECN_String :: "ECN \<Rightarrow> string" where
  "ECN_String e =
     (if e = ECNUnsupported then ''ECN unsupported''
      else if e = ECNNon then ''Not-ECT''
      else if e = ECT1 then ''ECT(1)''
      else if e = ECT0 then ''ECT(0)''
      else if e = ECNCE then ''CE''
      else ''invalid ECN value: '' @ decimal (unat e))"

text \<open>
  Parsing the ECN bits of a header and writing a mark into them are inverse to each other, panics included: the
  bits parse to a mark exactly when the mark is written as these bits, and both panic exactly outside the four marks.
\<close>

lemma ecn_bits_inverse:
  "(ParseECNHeaderBits bits = Some e \<longleftrightarrow> ECN_ToHeaderBits e = Some bits) \<and>
   (ParseECNHeaderBits bits = None \<longleftrightarrow> 3 < bits) \<and>
   (ECN_ToHeaderBits e = None \<longleftrightarrow> e = ECNUnsupported \<or> ECNCE < e)"
proof -
  have w: "b = 0 \<or> b = 1 \<or> b = 2 \<or> b = 3 \<or> b = 4 \<or> 4 < b" for b :: "8 word"
  proof -
    have "unat b = 0 \<or> unat b = 1 \<or> unat b = 2 \<or> unat b = 3 \<or> unat b = 4 \<or> 4 < unat b" by linarith
    moreover have k: "unat b = k \<Longrightarrow> b = of_nat k" for k by auto
    moreover have "4 < unat b \<longleftrightarrow> 4 < b" by (simp add: word_less_nat_alt)
    ultimately show ?thesis using k [of 0] k [of 1] k [of 2] k [of 3] k [of 4] by fastforce
  qed
  have "(ParseECNHeaderBits bits = Some e) = (ECN_ToHeaderBits e = Some bits)"
    by (auto simp: ParseECNHeaderBits_def ECN_ToHeaderBits_def ecn_defs split: if_splits)
  moreover have "(ParseECNHeaderBits bits = None) = (3 < bits)"
    using w [of bits] by (auto simp: ParseECNHeaderBits_def word_less_nat_alt split: if_splits)
  moreover have "(ECN_ToHeaderBits e = None) = (e = ECNUnsupported \<or> ECNCE < e)"
    using w [of e] by (auto simp: ECN_ToHeaderBits_def ecn_defs split: if_splits)
  ultimately show ?thesis by blast
qed

text \<open>The named values have different texts, and no other value shares one of them.\<close>

lemma PacketType_String_named:
  "PacketType_String t = PacketType_String u \<Longrightarrow> t \<in> {1, 2, 3, 4} \<Longrightarrow> t = u"
  by (auto simp: PacketType_String_def PacketTypeInitial_def PacketTypeRetry_def PacketTypeHandshake_def
      PacketType0RTT_def split: if_splits)

end
