(* ===== verification/Http3Client.thy ===== *)
theory Http3Client
  imports Client
begin

text \<open>
  The HTTP/3 mode of \<open>src/client/client.go\<close> (\<open>serverHttp3\<close>, with the record of \<open>src/common/http3state.go\<close>): one
  goroutine per URL fetches it and appends its report to a shared slice, and the caller waits for all of them.  The
  goroutines are a step relation: a step is one action of one goroutine, and nothing orders the goroutines but the wait
  group.  The append reads the slice and writes it in two steps, since no lock is held; the elements are values, so the
  corruption a race may cause inside the backing array is not modelled.  Shown here: what is reported at the end are
  reports of different goroutines, at least one if there was a URL; and that reports can be lost.
\<close>

record Http3States =
  h3_StartTime :: time
  h3_EndTime :: time
  TimeUsageMS :: int
  h3_URL :: string
  BodySizeByte :: int

datatype h3_pc =
    H3Start
  | H3Getting Http3States
  | H3Reading Http3States
  | H3Fetched Http3States
  | H3Appending Http3States "Http3States list"
  | H3Stored Http3States
  | H3Done Http3States

record h3_state =
  h3_pcs :: "h3_pc list"
  statesAll :: "Http3States list"
  h3_wait :: int
  h3_exited :: bool

definition h3_init :: "string list \<Rightarrow> h3_state" where
  "h3_init urls =
     \<lparr>h3_pcs = map (\<lambda>_. H3Start) urls, statesAll = [], h3_wait = int (length urls), h3_exited = False\<rparr>"

text \<open>\<open>Duration.Milliseconds\<close>.\<close>

definition h3_finish :: "time \<Rightarrow> int \<Rightarrow> Http3States \<Rightarrow> Http3States" where
  "h3_finish now n st =
     st\<lparr>h3_EndTime := now, BodySizeByte := n, TimeUsageMS := time_Sub now (h3_StartTime st) sdiv time_Millisecond\<rparr>"

text \<open>A failing request or body ends the process (\<open>log.Fatal\<close>).\<close>

inductive h3_step :: "string list \<Rightarrow> h3_state \<Rightarrow> h3_state \<Rightarrow> bool" for urls :: "string list" where
  start: "i < length (h3_pcs s) \<Longrightarrow> \<not> h3_exited s \<Longrightarrow> h3_pcs s ! i = H3Start \<Longrightarrow>
    h3_step urls s (s\<lparr>h3_pcs := (h3_pcs s)[i := H3Getting
      \<lparr>h3_StartTime = now, h3_EndTime = time_zero, TimeUsageMS = 0, h3_URL = urls ! i, BodySizeByte = 0\<rparr>]\<rparr>)"
| get: "i < length (h3_pcs s) \<Longrightarrow> \<not> h3_exited s \<Longrightarrow> h3_pcs s ! i = H3Getting st \<Longrightarrow>
    h3_step urls s (s\<lparr>h3_pcs := (h3_pcs s)[i := H3Reading st]\<rparr>)"
| body: "i < length (h3_pcs s) \<Longrightarrow> \<not> h3_exited s \<Longrightarrow> h3_pcs s ! i = H3Reading st \<Longrightarrow> 0 \<le> n \<Longrightarrow>
    h3_step urls s (s\<lparr>h3_pcs := (h3_pcs s)[i := H3Fetched (h3_finish now n st)]\<rparr>)"
| fatal: "i < length (h3_pcs s) \<Longrightarrow> \<not> h3_exited s \<Longrightarrow> h3_pcs s ! i = H3Getting st \<or> h3_pcs s ! i = H3Reading st \<Longrightarrow>
    h3_step urls s (s\<lparr>h3_exited := True\<rparr>)"
| load: "i < length (h3_pcs s) \<Longrightarrow> \<not> h3_exited s \<Longrightarrow> h3_pcs s ! i = H3Fetched st \<Longrightarrow>
    h3_step urls s (s\<lparr>h3_pcs := (h3_pcs s)[i := H3Appending st (statesAll s)]\<rparr>)"
| store: "i < length (h3_pcs s) \<Longrightarrow> \<not> h3_exited s \<Longrightarrow> h3_pcs s ! i = H3Appending st snap \<Longrightarrow>
    h3_step urls s (s\<lparr>h3_pcs := (h3_pcs s)[i := H3Stored st], statesAll := snap @ [st]\<rparr>)"
| finished: "i < length (h3_pcs s) \<Longrightarrow> \<not> h3_exited s \<Longrightarrow> h3_pcs s ! i = H3Stored st \<Longrightarrow>
    h3_step urls s (s\<lparr>h3_pcs := (h3_pcs s)[i := H3Done st], h3_wait := h3_wait s - 1\<rparr>)"

inductive h3_reachable :: "string list \<Rightarrow> h3_state \<Rightarrow> bool" for urls :: "string list" where
  h3_initial: "h3_reachable urls (h3_init urls)"
| h3_next: "h3_reachable urls s \<Longrightarrow> h3_step urls s t \<Longrightarrow> h3_reachable urls t"

text \<open>\<open>Wait\<close> returns, and \<open>reportHttp3States\<close> gets the slice: \<open>None\<close> while it waits.\<close>

definition h3_report :: "h3_state \<Rightarrow> Http3States list option" where
  "h3_report s = (if \<not> h3_exited s \<and> h3_wait s = 0 then Some (statesAll s) else None)"

subsection \<open>What is reported\<close>

text \<open>The report that a goroutine has stored.\<close>

fun pc_stored :: "h3_pc \<Rightarrow> Http3States option" where
  "pc_stored (H3Stored st) = Some st"
| "pc_stored (H3Done st) = Some st"
| "pc_stored _ = None"

fun pc_done :: "h3_pc \<Rightarrow> bool" where
  "pc_done (H3Done _) \<longleftrightarrow> True"
| "pc_done _ \<longleftrightarrow> False"

fun pc_url :: "h3_pc \<Rightarrow> string option" where
  "pc_url H3Start = None"
| "pc_url (H3Getting st) = Some (h3_URL st)"
| "pc_url (H3Reading st) = Some (h3_URL st)"
| "pc_url (H3Fetched st) = Some (h3_URL st)"
| "pc_url (H3Appending st _) = Some (h3_URL st)"
| "pc_url (H3Stored st) = Some (h3_URL st)"
| "pc_url (H3Done st) = Some (h3_URL st)"

text \<open>A slice holds what different goroutines have stored.\<close>

definition stored_by :: "h3_pc list \<Rightarrow> Http3States list \<Rightarrow> nat list \<Rightarrow> bool" where
  "stored_by pcs xs ks \<longleftrightarrow>
     distinct ks \<and> length ks = length xs \<and> (\<forall>k < length ks. ks ! k < length pcs \<and> pc_stored (pcs ! (ks ! k)) = Some (xs ! k))"

definition h3_inv :: "string list \<Rightarrow> h3_state \<Rightarrow> bool" where
  "h3_inv urls s \<longleftrightarrow>
     length (h3_pcs s) = length urls \<and>
     (\<exists>ks. stored_by (h3_pcs s) (statesAll s) ks) \<and>
     (\<forall>i < length urls. \<forall>u. pc_url (h3_pcs s ! i) = Some u \<longrightarrow> u = urls ! i) \<and>
     (\<forall>i < length urls. \<forall>st snap. h3_pcs s ! i = H3Appending st snap \<longrightarrow> (\<exists>ks. stored_by (h3_pcs s) snap ks)) \<and>
     (statesAll s = [] \<longrightarrow> (\<forall>i < length urls. pc_stored (h3_pcs s ! i) = None)) \<and>
     h3_wait s = int (length (filter (\<lambda>pc. \<not> pc_done pc) (h3_pcs s)))"

text \<open>A step of a goroutine that has stored nothing, or keeps what it stored, keeps the slices.\<close>

lemma stored_by_update:
  assumes "stored_by pcs xs ks" "i < length pcs" "pc_stored (pcs ! i) = None \<or> pc_stored pc = pc_stored (pcs ! i)"
  shows "stored_by (pcs[i := pc]) xs ks"
  using assms by (auto simp: stored_by_def nth_list_update)

lemma stored_by_append:
  assumes "stored_by pcs xs ks" "i < length pcs" "pc_stored (pcs ! i) = None"
  shows "stored_by (pcs[i := H3Stored st]) (xs @ [st]) (ks @ [i])"
proof -
  have "i \<notin> set ks" using assms by (auto simp: stored_by_def in_set_conv_nth)
  with assms show ?thesis by (auto simp: stored_by_def nth_list_update nth_append less_Suc_eq)
qed

lemma length_filter_update:
  assumes "i < length xs"
  shows "length (filter P (xs[i := y])) + (if P (xs ! i) then 1 else 0) = length (filter P xs) + (if P y then 1 else 0)"
proof -
  have "filter P xs = filter P (take i xs @ xs ! i # drop (Suc i) xs)" using assms by (simp add: id_take_nth_drop [symmetric])
  then show ?thesis using assms by (simp add: upd_conv_take_nth_drop)
qed

lemma h3_inv_url:
  "h3_inv urls s \<Longrightarrow> i < length (h3_pcs s) \<Longrightarrow> pc_url (h3_pcs s ! i) = Some u \<Longrightarrow> u = urls ! i"
  by (auto simp: h3_inv_def)

lemma h3_inv_snap:
  "h3_inv urls s \<Longrightarrow> i < length (h3_pcs s) \<Longrightarrow> h3_pcs s ! i = H3Appending st sl \<Longrightarrow>
   \<exists>ks. stored_by (h3_pcs s) sl ks"
  unfolding h3_inv_def by metis

lemma h3_snap_update:
  assumes "h3_inv urls s" "i < length (h3_pcs s)"
    and "pc_stored (h3_pcs s ! i) = None \<or> pc_stored pc = pc_stored (h3_pcs s ! i)"
    and "j < length urls" "(h3_pcs s)[i := pc] ! j = H3Appending x sl" "j \<noteq> i"
  shows "\<exists>ks. stored_by ((h3_pcs s)[i := pc]) sl ks"
proof -
  have "h3_pcs s ! j = H3Appending x sl" "j < length (h3_pcs s)" using assms by (simp_all add: h3_inv_def)
  from h3_inv_snap [OF assms(1) this(2,1)] show ?thesis using stored_by_update assms(2,3) by blast
qed

lemma h3_inv_move:
  assumes inv: "h3_inv urls s" and i: "i < length (h3_pcs s)"
    and pc: "pc_stored (h3_pcs s ! i) = pc_stored pc" "pc_done (h3_pcs s ! i) = pc_done pc" "pc_url pc = Some (urls ! i)"
    and snap: "\<And>st sl. pc = H3Appending st sl \<Longrightarrow> sl = statesAll s"
  shows "h3_inv urls (s\<lparr>h3_pcs := (h3_pcs s)[i := pc]\<rparr>)"
proof -
  let ?p = "(h3_pcs s)[i := pc]"
  have st: "stored_by ?p xs ks" if "stored_by (h3_pcs s) xs ks" for xs ks
    using that i pc(1) by (intro stored_by_update) simp_all
  have "length (filter (\<lambda>pc. \<not> pc_done pc) ?p) = length (filter (\<lambda>pc. \<not> pc_done pc) (h3_pcs s))"
    using length_filter_update [OF i, of "\<lambda>pc. \<not> pc_done pc" pc] pc(2) by (simp split: if_splits)
  moreover have "\<exists>ks. stored_by ?p (statesAll s) ks" using inv st by (auto simp: h3_inv_def)
  moreover have "\<exists>ks. stored_by ?p sl ks" if "j < length urls" "?p ! j = H3Appending x sl" for j x sl
  proof (cases "j = i")
    case True
    then have "sl = statesAll s" using snap that(2) i by simp
    with \<open>\<exists>ks. stored_by ?p (statesAll s) ks\<close> show ?thesis by simp
  next
    case False
    with that show ?thesis using h3_snap_update [OF inv i] pc(1) by metis
  qed
  moreover have "\<forall>j < length urls. \<forall>u. pc_url (?p ! j) = Some u \<longrightarrow> u = urls ! j"
    using inv pc(3) i by (auto simp: h3_inv_def nth_list_update)
  moreover have "statesAll s = [] \<longrightarrow> (\<forall>j < length urls. pc_stored (?p ! j) = None)"
    using inv pc(1) i by (auto simp: h3_inv_def nth_list_update)
  ultimately show ?thesis using inv by (simp add: h3_inv_def)
qed

lemma h3_inv_store:
  assumes inv: "h3_inv urls s" and i: "i < length (h3_pcs s)" and pc: "h3_pcs s ! i = H3Appending st snap"
  shows "h3_inv urls (s\<lparr>h3_pcs := (h3_pcs s)[i := H3Stored st], statesAll := snap @ [st]\<rparr>)"
proof -
  let ?p = "(h3_pcs s)[i := H3Stored st]"
  have iu: "i < length urls" using inv i by (simp add: h3_inv_def)
  have st: "stored_by ?p xs ks" if "stored_by (h3_pcs s) xs ks" for xs ks
    using that i pc by (intro stored_by_update) simp_all
  obtain js where "stored_by (h3_pcs s) snap js" using h3_inv_snap [OF inv i pc] by blast
  then have "stored_by ?p (snap @ [st]) (js @ [i])" using i pc by (intro stored_by_append) simp_all
  moreover have "length (filter (\<lambda>pc. \<not> pc_done pc) ?p) = length (filter (\<lambda>pc. \<not> pc_done pc) (h3_pcs s))"
    using length_filter_update [OF i, of "\<lambda>pc. \<not> pc_done pc" "H3Stored st"] pc by simp
  moreover have "\<exists>ks. stored_by ?p sl ks" if "j < length urls" "?p ! j = H3Appending x sl" for j x sl
    using h3_snap_update [OF inv i _ that] that i pc by (cases "j = i") auto
  moreover have "\<forall>j < length urls. \<forall>u. pc_url (?p ! j) = Some u \<longrightarrow> u = urls ! j"
    using inv pc i by (auto simp: h3_inv_def nth_list_update)
  ultimately show ?thesis using inv by (auto simp: h3_inv_def)
qed

lemma h3_inv_finished:
  assumes inv: "h3_inv urls s" and i: "i < length (h3_pcs s)" and pc: "h3_pcs s ! i = H3Stored st"
  shows "h3_inv urls (s\<lparr>h3_pcs := (h3_pcs s)[i := H3Done st], h3_wait := h3_wait s - 1\<rparr>)"
proof -
  let ?p = "(h3_pcs s)[i := H3Done st]"
  have st: "stored_by ?p xs ks" if "stored_by (h3_pcs s) xs ks" for xs ks
    using that i pc by (intro stored_by_update) simp_all
  have "length (filter (\<lambda>pc. \<not> pc_done pc) ?p) + 1 = length (filter (\<lambda>pc. \<not> pc_done pc) (h3_pcs s))"
    using length_filter_update [OF i, of "\<lambda>pc. \<not> pc_done pc" "H3Done st"] pc by simp
  moreover have "\<exists>ks. stored_by ?p (statesAll s) ks" using inv st by (auto simp: h3_inv_def)
  moreover have "\<exists>ks. stored_by ?p sl ks" if "j < length urls" "?p ! j = H3Appending x sl" for j x sl
    using h3_snap_update [OF inv i _ that] that i pc by (cases "j = i") auto
  moreover have "\<forall>j < length urls. \<forall>u. pc_url (?p ! j) = Some u \<longrightarrow> u = urls ! j"
    using inv pc i by (auto simp: h3_inv_def nth_list_update)
  moreover have "statesAll s \<noteq> []" using inv i pc by (auto simp: h3_inv_def)
  ultimately show ?thesis using inv by (auto simp: h3_inv_def)
qed

lemma h3_step_inv:
  assumes "h3_step urls s t" "h3_inv urls s"
  shows "h3_inv urls t"
  using assms
proof (cases rule: h3_step.cases)
  case (fatal i st)
  with assms(2) show ?thesis by (simp add: h3_inv_def)
next
  case (store i st snap)
  with h3_inv_store [OF assms(2)] show ?thesis by simp
next
  case (finished i st)
  with h3_inv_finished [OF assms(2)] show ?thesis by simp
next
  case (start i now)
  then show ?thesis by (auto intro!: h3_inv_move [OF assms(2)])
next
  case (get i st)
  with h3_inv_url [OF assms(2), of i] show ?thesis by (auto intro!: h3_inv_move [OF assms(2)])
next
  case (body i st n now)
  with h3_inv_url [OF assms(2), of i] show ?thesis
    by (auto intro!: h3_inv_move [OF assms(2)] simp: h3_finish_def)
next
  case (load i st)
  with h3_inv_url [OF assms(2), of i] show ?thesis by (auto intro!: h3_inv_move [OF assms(2)])
qed

lemma h3_reachable_inv: "h3_reachable urls s \<Longrightarrow> h3_inv urls s"
proof (induction rule: h3_reachable.induct)
  case h3_initial
  have "stored_by pcs [] []" for pcs by (simp add: stored_by_def)
  then show ?case by (auto simp: h3_inv_def h3_init_def filter_map comp_def)
next
  case (h3_next s t)
  then show ?case by (blast intro: h3_step_inv)
qed

text \<open>
  C33: when the wait is over, under every interleaving, every URL was fetched and the reported list holds reports of
  different goroutines, each for the URL of its goroutine, at most one per URL and at least one if there is a URL.
  It need not hold all of them: in the run of the witness two goroutines read the slice before either writes it, and
  one of the two reports is lost.
\<close>

theorem http3_reports:
  assumes "h3_reachable urls s" "h3_report s = Some reports"
  shows "list_all pc_done (h3_pcs s) \<and>
    (\<exists>ks. distinct ks \<and> length ks = length reports \<and>
      (\<forall>k < length reports. ks ! k < length urls \<and> h3_pcs s ! (ks ! k) = H3Done (reports ! k) \<and>
        h3_URL (reports ! k) = urls ! (ks ! k))) \<and>
    length reports \<le> length urls \<and> (urls \<noteq> [] \<longrightarrow> reports \<noteq> [])"
proof -
  have inv: "h3_inv urls s" using assms(1) by (rule h3_reachable_inv)
  have len: "length (h3_pcs s) = length urls" using inv by (simp add: h3_inv_def)
  have r: "reports = statesAll s" "h3_wait s = 0" using assms(2) by (simp_all add: h3_report_def split: if_splits)
  then have "filter (\<lambda>pc. \<not> pc_done pc) (h3_pcs s) = []" using inv by (simp add: h3_inv_def)
  then have all: "list_all pc_done (h3_pcs s)" by (simp add: filter_empty_conv list_all_iff)
  have dn: "\<exists>st. h3_pcs s ! j = H3Done st" if "j < length urls" for j
    using all that len by (cases "h3_pcs s ! j") (auto simp: list_all_length dest!: spec [of _ j])
  obtain ks where ks: "stored_by (h3_pcs s) reports ks" using inv r by (auto simp: h3_inv_def)
  have k: "ks ! k < length urls" "h3_pcs s ! (ks ! k) = H3Done (reports ! k)" "h3_URL (reports ! k) = urls ! (ks ! k)"
    if "k < length reports" for k
  proof -
    show l: "ks ! k < length urls" using ks that len by (simp add: stored_by_def)
    show e: "h3_pcs s ! (ks ! k) = H3Done (reports ! k)" using dn [OF l] ks that by (auto simp: stored_by_def)
    show "h3_URL (reports ! k) = urls ! (ks ! k)" using h3_inv_url [OF inv, of "ks ! k"] l e len by simp
  qed
  have "set ks \<subseteq> {..<length urls}" using ks k(1) by (auto simp: stored_by_def in_set_conv_nth)
  then have "length reports \<le> length urls"
    using ks card_mono [of "{..<length urls}" "set ks"] by (simp add: stored_by_def distinct_card)
  moreover have "urls \<noteq> [] \<longrightarrow> reports \<noteq> []"
  proof
    assume "urls \<noteq> []"
    with dn [of 0] obtain st where "pc_stored (h3_pcs s ! 0) = Some st" by auto
    with inv r(1) \<open>urls \<noteq> []\<close> show "reports \<noteq> []" by (auto simp: h3_inv_def)
  qed
  ultimately show ?thesis using all ks k by (auto simp: stored_by_def)
qed

lemma h3_next': "h3_reachable urls s \<Longrightarrow> h3_step urls s t \<Longrightarrow> t = u \<Longrightarrow> h3_reachable urls u"
  by (simp add: h3_next)

definition h3_sample :: "string \<Rightarrow> Http3States" where
  "h3_sample url = \<lparr>h3_StartTime = 0, h3_EndTime = 5000000, TimeUsageMS = 5, h3_URL = url, BodySizeByte = 10\<rparr>"

lemma h3_sample_finish:
  "h3_finish 5000000 10
     \<lparr>h3_StartTime = 0, h3_EndTime = 0, TimeUsageMS = 0, h3_URL = url, BodySizeByte = 0\<rparr> = h3_sample url"
proof -
  have "time_Sub 5000000 0 sdiv time_Millisecond = 5" by code_simp
  then show ?thesis by (simp add: h3_finish_def h3_sample_def)
qed

definition h3_lost :: h3_state where
  "h3_lost = \<lparr>h3_pcs = [H3Done (h3_sample ''a''), H3Done (h3_sample ''b'')], statesAll = [h3_sample ''b''],
     h3_wait = 0, h3_exited = False\<rparr>"

lemma h3_lost_reachable: "h3_reachable [''a'', ''b''] h3_lost"
proof -
  let ?u = "[''a'', ''b'']"
  let ?g = "\<lambda>url. \<lparr>h3_StartTime = 0, h3_EndTime = 0, TimeUsageMS = 0, h3_URL = url, BodySizeByte = 0\<rparr>"
  let ?S = "\<lambda>a b xs w. \<lparr>h3_pcs = [a, b], statesAll = xs, h3_wait = w, h3_exited = False\<rparr>"
  have "h3_reachable ?u (?S H3Start H3Start [] 2)"
    using h3_initial [of ?u] by (simp add: h3_init_def)
  then have "h3_reachable ?u (?S (H3Getting (?g ''a'')) H3Start [] 2)"
    by (rule h3_next') (rule start [of 0 _ _ 0], simp_all add: time_zero_def)
  then have "h3_reachable ?u (?S (H3Reading (?g ''a'')) H3Start [] 2)"
    by (rule h3_next') (rule get [of 0], simp_all)
  then have "h3_reachable ?u (?S (H3Fetched (h3_sample ''a'')) H3Start [] 2)"
    by (rule h3_next') (rule body [of 0 _ "?g ''a''" 10 _ 5000000], simp_all add: h3_sample_finish)
  then have "h3_reachable ?u (?S (H3Fetched (h3_sample ''a'')) (H3Getting (?g ''b'')) [] 2)"
    by (rule h3_next') (rule start [of 1 _ _ 0], simp_all add: time_zero_def)
  then have "h3_reachable ?u (?S (H3Fetched (h3_sample ''a'')) (H3Reading (?g ''b'')) [] 2)"
    by (rule h3_next') (rule get [of 1], simp_all)
  then have "h3_reachable ?u (?S (H3Fetched (h3_sample ''a'')) (H3Fetched (h3_sample ''b'')) [] 2)"
    by (rule h3_next') (rule body [of 1 _ "?g ''b''" 10 _ 5000000], simp_all add: h3_sample_finish)
  then have "h3_reachable ?u (?S (H3Appending (h3_sample ''a'') []) (H3Fetched (h3_sample ''b'')) [] 2)"
    by (rule h3_next') (rule load [of 0], simp_all)
  then have "h3_reachable ?u (?S (H3Appending (h3_sample ''a'') []) (H3Appending (h3_sample ''b'') []) [] 2)"
    by (rule h3_next') (rule load [of 1], simp_all)
  then have "h3_reachable ?u (?S (H3Stored (h3_sample ''a'')) (H3Appending (h3_sample ''b'') []) [h3_sample ''a''] 2)"
    by (rule h3_next') (rule store [of 0], simp_all)
  then have "h3_reachable ?u (?S (H3Stored (h3_sample ''a'')) (H3Stored (h3_sample ''b'')) [h3_sample ''b''] 2)"
    by (rule h3_next') (rule store [of 1], simp_all)
  then have "h3_reachable ?u (?S (H3Done (h3_sample ''a'')) (H3Stored (h3_sample ''b'')) [h3_sample ''b''] 1)"
    by (rule h3_next') (rule finished [of 0], simp_all)
  then have "h3_reachable ?u (?S (H3Done (h3_sample ''a'')) (H3Done (h3_sample ''b'')) [h3_sample ''b''] 0)"
    by (rule h3_next') (rule finished [of 1], simp_all)
  then show ?thesis by (simp add: h3_lost_def)
qed

lemma http3_reports_witness:
  "h3_reachable [''a'', ''b''] h3_lost \<and> h3_report h3_lost = Some [h3_sample ''b''] \<and>
   list_all pc_done (h3_pcs h3_lost) \<and> length [h3_sample ''b''] < length [''a'', ''b'']"
  using http3_reports [OF h3_lost_reachable, of "[h3_sample ''b'']"] h3_lost_reachable
  by (simp add: h3_report_def h3_lost_def)

end
