(* ===== verification/Logger.thy ===== *)
theory Logger
  imports GoStrings
begin

text \<open>
  \<open>src/common/log.go\<close>: the logger that client and server write to, and its level from the environment.  The
  standard output is the list of the printed lines.  \<open>sprintf\<close> is the formatting of \<open>fmt\<close> and \<open>now_text\<close> the
  present time in a given layout; both are arguments.
\<close>

datatype LogLevel = LogLevelNothing | LogLevelError | LogLevelInfo | LogLevelDebug

text \<open>The levels are ordered by their number.\<close>

fun level_nat :: "LogLevel \<Rightarrow> nat" where
  "level_nat LogLevelNothing = 0"
| "level_nat LogLevelError = 1"
| "level_nat LogLevelInfo = 2"
| "level_nat LogLevelDebug = 3"

instantiation LogLevel :: linorder
begin

definition less_eq_LogLevel :: "LogLevel \<Rightarrow> LogLevel \<Rightarrow> bool" where
  "less_eq_LogLevel a b \<longleftrightarrow> level_nat a \<le> level_nat b"

definition less_LogLevel :: "LogLevel \<Rightarrow> LogLevel \<Rightarrow> bool" where
  "less_LogLevel a b \<longleftrightarrow> level_nat a < level_nat b"

instance
proof
  fix a b :: LogLevel
  show "a \<le> b \<Longrightarrow> b \<le> a \<Longrightarrow> a = b" by (cases a; cases b) (simp_all add: less_eq_LogLevel_def)
qed (auto simp: less_eq_LogLevel_def less_LogLevel_def)

end

record defaultLogger =
  lg_prefix :: string
  lg_logLevel :: LogLevel
  lg_timeFormat :: string

definition log_SetLogLevel :: "LogLevel \<Rightarrow> defaultLogger \<Rightarrow> defaultLogger" where
  "log_SetLogLevel level l = l\<lparr>lg_logLevel := level\<rparr>"

definition log_SetLogTimeFormat :: "string \<Rightarrow> defaultLogger \<Rightarrow> defaultLogger" where
  "log_SetLogTimeFormat fmt l = l\<lparr>lg_timeFormat := fmt\<rparr>"

text \<open>The prefix is part of the format, so a percent sign in it is a formatting verb.\<close>

definition log_logMessage ::
    "(string \<Rightarrow> 'a list \<Rightarrow> string) \<Rightarrow> (string \<Rightarrow> string) \<Rightarrow> string \<Rightarrow> 'a list \<Rightarrow> defaultLogger \<Rightarrow> string list" where
  "log_logMessage sprintf now_text fmt args l =
     (let pre = '''';
          pre = (if 0 < length (lg_timeFormat l) then now_text (lg_timeFormat l) @ '' '' else pre);
          pre = (if 0 < length (lg_prefix l) then pre @ lg_prefix l @ '' '' else pre)
      in [sprintf (pre @ fmt @ [CHR 0x0A]) args])"

definition log_Debugf ::
    "(string \<Rightarrow> 'a list \<Rightarrow> string) \<Rightarrow> (string \<Rightarrow> string) \<Rightarrow> string \<Rightarrow> 'a list \<Rightarrow> defaultLogger \<Rightarrow> string list" where
  "log_Debugf sprintf now_text fmt args l =
     (if lg_logLevel l = LogLevelDebug then log_logMessage sprintf now_text fmt args l else [])"

definition log_Infof ::
    "(string \<Rightarrow> 'a list \<Rightarrow> string) \<Rightarrow> (string \<Rightarrow> string) \<Rightarrow> string \<Rightarrow> 'a list \<Rightarrow> defaultLogger \<Rightarrow> string list" where
  "log_Infof sprintf now_text fmt args l =
     (if LogLevelInfo \<le> lg_logLevel l then log_logMessage sprintf now_text fmt args l else [])"

definition log_Errorf ::
    "(string \<Rightarrow> 'a list \<Rightarrow> string) \<Rightarrow> (string \<Rightarrow> string) \<Rightarrow> string \<Rightarrow> 'a list \<Rightarrow> defaultLogger \<Rightarrow> string list" where
  "log_Errorf sprintf now_text fmt args l =
     (if LogLevelError \<le> lg_logLevel l then log_logMessage sprintf now_text fmt args l else [])"

definition log_WithPrefix :: "string \<Rightarrow> defaultLogger \<Rightarrow> defaultLogger" where
  "log_WithPrefix prefix l =
     (let prefix = (if length prefix = 0 then lg_prefix l else lg_prefix l @ ''['' @ prefix @ '']'')
      in \<lparr>lg_prefix = prefix, lg_logLevel = lg_logLevel l, lg_timeFormat = lg_timeFormat l\<rparr>)"

definition DefaultLogLevel :: LogLevel where "DefaultLogLevel = LogLevelInfo"

text \<open>The level and whether the variable held an unknown name, which is reported on the standard error.\<close>

definition readLoggingEnv :: "string \<Rightarrow> LogLevel \<times> bool" where
  "readLoggingEnv env =
     (let v = strings_ToLower env in
      if v = '''' then (DefaultLogLevel, False)
      else if v = ''debug'' then (LogLevelDebug, False)
      else if v = ''info'' then (LogLevelInfo, False)
      else if v = ''error'' then (LogLevelError, False)
      else (DefaultLogLevel, True))"

text \<open>\<open>init\<close> makes the default logger from the environment variable.\<close>

definition DefaultLogger :: "string \<Rightarrow> defaultLogger" where
  "DefaultLogger env =
     log_SetLogLevel (fst (readLoggingEnv env)) \<lparr>lg_prefix = '''', lg_logLevel = LogLevelNothing, lg_timeFormat = ''''\<rparr>"

subsection \<open>Prefixes and levels\<close>

lemma log_WithPrefix_chain:
  "fold log_WithPrefix ps l =
     l\<lparr>lg_prefix := lg_prefix l @ concat (map (\<lambda>p. if p = '''' then '''' else ''['' @ p @ '']'') ps)\<rparr>"
  by (induction ps arbitrary: l) (simp_all add: log_WithPrefix_def Let_def)

text \<open>The line of a message under a chain of prefixes, without a time.\<close>

definition log_line :: "(string \<Rightarrow> 'a list \<Rightarrow> string) \<Rightarrow> string list \<Rightarrow> string \<Rightarrow> 'a list \<Rightarrow> string list" where
  "log_line sprintf ps fmt args =
     (let pre = concat (map (\<lambda>p. if p = [] then [] else ''['' @ p @ '']'') ps)
      in [sprintf ((if pre = [] then [] else pre @ '' '') @ fmt @ [CHR 0x0A]) args])"

lemma log_logMessage_chain:
  "log_logMessage sprintf now_text fmt args (fold log_WithPrefix ps (DefaultLogger env)) =
   log_line sprintf ps fmt args"
  by (simp add: log_WithPrefix_chain log_logMessage_def log_line_def DefaultLogger_def log_SetLogLevel_def Let_def
      del: concat_eq_Nil_conv)

lemma log_level_chain:
  "lg_logLevel (fold log_WithPrefix ps (DefaultLogger env)) =
     (if strings_ToLower env = ''debug'' then LogLevelDebug
      else if strings_ToLower env = ''error'' then LogLevelError else LogLevelInfo)"
  by (simp add: log_WithPrefix_chain DefaultLogger_def readLoggingEnv_def log_SetLogLevel_def DefaultLogLevel_def Let_def)

text \<open>
  A logger derived from the default one by any chain of prefixes prints errors always, information unless the
  environment asks for errors only, and debugging only when it asks for it, with the brackets of the prefixes that
  are not empty in the order in which they were added.
\<close>

lemma log_level_and_prefix:
  "log_Errorf sprintf now_text fmt args (fold log_WithPrefix ps (DefaultLogger env)) = log_line sprintf ps fmt args"
  "log_Infof sprintf now_text fmt args (fold log_WithPrefix ps (DefaultLogger env)) =
     (if strings_ToLower env = ''error'' then [] else log_line sprintf ps fmt args)"
  "log_Debugf sprintf now_text fmt args (fold log_WithPrefix ps (DefaultLogger env)) =
     (if strings_ToLower env = ''debug'' then log_line sprintf ps fmt args else [])"
  by (simp_all add: log_Errorf_def log_Infof_def log_Debugf_def log_logMessage_chain log_level_chain
      less_eq_LogLevel_def)

end
