(* ===== verification/QperfMain.thy ===== *)
theory QperfMain
  imports Client Server ByteCountParser AddrUtils
begin

text \<open>
  \<open>src/main.go\<close>: the flags of the two commands and the actions that turn a command line into a run of the client or
  of the server.  The command-line library is not part of the repository: a parsed command line is the record of the
  answers to \<open>String\<close>, \<open>Bool\<close>, \<open>Uint\<close>, \<open>Float64\<close> and \<open>Int\<close>; \<open>ctx_defaults\<close> are its documented answers when no flag is given
  (the declared values, and the zero value for a flag that is not declared).
\<close>

datatype cli_flag =
    StringFlag string string
  | BoolFlag string bool
  | UintFlag string int
  | Float64Flag string f64

record cli_context =
  ctx_String :: "string \<Rightarrow> string"
  ctx_Bool :: "string \<Rightarrow> bool"
  ctx_Uint :: "string \<Rightarrow> int"
  ctx_Float64 :: "string \<Rightarrow> f64"
  ctx_Int :: "string \<Rightarrow> int"

definition DefaultQperfServerPort :: int where "DefaultQperfServerPort = 18080"

definition client_flags :: "cli_flag list" where
  "client_flags =
     [StringFlag ''addr'' '''', BoolFlag ''ttfb'' False, BoolFlag ''print-raw'' False, BoolFlag ''qlog'' False,
      UintFlag ''migrate'' 0, StringFlag ''proxy'' '''', UintFlag ''t'' 10, Float64Flag ''report-interval'' 1,
      StringFlag ''tls-cert'' ''server.crt'', StringFlag ''tls-proxy-cert'' ''proxy.crt'',
      UintFlag ''initial-congestion-window'' 100, StringFlag ''initial-receive-window'' ''512KiB'',
      StringFlag ''max-receive-window'' ''6MiB'', BoolFlag ''0rtt'' False, BoolFlag ''proxy-0rtt'' False,
      BoolFlag ''early-handover'' False, BoolFlag ''xse'' False, StringFlag ''qlog-prefix'' ''client'',
      StringFlag ''log-prefix'' '''', BoolFlag ''http3'' False, BoolFlag ''quiet'' False]"

definition server_flags :: "cli_flag list" where
  "server_flags =
     [StringFlag ''addr'' ''0.0.0.0'', UintFlag ''port'' DefaultQperfServerPort, BoolFlag ''qlog'' False,
      UintFlag ''migrate'' 0, StringFlag ''tls-cert'' ''server.crt'', StringFlag ''tls-key'' ''server.key'',
      StringFlag ''initial-receive-window'' ''512KiB'', StringFlag ''max-receive-window'' ''6MiB'',
      BoolFlag ''no-xse'' False, StringFlag ''qlog-prefix'' ''server'', StringFlag ''log-prefix'' '''',
      BoolFlag ''http3'' False, StringFlag ''www'' '''', StringFlag ''redis'' ''localhost:6379'',
      StringFlag ''cc'' CC_CUBIC]"

fun flag_string :: "cli_flag list \<Rightarrow> string \<Rightarrow> string" where
  "flag_string (StringFlag n v # fs) x = (if n = x then v else flag_string fs x)"
| "flag_string (_ # fs) x = flag_string fs x"
| "flag_string [] x = ''''"

fun flag_bool :: "cli_flag list \<Rightarrow> string \<Rightarrow> bool" where
  "flag_bool (BoolFlag n v # fs) x = (if n = x then v else flag_bool fs x)"
| "flag_bool (_ # fs) x = flag_bool fs x"
| "flag_bool [] x = False"

fun flag_uint :: "cli_flag list \<Rightarrow> string \<Rightarrow> int" where
  "flag_uint (UintFlag n v # fs) x = (if n = x then v else flag_uint fs x)"
| "flag_uint (_ # fs) x = flag_uint fs x"
| "flag_uint [] x = 0"

fun flag_float :: "cli_flag list \<Rightarrow> string \<Rightarrow> f64" where
  "flag_float (Float64Flag n v # fs) x = (if n = x then v else flag_float fs x)"
| "flag_float (_ # fs) x = flag_float fs x"
| "flag_float [] x = 0"

definition ctx_defaults :: "cli_flag list \<Rightarrow> cli_context" where
  "ctx_defaults fs =
     \<lparr>ctx_String = flag_string fs, ctx_Bool = flag_bool fs, ctx_Uint = flag_uint fs, ctx_Float64 = flag_float fs,
      ctx_Int = flag_uint fs\<rparr>"

text \<open>What an action does: it returns an error, panics, or runs the client or the server.\<close>

datatype ('ip, 'r) action_outcome = ActionError byte_count_error | ActionPanics | ActionRuns 'ip 'r

definition client_action ::
    "(string \<Rightarrow> 'e + 'ip) \<Rightarrow> cli_context \<Rightarrow> ('ip udp_addr, client_args) action_outcome" where
  "client_action resolve c =
     (let serverAddr = ParseResolveHost resolve (ctx_String c ''addr'') DefaultQperfServerPort
      in if \<not> ctx_Bool c ''http3'' \<and> isl serverAddr then ActionPanics
         else case ParseByteCountWithUnit (ctx_String c ''initial-receive-window'') of
           Inl e \<Rightarrow> ActionError e
         | Inr initialReceiveWindow \<Rightarrow>
             (case ParseByteCountWithUnit (ctx_String c ''max-receive-window'') of
                Inl e \<Rightarrow> ActionError e
              | Inr maxReceiveWindow \<Rightarrow>
                  (case serverAddr of
                     Inl _ \<Rightarrow> ActionPanics
                   | Inr addr \<Rightarrow> ActionRuns addr
                       \<lparr>arg_timeToFirstByteOnly = ctx_Bool c ''ttfb'', arg_printRaw = ctx_Bool c ''print-raw'',
                        arg_probeTime = i64 (i64 (ctx_Uint c ''t'') * time_Second),
                        arg_reportInterval = f64_to_i64 (f64_mul (ctx_Float64 c ''report-interval'') (f64_of_int time_Second)),
                        arg_initialReceiveWindow = initialReceiveWindow, arg_maxReceiveWindow = maxReceiveWindow,
                        arg_use0RTT = ctx_Bool c ''0rtt'', arg_http3enabled = ctx_Bool c ''http3''\<rparr>)))"

text \<open>
  The server's arguments but the files: \<open>certificate_ok\<close>, \<open>listen_ok\<close> and \<open>http3_fails\<close> are what the system answers
  when the server uses them; \<open>parseIP\<close> is \<open>net.ParseIP\<close>.
\<close>

definition server_action ::
    "(string \<Rightarrow> 'ip) \<Rightarrow> bool \<Rightarrow> bool \<Rightarrow> bool \<Rightarrow> cli_context \<Rightarrow> ('ip udp_addr, server_args) action_outcome" where
  "server_action parseIP certificate_ok listen_ok http3_fails c =
     (case ParseByteCountWithUnit (ctx_String c ''initial-receive-window'') of
        Inl e \<Rightarrow> ActionError e
      | Inr initialReceiveWindow \<Rightarrow>
          (case ParseByteCountWithUnit (ctx_String c ''max-receive-window'') of
             Inl e \<Rightarrow> ActionError e
           | Inr maxReceiveWindow \<Rightarrow>
               ActionRuns \<lparr>UDP_IP = parseIP (ctx_String c ''addr''), UDP_Port = ctx_Int c ''port''\<rparr>
                 \<lparr>sa_certificate_ok = certificate_ok,
                  sa_initialCongestionWindow = u32 (ctx_Uint c ''initial-congestion-window''),
                  sa_minCongestionWindow = u32 (ctx_Uint c ''min-congestion-window''),
                  sa_initialReceiveWindow = initialReceiveWindow, sa_maxReceiveWindow = maxReceiveWindow,
                  sa_http3enabled = ctx_Bool c ''http3'', sa_http3_fails = http3_fails, sa_listen_ok = listen_ok,
                  sa_redisAddr = ctx_String c ''redis'', sa_cc = ctx_String c ''cc''\<rparr>))"

subsection \<open>The process\<close>

text \<open>
  \<open>main\<close> hands the command line to the library, which parses it and returns the error of the action of the chosen
  command; \<open>main\<close> panics on an error.  A command is its parsed flags, with the answers of the outside world to its
  run.  In HTTP/3 mode the client goes on in \<open>serverHttp3\<close>, the step relation of \<open>Http3Client\<close>.
\<close>

datatype command =
    ProxyCommand
  | ClientCommand cli_context client_world
  | ServerCommand cli_context "accept_result list"

datatype process_end = ProcessPanics | ProcessWaits | ProcessExits | ProcessFetches Client

definition main_proxy :: "string option" where
  "main_proxy = Some ''proxy mode is no longer part of qperf-go: moved to https://github.com/birneee/hquic-proxy-go''"

definition main_client :: "(string \<Rightarrow> 'e + 'ip) \<Rightarrow> cli_context \<Rightarrow> client_world \<Rightarrow> process_end" where
  "main_client resolve c w =
     (case client_action resolve c of
        ActionError _ \<Rightarrow> ProcessPanics
      | ActionPanics \<Rightarrow> ProcessPanics
      | ActionRuns _ a \<Rightarrow>
          (case client_Run a w of
             ClientPanic _ \<Rightarrow> ProcessPanics
           | ClientWaits \<Rightarrow> ProcessWaits
           | ClientInterrupted \<Rightarrow> ProcessExits
           | ClientHttp3 cl \<Rightarrow> ProcessFetches cl
           | ClientDone _ \<Rightarrow> ProcessExits))"

text \<open>
  What the server meets: the constants of quic-go, the debug variable, the certificate and the socket.  Redis answers
  connection by connection, in the answers of \<open>Accept\<close>.
\<close>

record server_world =
  sw_consts :: congestion_consts
  sw_debug :: bool
  sw_certificate_ok :: bool
  sw_listen_ok :: bool
  sw_http3_fails :: bool

definition main_server :: "(string \<Rightarrow> 'ip) \<Rightarrow> server_world \<Rightarrow> cli_context \<Rightarrow> accept_result list \<Rightarrow> process_end" where
  "main_server parseIP W c accepts =
     (case server_action parseIP (sw_certificate_ok W) (sw_listen_ok W) (sw_http3_fails W) c of
        ActionError _ \<Rightarrow> ProcessPanics
      | ActionPanics \<Rightarrow> ProcessPanics
      | ActionRuns _ a \<Rightarrow>
          (case fst (server_Run (sw_consts W) (sw_debug W) a accepts) of
             Blocked \<Rightarrow> ProcessWaits
           | Panicked \<Rightarrow> ProcessPanics
           | Returned _ \<Rightarrow> ProcessExits))"

definition main_run ::
    "(string \<Rightarrow> 'e + 'ip) \<Rightarrow> (string \<Rightarrow> 'jp) \<Rightarrow> server_world \<Rightarrow> command \<Rightarrow> process_end" where
  "main_run resolve parseIP W cmd =
     (case cmd of
        ProxyCommand \<Rightarrow> (case main_proxy of Some err \<Rightarrow> ProcessPanics | None \<Rightarrow> ProcessExits)
      | ClientCommand c w \<Rightarrow> main_client resolve c w
      | ServerCommand c accepts \<Rightarrow> main_server parseIP W c accepts)"

subsection \<open>The defaults\<close>

lemma default_windows:
  "ParseByteCountWithUnit ''512KiB'' = Inr 524288" "ParseByteCountWithUnit ''6MiB'' = Inr 6291456"
  by (simp_all add: ParseByteCountWithUnit_def byte_count_match_def strconv_ParseUint_def decimal_val_def digit_val_def
      is_digit_def is_word_def is_space_def is_upper_def is_lower_def unit_factor_def strings_ToLower_def
      lower_char_def strings_TrimSpace_def ascii_space_def char_eval)

text \<open>
  Without further flags the client measures for ten seconds with a report every second and the windows 512 KiB and
  6 MiB, towards port 18080, and the server leaves its connections to the controller of quic-go.
\<close>

lemma default_client:
  assumes "set host \<inter> {CHR '':'', CHR ''['', CHR '']''} = {}" "resolve host = Inr ip"
  shows "client_action resolve ((ctx_defaults client_flags)\<lparr>ctx_String := (flag_string client_flags)(''addr'' := host)\<rparr>) =
    ActionRuns \<lparr>UDP_IP = ip, UDP_Port = 18080\<rparr>
      \<lparr>arg_timeToFirstByteOnly = False, arg_printRaw = False, arg_probeTime = 10 * time_Second,
       arg_reportInterval = time_Second, arg_initialReceiveWindow = 512 * 1024, arg_maxReceiveWindow = 6 * 1024 * 1024,
       arg_use0RTT = False, arg_http3enabled = False\<rparr>"
proof -
  have "ParseResolveHost resolve host 18080 = Inr \<lparr>UDP_IP = ip, UDP_Port = 18080\<rparr>"
    using assms has_port_no_colon [of host] by (auto simp: ParseResolveHost_def)
  moreover have "f64_of_int 1000000000 = 1000000000"
    using f64_of_int_exact [of 1000000000] by simp
  moreover have "f64_to_i64 (f64_mul 1 1000000000) = 1000000000"
    using f64_of_int_exact [of 1000000000] f64_to_i64_of_int [of 1000000000] by (simp add: f64_mul_def f64_of_int_def)
  ultimately show ?thesis
    by (simp add: client_action_def ctx_defaults_def client_flags_def DefaultQperfServerPort_def default_windows
        time_Second_def)
qed

lemma default_server:
  "server_action parseIP cert_ok listen_ok http3_fails (ctx_defaults server_flags) =
   ActionRuns \<lparr>UDP_IP = parseIP ''0.0.0.0'', UDP_Port = 18080\<rparr>
     \<lparr>sa_certificate_ok = cert_ok, sa_initialCongestionWindow = 0, sa_minCongestionWindow = 0,
      sa_initialReceiveWindow = 512 * 1024, sa_maxReceiveWindow = 6 * 1024 * 1024, sa_http3enabled = False,
      sa_http3_fails = http3_fails, sa_listen_ok = listen_ok, sa_redisAddr = ''localhost:6379'', sa_cc = CC_CUBIC\<rparr>"
  by (simp add: server_action_def ctx_defaults_def server_flags_def DefaultQperfServerPort_def default_windows
      u32_def)

text \<open>
  The client command panics exactly for an address that does not parse or resolve; in HTTP/3 mode, which does
  not need the address, it panics all the same, after it has read the two windows, by reading the address through a
  nil pointer.
\<close>

lemma client_action_panics:
  "client_action resolve c = ActionPanics \<longleftrightarrow>
     isl (ParseResolveHost resolve (ctx_String c ''addr'') DefaultQperfServerPort) \<and>
     (if ctx_Bool c ''http3''
      then \<not> isl (ParseByteCountWithUnit (ctx_String c ''initial-receive-window'')) \<and>
           \<not> isl (ParseByteCountWithUnit (ctx_String c ''max-receive-window''))
      else True)"
  by (auto simp: client_action_def Let_def split: sum.splits)

text \<open>
  C9: the client command with no flag but the address: for a host that resolves, it runs against port 18080 of the
  resolved address with the windows 512 KiB and 6 MiB; and in a world in which the connection is made, the first bytes
  arrive, no read fails, the user does not interrupt and every turn of the loop takes a second or more, that run ends after at most eleven reports, and the
  exported history plus what arrived after the last report is the total (modulo \<open>2 ^ 64\<close>), and the process exits.
\<close>

theorem default_client_measures:
  assumes "set host \<inter> {CHR '':'', CHR ''['', CHR '']''} = {}" "resolve host = Inr ip"
    and "w_dial_ok w" "w_open_ok w" "w_write_ok w" "w_close_ok w" "w_closed_ok w"
    and "w_first_reads w = zs @ (t, n, NoErr) # ys" "list_all (\<lambda>r. fst (snd r) = 0 \<and> snd (snd r) = NoErr) zs"
    and "0 < t" "0 < n" "n < 2 ^ 63"
    and "\<forall>i < length (w_turns w). t + int i * time_Second \<le> turn_check (w_turns w ! i)" "11 < length (w_turns w)"
    and "list_all turn_quiet (w_turns w)" "reads_ok (w_last_reads w)"
  shows "\<exists>a c. client_action resolve
      ((ctx_defaults client_flags)\<lparr>ctx_String := (flag_string client_flags)(''addr'' := host)\<rparr>) =
        ActionRuns \<lparr>UDP_IP = ip, UDP_Port = 18080\<rparr> a \<and>
    client_windows a = (512 * 1024, 6 * 1024 * 1024) \<and> client_Run a w = ClientDone c \<and>
    length (StatesHistory c) \<le> 11 \<and>
    u64 ((\<Sum>s\<leftarrow>StatesHistory c. Bytes s) +
      (totalReceivedBytes (cl_state c) - lastReportReceivedBytes (cl_state c))) = u64 (fst (state_Total (cl_state c))) \<and>
    main_run resolve parseIP W (ClientCommand
      ((ctx_defaults client_flags)\<lparr>ctx_String := (flag_string client_flags)(''addr'' := host)\<rparr>) w) = ProcessExits"
proof -
  define a where "a = \<lparr>arg_timeToFirstByteOnly = False, arg_printRaw = False, arg_probeTime = 10 * time_Second,
       arg_reportInterval = time_Second, arg_initialReceiveWindow = 512 * 1024, arg_maxReceiveWindow = 6 * 1024 * 1024,
       arg_use0RTT = False, arg_http3enabled = False\<rparr>"
  have act: "client_action resolve
      ((ctx_defaults client_flags)\<lparr>ctx_String := (flag_string client_flags)(''addr'' := host)\<rparr>) =
      ActionRuns \<lparr>UDP_IP = ip, UDP_Port = 18080\<rparr> a"
    unfolding a_def using assms(1,2) by (rule default_client)
  have pt: "arg_probeTime a div time_Second = 10" "0 \<le> arg_probeTime a" "arg_probeTime a < 2 ^ 62" "0 < time_Second"
    by (simp_all add: a_def time_Second_def)
  obtain c where c: "client_Run a w = ClientDone c" "int (length (StatesHistory c)) \<le> 10 + 1"
      "u64 ((\<Sum>s\<leftarrow>StatesHistory c. Bytes s) +
        (totalReceivedBytes (cl_state c) - lastReportReceivedBytes (cl_state c))) = u64 (fst (state_Total (cl_state c)))"
    using client_Run_ends_after [of a w zs t n ys time_Second] assms(3-16) pt by (auto simp: a_def)
  moreover have "client_windows a = (512 * 1024, 6 * 1024 * 1024)" by (simp add: a_def client_windows_def)
  moreover have "main_run resolve parseIP W (ClientCommand
      ((ctx_defaults client_flags)\<lparr>ctx_String := (flag_string client_flags)(''addr'' := host)\<rparr>) w) = ProcessExits"
    by (simp add: main_run_def main_client_def act c(1))
  ultimately show ?thesis using act by auto
qed

text \<open>Twelve turns of a second each, with a kilobyte in every turn.\<close>

definition sample_turns :: "loop_turn list" where
  "sample_turns = map (\<lambda>i. \<lparr>turn_before = [], turn_check = 3000 + int i * time_Second,
     turn_during = [(4000 + int i * time_Second, 1024, NoErr)], turn_interrupt = False,
     turn_times = (2000 + int (Suc i) * time_Second, 2100 + int (Suc i) * time_Second, 2200 + int (Suc i) * time_Second)\<rparr>)
     [0..<12]"

lemma default_client_measures_witness:
  "\<exists>a c. client_action (\<lambda>h. Inr h :: unit + string)
      ((ctx_defaults client_flags)\<lparr>ctx_String := (flag_string client_flags)(''addr'' := ''h'')\<rparr>) =
        ActionRuns \<lparr>UDP_IP = ''h'', UDP_Port = 18080\<rparr> a \<and>
    client_windows a = (512 * 1024, 6 * 1024 * 1024) \<and> client_Run a (sample_world\<lparr>w_turns := sample_turns\<rparr>) = ClientDone c \<and>
    length (StatesHistory c) \<le> 11 \<and>
    u64 ((\<Sum>s\<leftarrow>StatesHistory c. Bytes s) +
      (totalReceivedBytes (cl_state c) - lastReportReceivedBytes (cl_state c))) = u64 (fst (state_Total (cl_state c))) \<and>
    main_run (\<lambda>h. Inr h :: unit + string) (\<lambda>_. ())
      \<lparr>sw_consts = quic_go_consts, sw_debug = False, sw_certificate_ok = True,
       sw_listen_ok = True, sw_http3_fails = False\<rparr>
      (ClientCommand ((ctx_defaults client_flags)\<lparr>ctx_String := (flag_string client_flags)(''addr'' := ''h'')\<rparr>)
        (sample_world\<lparr>w_turns := sample_turns\<rparr>)) = ProcessExits"
  by (rule default_client_measures [where zs = "[(2500, 0, NoErr)]" and t = 3000 and n = 1 and ys = "[]"])
    (simp_all add: sample_world_def sample_turns_def turn_quiet_def reads_ok_def list_all_iff)

subsection \<open>What the commands come to\<close>

text \<open>The proxy command always ends in a panic, and the default server serves every connection it accepts.\<close>

lemma main_proxy_panics: "main_run resolve parseIP W ProxyCommand = ProcessPanics"
  by (simp add: main_run_def main_proxy_def)

lemma main_default_server:
  assumes "sw_certificate_ok W" "sw_listen_ok W" "AcceptError \<notin> set accepts"
  shows "main_run resolve parseIP W (ServerCommand (ctx_defaults server_flags) accepts) = ProcessWaits"
proof -
  have "CHR '':'' \<in> set ''localhost:6379''" by simp
  moreover have "list_all (connection_served conf CC_CUBIC) accepts" for conf
    using assms(3) by (auto simp: list_all_iff connection_served_def split: accept_result.splits)
  ultimately show ?thesis
    using assms(1,2) by (simp add: main_run_def main_server_def default_server server_Run_outcome)
qed

end
