(* ===== verification/Wrappers.thy ===== *)
theory Wrappers
  imports Server Http3Client
begin

text \<open>
  The thin layers around the libraries: the Redis manager of \<open>congestion/rl/mq.go\<close>, \<open>internal/utils\<close> (the stream
  that closes both of its sides, the atomic time), and of \<open>src/common\<close> the buffered closer, the tracers, the endless
  reader, the discarding writer and the certificate pool; and the file the HTTP/3 client writes.  The library behind a
  layer is a record of functions, or an argument.  The main result is about the address of the Redis server, which is
  split by the server and put together again by the manager.
\<close>

subsection \<open>The Redis manager\<close>

record redis_options =
  ro_Addr :: string
  ro_Password :: string
  ro_DB :: int

record RedisManager =
  rm_client :: redis_options

text \<open>\<open>ping\<close> answers with an error or not; it stands for the client that is made with the options.\<close>

definition NewRedisManager ::
    "(redis_options \<Rightarrow> 'e option) \<Rightarrow> string \<Rightarrow> string \<Rightarrow> string \<Rightarrow> 'e + RedisManager" where
  "NewRedisManager ping host port password =
     (let client = \<lparr>ro_Addr = host @ '':'' @ port, ro_Password = password, ro_DB = 0\<rparr>
      in case ping client of Some err \<Rightarrow> Inl err | None \<Rightarrow> Inr \<lparr>rm_client = client\<rparr>)"

definition redis_Publish ::
    "(redis_options \<Rightarrow> string \<Rightarrow> string \<Rightarrow> 'e option) \<Rightarrow> string \<Rightarrow> string \<Rightarrow> RedisManager \<Rightarrow> 'e option" where
  "redis_Publish publish channel message r =
     (case publish (rm_client r) channel message of Some err \<Rightarrow> Some err | None \<Rightarrow> None)"

definition redis_Subscribe :: "(redis_options \<Rightarrow> string list \<Rightarrow> 'p) \<Rightarrow> string list \<Rightarrow> RedisManager \<Rightarrow> 'p" where
  "redis_Subscribe subscribe channels r = subscribe (rm_client r) channels"

text \<open>\<open>NewRLSender\<close> connects without a password and panics on an error.\<close>

definition rl_connects :: "(redis_options \<Rightarrow> 'e option) \<Rightarrow> RedisConf \<Rightarrow> bool" where
  "rl_connects ping conf =
     (case NewRedisManager ping (redis_Host conf) (redis_Port conf) '''' of Inl _ \<Rightarrow> False | Inr _ \<Rightarrow> True)"

lemma rl_connects_iff:
  "rl_connects ping conf \<longleftrightarrow>
     ping \<lparr>ro_Addr = redis_Host conf @ '':'' @ redis_Port conf, ro_Password = '''', ro_DB = 0\<rparr> = None"
  by (simp add: rl_connects_def NewRedisManager_def Let_def split: option.split)

text \<open>The address that is dialled for the Redis option of the server.\<close>

definition redis_dialled :: "string \<Rightarrow> string option" where
  "redis_dialled addr =
     map_option (\<lambda>conf. redis_Host conf @ '':'' @ redis_Port conf) (server_redis_conf addr)"

fun strings_Join :: "char \<Rightarrow> string list \<Rightarrow> string" where
  "strings_Join sep [] = []"
| "strings_Join sep [p] = p"
| "strings_Join sep (p # q # ps) = p @ sep # strings_Join sep (q # ps)"

lemma strings_Join_Cons: "ps \<noteq> [] \<Longrightarrow> strings_Join sep (p # ps) = p @ sep # strings_Join sep ps"
  by (cases ps) simp_all

lemma strings_Join_Cons_char: "strings_Join sep ((c # p) # ps) = c # strings_Join sep (p # ps)"
  by (cases ps) simp_all

lemma strings_Join_Split: "strings_Join sep (strings_Split sep s) = s"
proof (induction s)
  case (Cons c s)
  then show ?case
    by (auto simp: strings_Join_Cons strings_Join_Cons_char split: list.splits)
qed simp

lemma redis_dialled_iff: "redis_dialled addr = Some addr \<longleftrightarrow> count_list addr (CHR '':'') = 1"
proof -
  let ?ps = "strings_Split (CHR '':'') addr"
  have join: "strings_Join (CHR '':'') ?ps = addr" by (rule strings_Join_Split)
  have len: "length ?ps = Suc (count_list addr (CHR '':''))" by (rule strings_Split_length)
  consider (one) p where "?ps = [p]" | (two) p q where "?ps = [p, q]" | (more) p q r rs where "?ps = p # q # r # rs"
    by (metis list.exhaust strings_Split_not_Nil)
  then show ?thesis
  proof cases
    case (more p q r rs)
    then have "addr = p @ '':'' @ q @ '':'' @ strings_Join (CHR '':'') (r # rs)" using join by simp
    then have "length (p @ '':'' @ q) < length addr" by simp
    then have "p @ '':'' @ q \<noteq> addr" by blast
    with more len show ?thesis by (simp add: redis_dialled_def server_redis_conf_def)
  qed (use join len in \<open>auto simp: redis_dialled_def server_redis_conf_def\<close>)
qed

text \<open>
  C19: a server for \<open>rl\<close> whose Redis answers at exactly the configured address accepts connections if and only if that
  address has exactly one colon: the parts after the second colon are dropped, so no IPv6 address of a Redis works.
\<close>

theorem server_redis_address:
  assumes "sa_certificate_ok a" "\<not> sa_http3enabled a" "sa_listen_ok a" "sa_cc a = CC_RL"
    and "\<forall>opts. ping opts = None \<longleftrightarrow> ro_Addr opts = sa_redisAddr a"
  shows "fst (server_Run K debug a [Accepted rnd (rl_connects ping)]) =
     (if count_list (sa_redisAddr a) (CHR '':'') = 1 then Blocked else Panicked)"
proof -
  have connects: "rl_connects ping conf \<longleftrightarrow> redis_Host conf @ '':'' @ redis_Port conf = sa_redisAddr a" for conf
    using assms(5) by (simp add: rl_connects_iff)
  show ?thesis
  proof (cases "server_redis_conf (sa_redisAddr a)")
    case None
    then have "redis_dialled (sa_redisAddr a) \<noteq> Some (sa_redisAddr a)" by (simp add: redis_dialled_def)
    with None assms show ?thesis by (simp add: server_Run_def redis_dialled_iff)
  next
    case (Some conf)
    then have "rl_connects ping conf \<longleftrightarrow> count_list (sa_redisAddr a) (CHR '':'') = 1"
      using redis_dialled_iff [of "sa_redisAddr a"] by (simp add: connects redis_dialled_def)
    with Some assms show ?thesis
      by (simp add: server_Run_def server_accept_loop_outcome connection_served_def cc_names del: server_accept_loop.simps)
  qed
qed

lemma server_redis_address_witness:
  "fst (server_Run quic_go_consts False
     \<lparr>sa_certificate_ok = True, sa_initialCongestionWindow = 0, sa_minCongestionWindow = 0,
      sa_initialReceiveWindow = 524288, sa_maxReceiveWindow = 6291456, sa_http3enabled = False,
      sa_http3_fails = False, sa_listen_ok = True, sa_redisAddr = ''[::1]:6379'', sa_cc = ''rl''\<rparr>
     [Accepted 5 (rl_connects (\<lambda>opts. if ro_Addr opts = ''[::1]:6379'' then None else Some ()))]) = Panicked"
  by (subst server_redis_address) (simp_all add: cc_names)

subsection \<open>The stream wrapper\<close>

text \<open>What a stream of quic-go offers, on a state \<open>'s\<close>; an error is an \<open>option\<close>, nil is \<open>None\<close>.\<close>

record ('s, 'c, 'e) quic_stream =
  st_StreamID :: "'s \<Rightarrow> int"
  st_Read :: "nat \<Rightarrow> 's \<Rightarrow> (string \<times> 'e option) \<times> 's"
  st_CancelRead :: "int \<Rightarrow> 's \<Rightarrow> 's"
  st_SetReadDeadline :: "time \<Rightarrow> 's \<Rightarrow> 'e option \<times> 's"
  st_Write :: "string \<Rightarrow> 's \<Rightarrow> (int \<times> 'e option) \<times> 's"
  st_Close :: "'s \<Rightarrow> 'e option \<times> 's"
  st_CancelWrite :: "int \<Rightarrow> 's \<Rightarrow> 's"
  st_Context :: "'s \<Rightarrow> 'c"
  st_SetWriteDeadline :: "time \<Rightarrow> 's \<Rightarrow> 'e option \<times> 's"
  st_SetDeadline :: "time \<Rightarrow> 's \<Rightarrow> 'e option \<times> 's"

definition QStream_StreamID :: "('s, 'c, 'e) quic_stream \<Rightarrow> 's \<Rightarrow> int" where
  "QStream_StreamID L s = st_StreamID L s"

definition QStream_Read :: "('s, 'c, 'e) quic_stream \<Rightarrow> nat \<Rightarrow> 's \<Rightarrow> (string \<times> 'e option) \<times> 's" where
  "QStream_Read L n s = st_Read L n s"

definition QStream_CancelRead :: "('s, 'c, 'e) quic_stream \<Rightarrow> int \<Rightarrow> 's \<Rightarrow> 's" where
  "QStream_CancelRead L code s = st_CancelRead L code s"

definition QStream_SetReadDeadline :: "('s, 'c, 'e) quic_stream \<Rightarrow> time \<Rightarrow> 's \<Rightarrow> 'e option \<times> 's" where
  "QStream_SetReadDeadline L t s = st_SetReadDeadline L t s"

definition QStream_Write :: "('s, 'c, 'e) quic_stream \<Rightarrow> string \<Rightarrow> 's \<Rightarrow> (int \<times> 'e option) \<times> 's" where
  "QStream_Write L p s = st_Write L p s"

definition QStream_Close :: "('s, 'c, 'e) quic_stream \<Rightarrow> 's \<Rightarrow> 'e option \<times> 's" where
  "QStream_Close L s = st_Close L (st_CancelRead L 0 s)"

definition QStream_CancelWrite :: "('s, 'c, 'e) quic_stream \<Rightarrow> int \<Rightarrow> 's \<Rightarrow> 's" where
  "QStream_CancelWrite L code s = st_CancelWrite L code s"

definition QStream_Context :: "('s, 'c, 'e) quic_stream \<Rightarrow> 's \<Rightarrow> 'c" where
  "QStream_Context L s = st_Context L s"

definition QStream_SetWriteDeadline :: "('s, 'c, 'e) quic_stream \<Rightarrow> time \<Rightarrow> 's \<Rightarrow> 'e option \<times> 's" where
  "QStream_SetWriteDeadline L t s = st_SetWriteDeadline L t s"

definition QStream_SetDeadline :: "('s, 'c, 'e) quic_stream \<Rightarrow> time \<Rightarrow> 's \<Rightarrow> 'e option \<times> 's" where
  "QStream_SetDeadline L t s = st_SetDeadline L t s"

text \<open>
  Closing ends both directions of a stream on which cancelling ends the reading side, closing the writing side when it
  succeeds, and neither opens the other one again.
\<close>

lemma QStream_Close_both_sides:
  assumes "\<And>c s. reading_done (st_CancelRead L c s)"
    and "\<And>s. reading_done s \<Longrightarrow> reading_done (snd (st_Close L s))"
    and "\<And>s. fst (st_Close L s) = None \<Longrightarrow> writing_done (snd (st_Close L s))"
    and "QStream_Close L s = (None, t)"
  shows "reading_done t \<and> writing_done t"
  using assms(4) assms(1) [of 0 s] assms(2,3) [of "st_CancelRead L 0 s"]
  by (simp add: QStream_Close_def)

subsection \<open>The atomic time\<close>

text \<open>The cell of an \<open>atomic.Value\<close>; asserting the type of an empty one panics.\<close>

record AtomicTime =
  at_v :: "time option"

definition AtomicTime_Set :: "time \<Rightarrow> AtomicTime \<Rightarrow> AtomicTime" where
  "AtomicTime_Set new t = t\<lparr>at_v := Some new\<rparr>"

definition NewAtomicTime :: "time \<Rightarrow> AtomicTime" where
  "NewAtomicTime t = AtomicTime_Set t \<lparr>at_v = None\<rparr>"

definition AtomicTime_Get :: "AtomicTime \<Rightarrow> time option" where
  "AtomicTime_Get t = at_v t"

lemma AtomicTime_Get_last:
  "AtomicTime_Get (fold AtomicTime_Set ts (NewAtomicTime t)) = Some (last (t # ts))"
  by (induction ts arbitrary: t) (auto simp: AtomicTime_Get_def NewAtomicTime_def AtomicTime_Set_def)

subsection \<open>The buffered closer\<close>

record ('w, 'c) bufferedWriteCloser =
  bw_Writer :: 'w
  bw_Closer :: 'c

definition NewBufferedWriteCloser :: "'w \<Rightarrow> 'c \<Rightarrow> ('w, 'c) bufferedWriteCloser" where
  "NewBufferedWriteCloser writer closer = \<lparr>bw_Writer = writer, bw_Closer = closer\<rparr>"

text \<open>A failing flush leaves the underlying closer open.\<close>

definition bufferedWriteCloser_Close ::
    "('w \<Rightarrow> 'e option \<times> 'w) \<Rightarrow> ('c \<Rightarrow> 'e option \<times> 'c) \<Rightarrow>
     ('w, 'c) bufferedWriteCloser \<Rightarrow> 'e option \<times> ('w, 'c) bufferedWriteCloser" where
  "bufferedWriteCloser_Close flush close h =
     (let (err, w) = flush (bw_Writer h); h = h\<lparr>bw_Writer := w\<rparr>
      in case err of
           Some e \<Rightarrow> (Some e, h)
         | None \<Rightarrow> (let (err, c) = close (bw_Closer h) in (err, h\<lparr>bw_Closer := c\<rparr>)))"

lemma bufferedWriteCloser_Close_ok:
  assumes "bufferedWriteCloser_Close flush close h = (err, h')"
  shows "bw_Writer h' = snd (flush (bw_Writer h))"
    and "bw_Closer h' = (if fst (flush (bw_Writer h)) = None then snd (close (bw_Closer h)) else bw_Closer h)"
    and "err = None \<longleftrightarrow> fst (flush (bw_Writer h)) = None \<and> fst (close (bw_Closer h)) = None"
  using assms by (auto simp: bufferedWriteCloser_Close_def Let_def split: prod.splits option.splits)

subsection \<open>Tracers\<close>

text \<open>A handler acts on the world outside, of type \<open>'s\<close>; a nil handler is \<open>None\<close>.\<close>

record ('o, 'a, 'e, 's) Handlers =
  hd_StartedConnection :: "('o \<Rightarrow> 'a \<Rightarrow> 'a \<Rightarrow> 'o \<Rightarrow> 'o \<Rightarrow> 's \<Rightarrow> 's) option"
  hd_UpdatePath :: "('o \<Rightarrow> 'a \<Rightarrow> 's \<Rightarrow> 's) option"
  hd_ClosedConnection :: "('o \<Rightarrow> 'e \<Rightarrow> 's \<Rightarrow> 's) option"

record ('o, 'a, 'e, 's) connectionEventTracer =
  ct_odcid :: 'o
  ct_handers :: "('o, 'a, 'e, 's) Handlers"

definition ct_StartedConnection ::
    "'a \<Rightarrow> 'a \<Rightarrow> 'o \<Rightarrow> 'o \<Rightarrow> ('o, 'a, 'e, 's) connectionEventTracer \<Rightarrow> 's \<Rightarrow> 's" where
  "ct_StartedConnection local remote srcConnID destConnID c s =
     (case hd_StartedConnection (ct_handers c) of
        Some h \<Rightarrow> h (ct_odcid c) local remote srcConnID destConnID s
      | None \<Rightarrow> s)"

definition ct_UpdatedPath :: "'a \<Rightarrow> ('o, 'a, 'e, 's) connectionEventTracer \<Rightarrow> 's \<Rightarrow> 's" where
  "ct_UpdatedPath newRemote c s =
     (case hd_UpdatePath (ct_handers c) of Some h \<Rightarrow> h (ct_odcid c) newRemote s | None \<Rightarrow> s)"

definition ct_ClosedConnection :: "'e \<Rightarrow> ('o, 'a, 'e, 's) connectionEventTracer \<Rightarrow> 's \<Rightarrow> 's" where
  "ct_ClosedConnection err c s =
     (case hd_ClosedConnection (ct_handers c) of Some h \<Rightarrow> h (ct_odcid c) err s | None \<Rightarrow> s)"

text \<open>The migration tracer calls its handler without a test: a nil one panics.\<close>

definition migration_UpdatedPath :: "'a \<Rightarrow> ('a \<Rightarrow> 's \<Rightarrow> 's) option \<Rightarrow> 's \<Rightarrow> 's option" where
  "migration_UpdatedPath newRemote onMigration s =
     (case onMigration of Some h \<Rightarrow> Some (h newRemote s) | None \<Rightarrow> None)"

text \<open>On the handlers they share, the two tracers agree exactly when there is a handler.\<close>

lemma tracers_agree:
  "migration_UpdatedPath newRemote (map_option (\<lambda>h. h (ct_odcid c)) (hd_UpdatePath (ct_handers c))) s =
     Some (ct_UpdatedPath newRemote c s) \<longleftrightarrow> hd_UpdatePath (ct_handers c) \<noteq> None"
  by (simp add: migration_UpdatedPath_def ct_UpdatedPath_def split: option.split)

subsection \<open>Reader, writer, certificates and the result file\<close>

text \<open>The endless reader claims to have filled the buffer and leaves it as it was.\<close>

definition InfiniteReader_Read :: "string \<Rightarrow> (int \<times> 'e option) \<times> string" where
  "InfiniteReader_Read b = ((int (length b), None), b)"

definition DiscardWriter_Write :: "string \<Rightarrow> int \<times> 'e option" where
  "DiscardWriter_Write p = (int (length p), None)"

text \<open>\<open>readfile\<close> is the file system and \<open>add_certs\<close> is \<open>AppendCertsFromPEM\<close>, \<open>None\<close> when it takes no certificate from the text; \<open>pool\<close> is a new pool.\<close>

definition NewCertPoolWithCert ::
    "(string \<Rightarrow> 'e + string) \<Rightarrow> (string \<Rightarrow> 'p \<Rightarrow> 'p option) \<Rightarrow> 'p \<Rightarrow> string \<Rightarrow> 'p option" where
  "NewCertPoolWithCert readfile add_certs pool tlsCertFile =
     (case readfile tlsCertFile of Inl _ \<Rightarrow> None | Inr caCertRaw \<Rightarrow> add_certs caCertRaw pool)"

definition defaultHttp3ResultName :: string where
  "defaultHttp3ResultName = ''result/qperf_http3_result.json''"

text \<open>\<open>marshal\<close>, \<open>create\<close> and \<open>write\<close> (which gets the file as it was created) may fail; each failure panics.\<close>

definition reportHttp3States ::
    "(Http3States list \<Rightarrow> string option) \<Rightarrow> (string \<Rightarrow> 'f option) \<Rightarrow> (string \<Rightarrow> 'f \<Rightarrow> 'f option) \<Rightarrow>
     Http3States list \<Rightarrow> 'f option" where
  "reportHttp3States marshal create write states =
     do { b \<leftarrow> marshal states; f \<leftarrow> create defaultHttp3ResultName; write b f }"

end
