(* ===== verification/BrutalRuns.thy ===== *)
theory BrutalRuns
  imports Brutal
begin

text \<open>
  Whole runs of the fixed-rate sender: any sequence of sent packets, congestion events and changes of the datagram
  size.  A run keeps every field within its machine type and the ack rate between 0.8 and 1, never panics, and leaves
  a sender that does not stall.  \<open>brutal_wf N\<close> is the invariant, where \<open>N\<close> bounds the packets counted so far.
\<close>

datatype brutal_op =
    BrSent time byteCount packetNumber byteCount bool
  | BrEvent RTTStats byteCount time "AckedPacketInfo list" "LostPacketInfo list"
  | BrMaxSize byteCount

fun brutal_exec :: "congestion_consts \<Rightarrow> brutal_op list \<Rightarrow> BrutalSender \<Rightarrow> BrutalSender option" where
  "brutal_exec K [] b = Some b"
| "brutal_exec K (BrSent t infl n bytes rt # ops) b = brutal_exec K ops (brutal_OnPacketSent K t infl n bytes rt b)"
| "brutal_exec K (BrEvent rtt infl t acked lost # ops) b =
     Option.bind (brutal_OnCongestionEventEx rtt infl t acked lost b) (brutal_exec K ops)"
| "brutal_exec K (BrMaxSize sz # ops) b = brutal_exec K ops (brutal_SetMaxDatagramSize sz b)"

text \<open>The clock has passed 1970, sizes are those of datagrams.\<close>

fun brutal_op_ok :: "brutal_op \<Rightarrow> bool" where
  "brutal_op_ok (BrSent t infl n bytes rt) \<longleftrightarrow> 0 \<le> t \<and> 0 \<le> bytes"
| "brutal_op_ok (BrEvent rtt infl t acked lost) \<longleftrightarrow> 0 \<le> time_Unix t \<and> time_Unix t < 2 ^ 62"
| "brutal_op_ok (BrMaxSize sz) \<longleftrightarrow> 0 < sz \<and> sz < 2 ^ 16"

fun op_reported :: "brutal_op \<Rightarrow> int" where
  "op_reported (BrEvent rtt infl t acked lost) = int (length acked) + int (length lost)"
| "op_reported _ = 0"

lemma op_reported_nonneg: "0 \<le> op_reported x"
  by (cases x) simp_all

lemma ops_reported_nonneg: "0 \<le> (\<Sum>x\<leftarrow>ops. op_reported x)"
  by (induction ops) (simp_all add: op_reported_nonneg)

subsection \<open>The invariant\<close>

definition slot_ok :: "int \<Rightarrow> pktInfo \<Rightarrow> bool" where
  "slot_ok N s \<longleftrightarrow> 0 \<le> Timestamp s \<and> Timestamp s < 2 ^ 62 \<and>
     0 \<le> AckCount s \<and> AckCount s \<le> N \<and> 0 \<le> LossCount s \<and> LossCount s \<le> N"

definition brutal_wf :: "int \<Rightarrow> BrutalSender \<Rightarrow> bool" where
  "brutal_wf N b \<longleftrightarrow>
     br_rttStats b \<and> length (pktInfoSlots b) = 5 \<and> list_all (slot_ok N) (pktInfoSlots b) \<and>
     minAckRate \<le> ackRate b \<and> ackRate b \<le> 1 \<and> in_i64 (bps b) \<and> in_i64 (lastAckPrintTimestamp b) \<and>
     0 < br_maxDatagramSize b \<and> br_maxDatagramSize b < 2 ^ 16 \<and>
     p_maxDatagramSize (br_pacer b) = br_maxDatagramSize b \<and>
     0 \<le> budgetAtLastSent (br_pacer b) \<and> budgetAtLastSent (br_pacer b) < 2 ^ 61 \<and> 0 \<le> p_lastSentTime (br_pacer b)"

lemma slot_ok_mono: "slot_ok N s \<Longrightarrow> N \<le> M \<Longrightarrow> slot_ok M s"
  by (simp add: slot_ok_def)

lemma brutal_countEvent_ok:
  assumes "slot_ok N s" "0 \<le> now" "now < 2 ^ 62" "0 \<le> N" "N + int a + int l < 2 ^ 60"
  shows "slot_ok (N + int a + int l) (brutal_countEvent now a l s)"
proof -
  have "u64 (AckCount s + int a) = AckCount s + int a" "u64 (LossCount s + int l) = LossCount s + int l"
    using assms by (simp_all add: slot_ok_def)
  with assms show ?thesis by (simp add: slot_ok_def brutal_countEvent_def)
qed

text \<open>The counters of at most five slots do not overflow when they are added.\<close>

lemma brutal_counts_fold:
  fixes N m a l :: int
  defines "f \<equiv> \<lambda>(a, l) s. if Timestamp s < m then (a, l) else (u64 (a + AckCount s), u64 (l + LossCount s))"
  assumes "list_all (slot_ok N) slots" "0 \<le> a" "0 \<le> l" "0 \<le> N"
    and "a + int (length slots) * N < 2 ^ 63" "l + int (length slots) * N < 2 ^ 63"
  shows "case foldl f (a, l) slots of (a', l') \<Rightarrow>
    0 \<le> a' \<and> a' \<le> a + int (length slots) * N \<and> 0 \<le> l' \<and> l' \<le> l + int (length slots) * N"
  using assms(2-)
proof (induction slots arbitrary: a l)
  case (Cons s slots)
  define k where "k = int (length slots) * N"
  have k: "0 \<le> k" "int (length (s # slots)) * N = N + k"
    using Cons.prems(4) by (simp_all add: k_def algebra_simps)
  have ok: "slot_ok N s" "list_all (slot_ok N) slots" using Cons.prems(1) by simp_all
  then have s: "0 \<le> AckCount s" "AckCount s \<le> N" "0 \<le> LossCount s" "LossCount s \<le> N"
    by (simp_all add: slot_ok_def)
  have lt: "a + (N + k) < 2 ^ 63" "l + (N + k) < 2 ^ 63" using Cons.prems(5,6) unfolding k(2) .
  note ih = Cons.IH [OF ok(2) _ _ Cons.prems(4), folded k_def]
  show ?case
  proof (cases "Timestamp s < m")
    case True
    then have "foldl f (a, l) (s # slots) = foldl f (a, l) slots" by (simp add: f_def)
    with ih [of a l] Cons.prems(2-4) k lt show ?thesis unfolding k(2) by (auto split: prod.splits)
  next
    case False
    have "in_u64 (a + AckCount s)" using Cons.prems(2) s k(1) lt by simp
    moreover have "in_u64 (l + LossCount s)" using Cons.prems(3) s k(1) lt by simp
    ultimately have "u64 (a + AckCount s) = a + AckCount s" "u64 (l + LossCount s) = l + LossCount s" by simp_all
    then have "foldl f (a, l) (s # slots) = foldl f (a + AckCount s, l + LossCount s) slots"
      using False by (simp add: f_def)
    with ih [of "a + AckCount s" "l + LossCount s"] Cons.prems(2,3) s k lt show ?thesis
      unfolding k(2) by (auto split: prod.splits)
  qed
qed simp

lemma brutal_counts_bounds:
  assumes "list_all (slot_ok N) slots" "length slots = 5" "0 \<le> N" "N < 2 ^ 60" "brutal_counts now slots = (a, l)"
  shows "0 \<le> a" "0 \<le> l" "a + l < 2 ^ 64"
  using brutal_counts_fold [OF assms(1), of 0 0 "i64 (now - pktInfoSlotCount)"] assms(2-5)
  by (auto simp: brutal_counts_def Let_def)

lemma brutal_event_wf:
  assumes "brutal_wf N b" "0 \<le> N" "brutal_op_ok (BrEvent rtt infl t acked lost)"
    and "N + int (length acked) + int (length lost) < 2 ^ 60"
  shows "\<exists>b'. brutal_OnCongestionEventEx rtt infl t acked lost b = Some b' \<and>
    brutal_wf (N + int (length acked) + int (length lost)) b' \<and> bps b' = bps b"
proof -
  let ?now = "time_Unix t" and ?N = "N + int (length acked) + int (length lost)"
  let ?i = "nat (?now mod 5)"
  define slots where "slots = (pktInfoSlots b)[?i :=
    brutal_countEvent ?now (length acked) (length lost) (pktInfoSlots b ! ?i)]"
  have now: "0 \<le> ?now" "?now < 2 ^ 62" using assms(3) by simp_all
  have len: "length (pktInfoSlots b) = 5" and old: "list_all (slot_ok N) (pktInfoSlots b)"
    using assms(1) by (simp_all add: brutal_wf_def)
  have i: "?i < 5" "\<not> ?now mod 5 < 0" "\<not> 5 \<le> ?now mod 5" by (simp_all add: not_less not_le)
  have "slot_ok N (pktInfoSlots b ! ?i)" using old i(1) len by (simp add: list_all_length)
  then have "slot_ok ?N (brutal_countEvent ?now (length acked) (length lost) (pktInfoSlots b ! ?i))"
    using now assms(2,4) by (intro brutal_countEvent_ok) simp_all
  moreover have "list_all (slot_ok ?N) (pktInfoSlots b)"
    using old by (rule list.pred_mono_strong) (simp add: slot_ok_mono)
  ultimately have ok: "list_all (slot_ok ?N) slots" "length slots = 5"
    using len unfolding slots_def by (auto simp: list_all_length nth_list_update)
  obtain a l where al: "brutal_counts ?now slots = (a, l)" by fastforce
  have N: "0 \<le> ?N" using assms(2) by simp
  have rate: "minAckRate \<le> brutal_rate a l" "brutal_rate a l \<le> 1"
    using brutal_rate_bounds [OF brutal_counts_bounds [OF ok N assms(4) al]] by simp_all
  let ?b = "b\<lparr>pktInfoSlots := slots, ackRate := brutal_rate a l\<rparr>"
  have "brutal_OnCongestionEventEx rtt infl t acked lost b = brutal_print rtt ?now ?b"
    using len i al now
    by (simp add: brutal_OnCongestionEventEx_def pktInfoSlotCount_def smod_pos_eq brutal_updateAckRate_def Let_def
        flip: slots_def)
  moreover have "brutal_print rtt ?now ?b = Some ?b \<or>
      brutal_print rtt ?now ?b = Some (?b\<lparr>lastAckPrintTimestamp := ?now\<rparr>)"
    using assms(1) by (simp add: brutal_print_def brutal_SmoothedRTT_def brutal_wf_def)
  moreover have "brutal_wf ?N ?b" "brutal_wf ?N (?b\<lparr>lastAckPrintTimestamp := ?now\<rparr>)"
    using assms(1) ok rate now by (simp_all add: brutal_wf_def)
  ultimately show ?thesis by auto
qed

lemma brutal_OnPacketSent_wf:
  assumes "brutal_wf N b" "0 \<le> t" "0 \<le> bytes"
  shows "brutal_wf N (brutal_OnPacketSent K t infl n bytes rt b)"
  using assms pacer_SentPacket_range [of "br_pacer b" bytes K "brutal_bandwidth b" t]
  by (simp add: brutal_wf_def brutal_OnPacketSent_def)

lemma brutal_SetMaxDatagramSize_wf:
  "brutal_wf N b \<Longrightarrow> 0 < sz \<Longrightarrow> sz < 2 ^ 16 \<Longrightarrow> brutal_wf N (brutal_SetMaxDatagramSize sz b)"
  by (simp add: brutal_wf_def brutal_SetMaxDatagramSize_def pacer_SetMaxDatagramSize_def)

lemma NewBrutalSender_wf:
  assumes "consts_ok K"
  shows "brutal_wf 0 (brutal_SetRTTStatsProvider (NewBrutalSender K debug rate))"
  using assms minAckRate_bounds(1) i64_range [of rate]
  by (simp add: brutal_wf_def brutal_SetRTTStatsProvider_def NewBrutalSender_def NewPacer_def pacer_maxBurstPackets_def
      pktInfoSlotCount_def slot_ok_def pktInfo_zero_def consts_ok_def time_zero_def list_all_iff)

text \<open>A run does not panic and keeps the invariant, for as many packets as the counters hold.\<close>

lemma brutal_exec_wf:
  assumes "brutal_wf N b" "0 \<le> N" "list_all brutal_op_ok ops" "N + (\<Sum>x\<leftarrow>ops. op_reported x) < 2 ^ 60"
  shows "\<exists>b'. brutal_exec K ops b = Some b' \<and> brutal_wf (N + (\<Sum>x\<leftarrow>ops. op_reported x)) b' \<and> bps b' = bps b"
  using assms
proof (induction ops arbitrary: N b)
  case (Cons x ops)
  note rest = ops_reported_nonneg [of ops]
  show ?case
  proof (cases x)
    case (BrSent t infl n bytes rt)
    have "bps (brutal_OnPacketSent K t infl n bytes rt b) = bps b" by (simp add: brutal_OnPacketSent_def)
    with Cons.IH [OF brutal_OnPacketSent_wf [OF Cons.prems(1), of t bytes K infl n rt]] Cons.prems BrSent
    show ?thesis by simp
  next
    case (BrEvent rtt infl t acked lost)
    let ?N = "N + int (length acked) + int (length lost)"
    have lt: "?N < 2 ^ 60" using Cons.prems(4) rest BrEvent by simp
    have "brutal_op_ok (BrEvent rtt infl t acked lost)" using Cons.prems(3) BrEvent by simp
    from brutal_event_wf [OF Cons.prems(1,2) this lt] obtain b1 where
      b1: "brutal_OnCongestionEventEx rtt infl t acked lost b = Some b1" "brutal_wf ?N b1" "bps b1 = bps b" by blast
    with Cons.IH [OF b1(2)] Cons.prems BrEvent show ?thesis by (simp add: add.assoc)
  next
    case (BrMaxSize sz)
    have "bps (brutal_SetMaxDatagramSize sz b) = bps b" by (simp add: brutal_SetMaxDatagramSize_def)
    with Cons.IH [OF brutal_SetMaxDatagramSize_wf [OF Cons.prems(1), of sz]] Cons.prems BrMaxSize
    show ?thesis by simp
  qed
qed simp

lemma brutal_exec_new:
  assumes "consts_ok K" "list_all brutal_op_ok ops" "(\<Sum>x\<leftarrow>ops. op_reported x) < 2 ^ 60"
  obtains b where "brutal_exec K ops (brutal_SetRTTStatsProvider (NewBrutalSender K debug rate)) = Some b"
    "brutal_wf (\<Sum>x\<leftarrow>ops. op_reported x) b" "bps b = i64 rate"
  using brutal_exec_wf [OF NewBrutalSender_wf [OF assms(1), of debug rate] _ assms(2), of K] assms(3)
  by (auto simp: brutal_SetRTTStatsProvider_def NewBrutalSender_def)

subsection \<open>Properties\<close>

text \<open>Every field holds a value of its machine type, and the array of slots has its five elements.\<close>

definition brutal_typed :: "BrutalSender \<Rightarrow> bool" where
  "brutal_typed b \<longleftrightarrow>
     in_i64 (bps b) \<and> in_i64 (br_maxDatagramSize b) \<and> in_i64 (lastAckPrintTimestamp b) \<and>
     in_i64 (budgetAtLastSent (br_pacer b)) \<and> in_i64 (p_maxDatagramSize (br_pacer b)) \<and>
     length (pktInfoSlots b) = nat pktInfoSlotCount \<and>
     list_all (\<lambda>s. in_i64 (Timestamp s) \<and> in_u64 (AckCount s) \<and> in_u64 (LossCount s)) (pktInfoSlots b)"

lemma brutal_wf_typed:
  assumes "brutal_wf N b" "N < 2 ^ 60"
  shows "brutal_typed b"
proof -
  have "in_i64 (Timestamp s) \<and> in_u64 (AckCount s) \<and> in_u64 (LossCount s)" if "slot_ok N s" for s
    using that assms(2) by (simp add: slot_ok_def)
  then have "list_all (\<lambda>s. in_i64 (Timestamp s) \<and> in_u64 (AckCount s) \<and> in_u64 (LossCount s)) (pktInfoSlots b)"
    using assms(1) by (auto simp: brutal_wf_def list_all_iff)
  with assms(1) show ?thesis by (simp add: brutal_typed_def brutal_wf_def pktInfoSlotCount_def)
qed

text \<open>
  C38: a Brutal sender with an RTT provider stays well typed: under every sequence of sent packets, congestion events
  after 1970 in any order of their times, and changes of the datagram size, no call panics (no slot is out of range),
  every field stays in the range of its machine type, and the ack rate stays between 0.8 and 1, so the window and the
  pacing rate are raised by at most a quarter.
\<close>

theorem brutal_run_typed:
  assumes "consts_ok K" "list_all brutal_op_ok ops" "(\<Sum>x\<leftarrow>ops. op_reported x) < 2 ^ 60"
  shows "\<exists>b. brutal_exec K ops (brutal_SetRTTStatsProvider (NewBrutalSender K debug rate)) = Some b \<and>
    brutal_typed b \<and> minAckRate \<le> ackRate b \<and> ackRate b \<le> 1"
proof -
  obtain b where b: "brutal_exec K ops (brutal_SetRTTStatsProvider (NewBrutalSender K debug rate)) = Some b"
      "brutal_wf (\<Sum>x\<leftarrow>ops. op_reported x) b"
    using brutal_exec_new [OF assms] by blast
  with brutal_wf_typed [OF b(2) assms(3)] show ?thesis by (simp add: brutal_wf_def)
qed

lemma brutal_run_typed_witness:
  "\<exists>b. brutal_exec quic_go_consts
      [BrSent 62135596800000000000 0 1 1252 True,
       BrEvent \<lparr>MinRTT = 1, SmoothedRTT = 1\<rparr> 1252 62135596809000000000 [\<lparr>acked_PacketNumber = 1, BytesAcked = 1252\<rparr>] [],
       BrEvent \<lparr>MinRTT = 1, SmoothedRTT = 1\<rparr> 1252 62135596801000000000 [] [\<lparr>lost_PacketNumber = 2, BytesLost = 1200\<rparr>],
       BrMaxSize 1400]
      (brutal_SetRTTStatsProvider (NewBrutalSender quic_go_consts True 1000000)) = Some b \<and>
    brutal_typed b \<and> minAckRate \<le> ackRate b \<and> ackRate b \<le> 1"
  by (rule brutal_run_typed) (simp_all add: time_Unix_def time_Second_def)

text \<open>
  C37: when a Brutal sender does not stall: with a rate between 64 KiB and 512 GiB per second, after every sequence of
  calls as in the property before, with nothing in flight, it may send and has the pacing budget for a datagram when it is asked at or after
  \<open>TimeUntilSend\<close>, for every RTT that is unknown or between a millisecond and \<open>2 ^ 40\<close> nanoseconds (18 minutes), provided that the
  pacer has not been idle for so long that its budget overflows (\<open>pacer_calm\<close>: nothing has been sent yet; or the last
  packet was not sent in the future, and the time since is below \<open>2 ^ 63\<close> nanoseconds and, multiplied by the pacing rate, below
  \<open>2 ^ 62\<close>).
\<close>

theorem brutal_run_not_stuck:
  assumes "consts_ok K" "list_all brutal_op_ok ops" "(\<Sum>x\<leftarrow>ops. op_reported x) < 2 ^ 60"
    and "65536 \<le> rate" "rate \<le> 2 ^ 39"
    and "SmoothedRTT rtt \<le> 0 \<or> 1000000 \<le> SmoothedRTT rtt \<and> SmoothedRTT rtt \<le> 2 ^ 40"
    and "brutal_exec K ops (brutal_SetRTTStatsProvider (NewBrutalSender K debug rate)) = Some b"
    and "pacer_calm (brutal_bandwidth b) now (br_pacer b)" "brutal_TimeUntilSend K b \<le> now"
  shows "brutal_CanSend rtt 0 b = Some True \<and> brutal_HasPacingBudget K now b"
proof (rule brutal_sender.idle_sender_not_stuck [OF _ assms(8,9)])
  have "brutal_wf (\<Sum>x\<leftarrow>ops. op_reported x) b" "bps b = i64 rate"
    using brutal_exec_new [OF assms(1-3), of debug rate] assms(7) by auto
  with assms(1,4-6) show "brutal_paced K rtt b" by (simp add: brutal_paced_def brutal_rate_ok_def brutal_wf_def)
qed

lemma brutal_run_not_stuck_witness:
  "brutal_CanSend \<lparr>MinRTT = 20000000, SmoothedRTT = 30000000\<rparr> 0
      (brutal_OnPacketSent quic_go_consts 62135596800000000000 0 1 1252 True
        (brutal_SetRTTStatsProvider (NewBrutalSender quic_go_consts False 1000000))) = Some True \<and>
   brutal_HasPacingBudget quic_go_consts 62135596800001000000
      (brutal_OnPacketSent quic_go_consts 62135596800000000000 0 1 1252 True
        (brutal_SetRTTStatsProvider (NewBrutalSender quic_go_consts False 1000000)))"
proof (rule brutal_run_not_stuck)
  show "brutal_exec quic_go_consts [BrSent 62135596800000000000 0 1 1252 True]
      (brutal_SetRTTStatsProvider (NewBrutalSender quic_go_consts False 1000000)) =
    Some (brutal_OnPacketSent quic_go_consts 62135596800000000000 0 1 1252 True
        (brutal_SetRTTStatsProvider (NewBrutalSender quic_go_consts False 1000000)))" by simp
qed (simp_all, code_simp+)

text \<open>
  The condition on the idle time is needed: at \<open>2 ^ 20\<close> bytes per second, a sender that has used up its burst and is idle for
  \<open>2 ^ 44\<close> nanoseconds, almost five hours, has a budget of zero when it is asked, long after \<open>TimeUntilSend\<close>: the product wraps to zero.
\<close>

lemma brutal_idle_overflow:
  "\<exists>b. brutal_exec quic_go_consts (replicate 10 (BrSent 62135596800000000000 0 1 1252 True))
       (brutal_SetRTTStatsProvider (NewBrutalSender quic_go_consts False (2 ^ 20))) = Some b \<and>
     brutal_TimeUntilSend quic_go_consts b \<le> 62135596800000000000 + 2 ^ 44 \<and>
     \<not> brutal_HasPacingBudget quic_go_consts (62135596800000000000 + 2 ^ 44) b"
proof (intro exI conjI)
  let ?b = "brutal_SetRTTStatsProvider (NewBrutalSender quic_go_consts False (2 ^ 20))"
  let ?c = "?b\<lparr>br_pacer := \<lparr>budgetAtLastSent = 0, p_maxDatagramSize = 1252, p_lastSentTime = 62135596800000000000\<rparr>\<rparr>"
  show "brutal_exec quic_go_consts (replicate 10 (BrSent 62135596800000000000 0 1 1252 True)) ?b = Some ?c"
    by code_simp
  show "brutal_TimeUntilSend quic_go_consts ?c \<le> 62135596800000000000 + 2 ^ 44" by code_simp
  show "\<not> brutal_HasPacingBudget quic_go_consts (62135596800000000000 + 2 ^ 44) ?c" by code_simp
qed

end
