(* ===== verification/HttpHandler.thy ===== *)
theory HttpHandler
  imports GoStrings
begin

text \<open>
  The handler of the HTTP/3 server (\<open>setupHandler\<close> and the template \<open>html\<close> of \<open>src/server/server.go\<close>).  gin is not part
  of the repository: what the code hands to it is a table of routes, each with the response its handler gives for the
  path parameters; matching a request against the table is left to gin.  \<open>esc_text\<close> and \<open>esc_url\<close> are the escaping that
  \<open>html/template\<close> applies in the text of an element and in the quoted URL of an attribute.
\<close>

datatype http_response =
    JsonResponse int "(string \<times> string) list"
  | HtmlResponse int string "(string \<times> string) list"

datatype gin_route =
    StaticRoute string string
  | GetRoute string "(string \<Rightarrow> string) \<Rightarrow> http_response"

definition setupHandler :: "string \<Rightarrow> gin_route list" where
  "setupHandler www =
     [StaticRoute ''/www'' www,
      GetRoute ''/test'' (\<lambda>param. JsonResponse 200 [(''status'', ''success'')]),
      GetRoute ''/html/:filename''
        (\<lambda>param. HtmlResponse 200 ''https'' [(''status'', ''success''), (''filename'', param ''filename'')])]"

text \<open>The template: literal text and the places where the file name goes.\<close>

datatype html_part = HtmlLit string | HtmlText string | HtmlUrl string

definition nl :: string where "nl = [CHR 0x0A]"

definition html_template :: "html_part list" where
  "html_template =
     [HtmlLit (nl @ ''<html>'' @ nl @ ''<head>'' @ nl @ ''  <title>Https Test</title>'' @ nl @ ''</head>'' @ nl @
        ''<body>'' @ nl @ ''  <h1 style='' @ [CHR 0x22] @ ''color:red;'' @ [CHR 0x22] @ ''>Img:''),
      HtmlText ''filename'',
      HtmlLit (''</h1>'' @ nl @ ''  <img src='' @ [CHR 0x22] @ ''www/''),
      HtmlUrl ''filename'',
      HtmlLit ([CHR 0x22] @ ''></img>'' @ nl @ ''</body>'' @ nl @ ''</html>'' @ nl)]"

fun html_part_render :: "(string \<Rightarrow> string) \<Rightarrow> (string \<Rightarrow> string) \<Rightarrow> (string \<times> string) list \<Rightarrow> html_part \<Rightarrow> string" where
  "html_part_render esc_text esc_url data (HtmlLit s) = s"
| "html_part_render esc_text esc_url data (HtmlText x) = esc_text (case map_of data x of Some v \<Rightarrow> v | None \<Rightarrow> '''')"
| "html_part_render esc_text esc_url data (HtmlUrl x) = esc_url (case map_of data x of Some v \<Rightarrow> v | None \<Rightarrow> '''')"

definition html_page :: "(string \<Rightarrow> string) \<Rightarrow> (string \<Rightarrow> string) \<Rightarrow> (string \<times> string) list \<Rightarrow> string" where
  "html_page esc_text esc_url data = concat (map (html_part_render esc_text esc_url data) html_template)"

text \<open>The page of a file shows its escaped name twice, once as text and once in the URL of the image.\<close>

definition html_literal :: "nat \<Rightarrow> string" where
  "html_literal k = (case html_template ! k of HtmlLit s \<Rightarrow> s | _ \<Rightarrow> '''')"

lemma html_route_page:
  assumes "GetRoute ''/html/:filename'' handler \<in> set (setupHandler www)"
  shows "\<exists>data. handler (\<lambda>_. f) = HtmlResponse 200 ''https'' data \<and>
    html_page esc_text esc_url data = html_literal 0 @ esc_text f @ html_literal 2 @ esc_url f @ html_literal 4"
  using assms by (auto simp: setupHandler_def html_page_def html_template_def html_literal_def)

end
