(* ===== verification/Spec2Isabelle.thy ===== *)
theory Spec2Isabelle
  imports BbrRuns Brutal RL CubicRuns Client Server ByteCountParser AddrUtils ProtocolTypes Http3Client Logger QperfMain
    Wrappers BrutalRuns HttpHandler
begin

text \<open>
  A verification library for \<open>qperf-go\<close>, a tool that measures the throughput of a QUIC connection.  A server
  (\<open>src/server\<close>) accepts connections, gives each a congestion controller and answers a request with endless data; a
  client (\<open>src/client\<close>) asks for the data, counts it and reports the rate.  The heart of the program are the congestion
  controllers (\<open>src/internal/congestion\<close>): BBR, a fixed-rate sender called Brutal, a sender steered by an external
  agent over Redis, and Cubic/Reno.  quic-go, which drives them, is not part of the repository.

  \<^bold>\<open>Conventions\<close> (\<open>Prelude\<close>, \<open>GoFloat\<close>, \<open>CongestionApi\<close>, \<open>GoStrings\<close>).
  A Go panic is \<open>None\<close>, a value \<open>Some\<close>; a pointer receiver is the last argument and is returned updated.  Integers are
  \<open>int\<close> with the wrap-around of their width written out (\<open>i64\<close>, \<open>u64\<close>, \<open>u32\<close>), division truncates and panics at zero,
  floats are rationals rounded to 53 or 24 bits after every operation, with nothing assumed about conversions out of
  range.  A time is its distance in nanoseconds from the zero time; a clock reading is an argument.  Constants of quic-go
  are the record \<open>congestion_consts\<close>, of which \<open>consts_ok\<close> is assumed where it matters.  Calls that may wait are of the
  type \<open>call\<close>: \<open>Blocked\<close>, \<open>Panicked\<close> or \<open>Returned\<close>.

  \<^bold>\<open>Theories and sources.\<close>
  \<^item> \<open>RingBuffer\<close>, \<open>PacketNumberIndexedQueue\<close>, \<open>WindowedFilter\<close>, \<open>Bandwidth\<close>: the files of the same names under
    \<open>bbr\<close>.  \<open>Deque\<close> states the interface of a double-ended queue as a locale; the ring buffer interprets it, the queue
    rests on its laws, and both are refined to lists and maps over whole sequences of calls.  The windowed filter
    answers with the exact maximum of its peaks as they leave the window.
  \<^item> \<open>BandwidthSampler\<close>, \<open>SamplerInvariant\<close>: \<open>bandwidth_sampler.go\<close>, its invariant \<open>bs_ok\<close>, the safety of all runs, the
    meaning of a sample and of the app-limited phase.
  \<^item> \<open>BbrSender\<close>, \<open>BbrInvariant\<close>, \<open>BbrRuns\<close>: \<open>bbr_sender.go\<close>.  The mode machine, the transitions of PROBE_RTT, the
    windows and the recovery; then the runs from the constructor, in which no call panics and,
    while the arithmetic of the pacer does not overflow, no idle sender stalls.
  \<^item> \<open>Pacer\<close>: \<open>congestion/common/pacer.go\<close>, the token bucket: its budget, the rate of a run, and that waiting suffices.
    \<open>SendAlgorithm\<close> is the interface the send loop relies on, interpreted by BBR, Brutal and, while its
    window is positive, the learned sender.
  \<^item> \<open>Brutal\<close>, \<open>BrutalRuns\<close>: \<open>brutal.go\<close>; its five one-second slots refine the history of the last five seconds, and
    runs of calls keep every field within its machine type and do not stall, within bounds on rate, RTT and idle time
    (after a long idle time the budget of the pacer wraps, \<open>brutal_idle_overflow\<close>).
  \<^item> \<open>RL\<close>: \<open>rl.go\<close>, \<open>mq.go\<close>; the sender and its goroutines as a step relation with invariants of reachable states.
    The goroutines share the window without a lock, so the store of an action and its guard are two steps, and so are the
    reading and the publishing of a state; a call of the connection is one step.
  \<^item> \<open>Cubic\<close>, \<open>CubicRuns\<close>: \<open>cubic.go\<close>, \<open>cubic_sender.go\<close>; bounds of the window over all runs and the single reduction
    per window of losses.
  \<^item> \<open>MeasurementState\<close>: \<open>common/state.go\<close>, \<open>time_utils.go\<close>, \<open>state_tracer.go\<close>; reports partition what was received
    under every interleaving.
  \<^item> \<open>SingleStores\<close>: \<open>single_session_cache.go\<close>, \<open>single_token_store.go\<close>, \<open>0rtt_utils.go\<close>; the locale \<open>single_cell\<close>
    (the first put wins) with both cells as interpretations.
  \<^item> \<open>Client\<close>, \<open>Http3Client\<close>: \<open>client.go\<close>; the receiver beside the main loop, its end, the interrupt, the exported history, and the
    HTTP/3 goroutines with their unsynchronised append.
  \<^item> \<open>Server\<close>: \<open>src/server\<close>, \<open>congestion/utils.go\<close>; the choice of the controller, the accept loop, in which Redis answers
    connection by connection, sessions, streams.
    \<open>HttpHandler\<close>: the routes and the page of the HTTP/3 server.
  \<^item> \<open>ByteCountParser\<close>, \<open>AddrUtils\<close>, \<open>Logger\<close>, \<open>ProtocolTypes\<close>, \<open>QperfMain\<close>: \<open>byte_count_parser.go\<close>, \<open>addr_utils.go\<close>,
    \<open>log.go\<close>, \<open>protocol.go\<close>, \<open>main.go\<close>.
  \<^item> \<open>Wrappers\<close>: the Redis manager of \<open>mq.go\<close>, \<open>internal/utils\<close> and the small files of \<open>src/common\<close>; which Redis
    address a server dials.

  \<^bold>\<open>How the parts meet.\<close>  \<open>QperfMain\<close> turns a command line into the arguments of \<open>client_Run\<close> and \<open>server_Run\<close>, through
  the two parsers, and their outcomes into the end of the process; \<open>server_accept_loop\<close> installs the modelled senders; \<open>client_Run\<close> works on the measurement state; the
  senders own a pacer, and BBR a sampler, which owns the queue, which owns the ring buffer.

  \<^bold>\<open>Bounds and fuel.\<close>  No definition needs fuel: loops recurse over a list or a counter, and the loops of the queue and
  of the sampler over the number of stored entries, which the invariants bound.  Hypotheses on magnitudes keep 64-bit sums
  in range: datagrams below 64 KiB, packet numbers below \<open>2 ^ 62\<close>, bytes and durations as each statement says.  Where the
  code relies on no such bound (the pacing budget, the cubic polynomial, byte counters) the wrap-around is in the
  statement, or excluded by a named condition: \<open>pacer_calm\<close> says that the bandwidth times the time since the last packet
  stays below \<open>2 ^ 62\<close>.

  \<^bold>\<open>Not modelled.\<close>  The libraries behind the program: go-redis, JSON, QUIC, TLS, HTTP/3 and the command-line package are
  arguments, steps or records of functions; the formatting of messages; the matching of requests against the routes
  of the HTTP/3 server; the configuration of QUIC and TLS but for the windows; and code that is commented out (\<open>qlog_helper.go\<close>, the
  constructors of the tracers).  The cubic package imports names that exist nowhere in the repository; they are the fields of
  \<open>cubic_env\<close>.  In \<open>Http3Client\<close> the elements of the raced slice are values: what the race may do to the backing array
  is not described.
\<close>

end
